(* ===== verification/Prelude.thy ===== *)
theory Prelude
  imports Complex_Main "HOL-Library.Word" "HOL-Library.Sublist"
begin

section \<open>Prelude: results, Python sequences and big-endian integers\<close>

text \<open>
  What the component theories share: the type of bytes, the result type of code that may raise
  (\<open>'e + 'a\<close>, \<open>Inl\<close> the exception) with its bind and its loop over a list, Python's indexing
  and slicing of sequences, and the big-endian encoding of unsigned integers that the standard
  library's \<^verbatim>\<open>struct\<close> performs. The collection \<open>bytes_simps\<close> holds the length and round-trip
  facts that the codec proofs rewrite with.
\<close>

named_theorems bytes_simps \<open>lengths, slices and round trips of byte strings\<close>

type_synonym byte = "8 word"
type_synonym bytes = "byte list"

subsection \<open>Code that may raise\<close>

definition bindE :: "'e + 'a \<Rightarrow> ('a \<Rightarrow> 'e + 'b) \<Rightarrow> 'e + 'b" where
  "bindE m f = (case m of Inl e \<Rightarrow> Inl e | Inr x \<Rightarrow> f x)"

lemma bindE_simps [simp]:
  "bindE (Inl e) f = Inl e"
  "bindE (Inr x) f = f x"
  by (simp_all add: bindE_def)

lemma bindE_eq_Inr: "bindE m f = Inr y \<longleftrightarrow> (\<exists>x. m = Inr x \<and> f x = Inr y)"
  by (cases m) auto

lemma bindE_eq_Inl: "bindE m f = Inl e \<longleftrightarrow> m = Inl e \<or> (\<exists>x. m = Inr x \<and> f x = Inl e)"
  by (cases m) auto

lemma bindE_assoc: "bindE (bindE m f) g = bindE m (\<lambda>x. bindE (f x) g)"
  by (cases m) simp_all

lemma bindE_cong [fundef_cong]:
  "m = m' \<Longrightarrow> (\<And>x. m' = Inr x \<Longrightarrow> f x = g x) \<Longrightarrow> bindE m f = bindE m' g"
  by (cases m') simp_all

text \<open>A comprehension or loop that stops at the first exception.\<close>

fun mapE :: "('a \<Rightarrow> 'e + 'b) \<Rightarrow> 'a list \<Rightarrow> 'e + 'b list" where
  "mapE f [] = Inr []"
| "mapE f (x # xs) = bindE (f x) (\<lambda>y. bindE (mapE f xs) (\<lambda>ys. Inr (y # ys)))"

lemma mapE_Inr_iff:
  "mapE f xs = Inr ys \<longleftrightarrow> list_all2 (\<lambda>x y. f x = Inr y) xs ys"
proof (induction xs arbitrary: ys)
  case Nil
  then show ?case by auto
next
  case (Cons x xs)
  then show ?case by (cases ys) (auto simp: bindE_eq_Inr)
qed

lemma mapE_map_Inr: "(\<And>x. x \<in> set xs \<Longrightarrow> f x = Inr (g x)) \<Longrightarrow> mapE f xs = Inr (map g xs)"
  by (induction xs) auto

lemma mapE_length: "mapE f xs = Inr ys \<Longrightarrow> length ys = length xs"
  by (auto simp: mapE_Inr_iff dest: list_all2_lengthD)

definition is_ok :: "'e + 'a \<Rightarrow> bool" where
  "is_ok r = (case r of Inl _ \<Rightarrow> False | Inr _ \<Rightarrow> True)"

lemma is_ok_simps [simp]: "is_ok (Inr x)" "\<not> is_ok (Inl e)"
  by (simp_all add: is_ok_def)

lemma is_ok_iff: "is_ok r \<longleftrightarrow> (\<exists>x. r = Inr x)"
  by (cases r) simp_all

subsection \<open>Encodings that can be undone\<close>

text \<open>
  The interface of every codec of the package: an encoder that may raise, a decoder that may raise,
  and the values the encoder promises to carry. The client lemmas follow from the one law.
\<close>

locale round_trip =
  fixes enc :: "'m \<Rightarrow> 'e + 'f" and dec :: "'f \<Rightarrow> 'e + 'm" and ok :: "'m \<Rightarrow> bool"
  assumes dec_enc: "ok m \<Longrightarrow> \<exists>f. enc m = Inr f \<and> dec f = Inr m"
begin

lemma enc_total: "ok m \<Longrightarrow> is_ok (enc m)"
  using dec_enc by (auto simp: is_ok_iff)

lemma enc_inj: "ok m \<Longrightarrow> ok m' \<Longrightarrow> enc m = enc m' \<Longrightarrow> m = m'"
  using dec_enc [of m] dec_enc [of m'] by auto

lemma dec_of_enc: "ok m \<Longrightarrow> enc m = Inr f \<Longrightarrow> dec f = Inr m"
  using dec_enc [of m] by auto

lemma enc_all: "list_all ok ms \<Longrightarrow> is_ok (mapE enc ms)"
proof (induction ms)
  case Nil
  then show ?case by simp
next
  case (Cons m ms)
  then show ?case using dec_enc [of m] by (auto simp: is_ok_iff)
qed

lemma dec_all: "list_all ok ms \<Longrightarrow> mapE enc ms = Inr fs \<Longrightarrow> mapE dec fs = Inr ms"
proof (induction ms arbitrary: fs)
  case Nil
  then show ?case by simp
next
  case (Cons m ms)
  then show ?case using dec_of_enc [of m] by (auto simp: bindE_eq_Inr)
qed

end

subsection \<open>Python sequences\<close>

text \<open>
  \<^verbatim>\<open>xs[i]\<close> of a tuple: a negative index counts from the end, and \<open>None\<close> is \<^verbatim>\<open>IndexError\<close>.
  \<open>slice b e xs\<close> is \<^verbatim>\<open>xs[b:e]\<close> for non-negative bounds, which never raises.
\<close>

definition py_index :: "'a list \<Rightarrow> int \<Rightarrow> 'a option" where
  "py_index xs i =
     (let n = int (length xs); j = (if i < 0 then n + i else i)
      in if 0 \<le> j \<and> j < n then Some (xs ! nat j) else None)"

definition slice :: "nat \<Rightarrow> nat \<Rightarrow> 'a list \<Rightarrow> 'a list" where
  "slice b e xs = take (e - b) (drop b xs)"

lemma py_index_nat: "py_index xs (int i) = (if i < length xs then Some (xs ! i) else None)"
  by (simp add: py_index_def Let_def)

lemma py_index_nonneg_None: "0 \<le> i \<Longrightarrow> py_index xs i = None \<longleftrightarrow> int (length xs) \<le> i"
  by (simp add: py_index_def Let_def)

lemma slice_append [bytes_simps]: "slice (length xs) (length xs + length ys) (xs @ ys @ zs) = ys"
  by (simp add: slice_def)

lemma length_slice [bytes_simps]: "length (slice b e xs) = min (e - b) (length xs - b)"
  by (simp add: slice_def min.commute)

subsection \<open>Big-endian unsigned integers\<close>

primrec be_bytes :: "nat \<Rightarrow> int \<Rightarrow> bytes" where
  "be_bytes 0 v = []"
| "be_bytes (Suc n) v = be_bytes n (v div 256) @ [word_of_int (v mod 256)]"

definition be_int :: "bytes \<Rightarrow> int" where
  "be_int bs = foldl (\<lambda>a b. a * 256 + uint b) 0 bs"

lemma be_int_Nil [simp]: "be_int [] = 0"
  by (simp add: be_int_def)

lemma be_int_snoc [simp]: "be_int (bs @ [b]) = be_int bs * 256 + uint b"
  by (simp add: be_int_def)

lemma length_be_bytes [simp, bytes_simps]: "length (be_bytes n v) = n"
  by (induction n arbitrary: v) simp_all

lemma uint_byte_bounds: "0 \<le> uint (b :: byte)" "uint b < 256"
  using uint_lt2p [of b] by simp_all

lemma uint_byte_of_int: "uint (word_of_int (v mod 256) :: byte) = v mod 256"
  by (simp add: uint_word_of_int)

lemma be_int_be_bytes_mod: "be_int (be_bytes n v) = v mod 256 ^ n"
proof (induction n arbitrary: v)
  case 0
  then show ?case by simp
next
  case (Suc n)
  have "be_int (be_bytes (Suc n) v) = (v div 256) mod 256 ^ n * 256 + v mod 256"
    by (simp add: Suc.IH uint_byte_of_int)
  also have "\<dots> = v mod (256 * 256 ^ n)"
    by (simp add: mod_mult2_eq' algebra_simps zmod_zmult2_eq)
  finally show ?case by simp
qed

lemma be_int_be_bytes [bytes_simps]: "0 \<le> v \<Longrightarrow> v < 256 ^ n \<Longrightarrow> be_int (be_bytes n v) = v"
  by (simp add: be_int_be_bytes_mod)

lemma be_int_bounds: "0 \<le> be_int bs \<and> be_int bs < 256 ^ length bs"
proof (induction bs rule: rev_induct)
  case Nil
  then show ?case by simp
next
  case (snoc b bs)
  then show ?case using uint_byte_bounds [of b] by simp
qed

lemma be_int_nonneg: "0 \<le> be_int bs" and be_int_less: "be_int bs < 256 ^ length bs"
  using be_int_bounds by blast+

lemma be_bytes_be_int [bytes_simps]: "be_bytes (length bs) (be_int bs) = bs"
proof (induction bs rule: rev_induct)
  case Nil
  then show ?case by simp
next
  case (snoc b bs)
  have "(be_int bs * 256 + uint b) div 256 = be_int bs"
    and "(be_int bs * 256 + uint b) mod 256 = uint b"
    using uint_byte_bounds [of b] by simp_all
  with snoc show ?case by simp
qed

end
