(* ===== verification/Models.thy ===== *)
theory Models
  imports Prelude
begin

section \<open>The value types of \<^verbatim>\<open>models.py\<close>\<close>

text \<open>
  The enumerations of \<^verbatim>\<open>models.py\<close> as datatypes with their integer values, its frozen dataclasses as
  records and the closed union \<^verbatim>\<open>Message\<close> as one datatype. Python integers are unbounded, so every
  integer field is an \<open>int\<close>. \<open>enum_call\<close> is the call \<^verbatim>\<open>EnumClass(value)\<close>, with \<open>None\<close> for its
  \<^verbatim>\<open>ValueError\<close>; the lists \<open>all_entry_kinds\<close> and so on are the tuples \<^verbatim>\<open>tuple(EntryKind)\<close> that
  \<^verbatim>\<open>_decode.py\<close> indexes.
\<close>

named_theorems enum_simps \<open>values of the enumerations and their inverses\<close>

type_synonym slot = int
type_synonym node_id = int

definition enum_call :: "('a \<Rightarrow> int) \<Rightarrow> 'a list \<Rightarrow> int \<Rightarrow> 'a option" where
  "enum_call value members v = find (\<lambda>m. value m = v) members"

subsection \<open>Enumerations\<close>

datatype entry_kind = EK_NONE | EK_COMMAND | EK_NOOP | EK_STOP_SIGN

fun entry_kind_value :: "entry_kind \<Rightarrow> int" where
  "entry_kind_value EK_NONE = 0"
| "entry_kind_value EK_COMMAND = 1"
| "entry_kind_value EK_NOOP = 2"
| "entry_kind_value EK_STOP_SIGN = 3"

definition all_entry_kinds :: "entry_kind list" where
  "all_entry_kinds = [EK_NONE, EK_COMMAND, EK_NOOP, EK_STOP_SIGN]"

datatype write_kind = WK_NONE | WK_PROMISE | WK_PROMISE_AT | WK_VOTE | WK_CHOSEN | WK_TRIM

fun write_kind_value :: "write_kind \<Rightarrow> int" where
  "write_kind_value WK_NONE = 0"
| "write_kind_value WK_PROMISE = 1"
| "write_kind_value WK_PROMISE_AT = 2"
| "write_kind_value WK_VOTE = 3"
| "write_kind_value WK_CHOSEN = 4"
| "write_kind_value WK_TRIM = 5"

definition all_write_kinds :: "write_kind list" where
  "all_write_kinds = [WK_NONE, WK_PROMISE, WK_PROMISE_AT, WK_VOTE, WK_CHOSEN, WK_TRIM]"

datatype message_kind =
  MK_NONE | MK_PREPARE | MK_PROMISE | MK_PROMISE_RANGE | MK_ACCEPT | MK_ACCEPTED | MK_COMMIT
| MK_LEARN | MK_NACK | MK_HEARTBEAT

fun message_kind_value :: "message_kind \<Rightarrow> int" where
  "message_kind_value MK_NONE = 0"
| "message_kind_value MK_PREPARE = 1"
| "message_kind_value MK_PROMISE = 2"
| "message_kind_value MK_PROMISE_RANGE = 3"
| "message_kind_value MK_ACCEPT = 4"
| "message_kind_value MK_ACCEPTED = 5"
| "message_kind_value MK_COMMIT = 6"
| "message_kind_value MK_LEARN = 7"
| "message_kind_value MK_NACK = 8"
| "message_kind_value MK_HEARTBEAT = 9"

definition all_message_kinds :: "message_kind list" where
  "all_message_kinds =
     [MK_NONE, MK_PREPARE, MK_PROMISE, MK_PROMISE_RANGE, MK_ACCEPT, MK_ACCEPTED, MK_COMMIT,
      MK_LEARN, MK_NACK, MK_HEARTBEAT]"

datatype role = FOLLOWER | PREPARING | LEADER

fun role_value :: "role \<Rightarrow> int" where
  "role_value FOLLOWER = 0"
| "role_value PREPARING = 1"
| "role_value LEADER = 2"

definition all_roles :: "role list" where
  "all_roles = [FOLLOWER, PREPARING, LEADER]"

datatype cell_state = CS_EMPTY | CS_VOTED | CS_CHOSEN

fun cell_state_value :: "cell_state \<Rightarrow> int" where
  "cell_state_value CS_EMPTY = 0"
| "cell_state_value CS_VOTED = 1"
| "cell_state_value CS_CHOSEN = 2"

definition all_cell_states :: "cell_state list" where
  "all_cell_states = [CS_EMPTY, CS_VOTED, CS_CHOSEN]"

datatype batch_phase = BP_IDLE | BP_PENDING | BP_CONFIRMED | BP_FINISHED

fun batch_phase_value :: "batch_phase \<Rightarrow> int" where
  "batch_phase_value BP_IDLE = 0"
| "batch_phase_value BP_PENDING = 1"
| "batch_phase_value BP_CONFIRMED = 2"
| "batch_phase_value BP_FINISHED = 3"

definition all_batch_phases :: "batch_phase list" where
  "all_batch_phases = [BP_IDLE, BP_PENDING, BP_CONFIRMED, BP_FINISHED]"

datatype prepare_scope = SCOPE_GLOBAL | SCOPE_BOUNDED

fun prepare_scope_value :: "prepare_scope \<Rightarrow> int" where
  "prepare_scope_value SCOPE_GLOBAL = 0"
| "prepare_scope_value SCOPE_BOUNDED = 1"

definition all_prepare_scopes :: "prepare_scope list" where
  "all_prepare_scopes = [SCOPE_GLOBAL, SCOPE_BOUNDED]"

text \<open>
  An \<^verbatim>\<open>IntEnum\<close> compares as its integer value; the phases of a batch are ordered this way, which
  is what "a batch only moves forward" is stated with.
\<close>

instantiation batch_phase :: linorder
begin

definition less_eq_batch_phase :: "batch_phase \<Rightarrow> batch_phase \<Rightarrow> bool" where
  "less_eq_batch_phase a b \<longleftrightarrow> batch_phase_value a \<le> batch_phase_value b"

definition less_batch_phase :: "batch_phase \<Rightarrow> batch_phase \<Rightarrow> bool" where
  "less_batch_phase a b \<longleftrightarrow> batch_phase_value a < batch_phase_value b"

instance
proof
  fix a b :: batch_phase
  show "a \<le> b \<Longrightarrow> b \<le> a \<Longrightarrow> a = b"
    by (cases a; cases b) (simp_all add: less_eq_batch_phase_def)
qed (auto simp: less_eq_batch_phase_def less_batch_phase_def)

end

lemma entry_kind_of_value [enum_simps]:
  "enum_call entry_kind_value all_entry_kinds (entry_kind_value k) = Some k"
  "py_index all_entry_kinds (entry_kind_value k) = Some k"
  by (cases k; simp add: enum_call_def all_entry_kinds_def py_index_def)+

lemma write_kind_of_value [enum_simps]:
  "enum_call write_kind_value all_write_kinds (write_kind_value w) = Some w"
  "py_index all_write_kinds (write_kind_value w) = Some w"
  by (cases w; simp add: enum_call_def all_write_kinds_def py_index_def)+

lemma message_kind_of_value [enum_simps]:
  "enum_call message_kind_value all_message_kinds (message_kind_value m) = Some m"
  "py_index all_message_kinds (message_kind_value m) = Some m"
  by (cases m; simp add: enum_call_def all_message_kinds_def py_index_def)+

lemma role_of_value [enum_simps]: "py_index all_roles (role_value r) = Some r"
  by (cases r; simp add: all_roles_def py_index_def)

lemma cell_state_of_value [enum_simps]:
  "py_index all_cell_states (cell_state_value c) = Some c"
  by (cases c; simp add: all_cell_states_def py_index_def)

lemma batch_phase_of_value [enum_simps]:
  "enum_call batch_phase_value all_batch_phases (batch_phase_value p) = Some p"
  by (cases p; simp add: enum_call_def all_batch_phases_def)

lemma prepare_scope_of_value [enum_simps]:
  "py_index all_prepare_scopes (prepare_scope_value p) = Some p"
  by (cases p; simp add: all_prepare_scopes_def py_index_def)

lemma entry_kind_bounds: "0 \<le> entry_kind_value k" "entry_kind_value k \<le> 3"
  by (cases k; simp)+

lemma write_kind_bounds: "0 \<le> write_kind_value w" "write_kind_value w \<le> 5"
  by (cases w; simp)+

lemma message_kind_bounds: "0 \<le> message_kind_value m" "message_kind_value m \<le> 9"
  by (cases m; simp)+

lemma cell_state_bounds: "0 \<le> cell_state_value c" "cell_state_value c \<le> 2"
  by (cases c; simp)+

lemma prepare_scope_bounds: "0 \<le> prepare_scope_value p" "prepare_scope_value p \<le> 1"
  by (cases p; simp)+

lemmas enum_bounds =
  entry_kind_bounds write_kind_bounds message_kind_bounds cell_state_bounds prepare_scope_bounds

text \<open>The only integers an enumeration call accepts are the values of its members.\<close>

lemma enum_call_SomeD: "enum_call f xs v = Some m \<Longrightarrow> f m = v \<and> m \<in> set xs"
  unfolding enum_call_def by (auto simp: find_Some_iff)

lemma entry_kind_call_iff: "enum_call entry_kind_value all_entry_kinds v = Some k \<longleftrightarrow> entry_kind_value k = v"
  using enum_call_SomeD entry_kind_of_value(1) by metis

lemma write_kind_call_iff: "enum_call write_kind_value all_write_kinds v = Some k \<longleftrightarrow> write_kind_value k = v"
  using enum_call_SomeD write_kind_of_value(1) by metis

subsection \<open>Options, profile and log entries\<close>

text \<open>
  A \<^verbatim>\<open>TypedDict\<close> with \<^verbatim>\<open>total=False\<close> is a record of optional fields: \<open>None\<close> is an absent key.
  Durations are in seconds; \<open>pyfloat\<close> is a Python float, an exact rational (rounding is not
  modelled) or one of the special values that \<^verbatim>\<open>_check_timeout\<close> looks for.
\<close>

datatype pyfloat = Fin rat | PosInf | NegInf | NaN

record session_options =
  so_priority :: "int option"
  so_read_quorum :: "int option"
  so_write_quorum :: "int option"
  so_election_timeout :: "rat option"
  so_heartbeat_interval :: "rat option"
  so_resend_interval :: "rat option"
  so_campaign_disabled :: "bool option"
  so_gate_proposals :: "bool option"

record node_options =
  no_priority :: "int option"
  no_read_quorum :: "int option"
  no_write_quorum :: "int option"
  no_election_timeout_ticks :: "int option"
  no_heartbeat_interval_ticks :: "int option"
  no_resend_interval_ticks :: "int option"
  no_campaign_disabled :: "bool option"
  no_gate_proposals :: "bool option"

record profile =
  pf_max_members :: int
  pf_window_slots :: int
  pf_chunk_slots :: int
  pf_max_value_bytes :: int
  pf_max_metadata_bytes :: int
  pf_gate_enforced :: bool
  pf_node_bytes :: int
  pf_effects_bytes :: int
  pf_max_writes_per_batch :: int
  pf_max_messages_per_batch :: int
  pf_max_committed_per_batch :: int
  pf_max_requests_per_batch :: int
  pf_capabilities :: int
  pf_fingerprint :: int

record stop_sign =
  ss_configuration_id :: int
  ss_members :: "node_id list"
  ss_metadata :: bytes

record log_entry =
  le_kind :: entry_kind
  le_body :: bytes
  le_stop_sign :: "stop_sign option"

definition log_entry_is_command :: "log_entry \<Rightarrow> bool" where
  "log_entry_is_command e = (le_kind e = EK_COMMAND)"

text \<open>\<^verbatim>\<open>LogEntry(kind, body)\<close>: the dataclass defaults, an empty body and no stop sign.\<close>

definition mk_entry :: "entry_kind \<Rightarrow> bytes \<Rightarrow> log_entry" where
  "mk_entry k b = \<lparr>le_kind = k, le_body = b, le_stop_sign = None\<rparr>"

lemma mk_entry_simps [simp]:
  "le_kind (mk_entry k b) = k" "le_body (mk_entry k b) = b" "le_stop_sign (mk_entry k b) = None"
  by (simp_all add: mk_entry_def)

lemma mk_entry_eta: "le_stop_sign e = None \<Longrightarrow> mk_entry (le_kind e) (le_body e) = e"
  by (cases e) (simp add: mk_entry_def)

record committed =
  cm_slot :: slot
  cm_entry :: log_entry

record write_record =
  wr_kind :: write_kind
  wr_ballot :: int
  wr_slot :: slot
  wr_trim_id :: int
  wr_trim_slot :: slot
  wr_entry :: log_entry
  wr_requires_barrier :: bool

subsection \<open>Protocol messages and views\<close>

text \<open>
  The union \<^verbatim>\<open>Message\<close>, one constructor per dataclass with its fields in order: \<^verbatim>\<open>Prepare\<close> (ballot,
  first, last, scope), \<^verbatim>\<open>Promise\<close> (ballot, slot, vote, state, entry), \<^verbatim>\<open>PromiseRange\<close> (ballot, first,
  last, reported, more, decided\_through, trim\_id, trim\_slot), \<^verbatim>\<open>Accept\<close> (ballot, slot, entry),
  \<^verbatim>\<open>Accepted\<close> (ballot, slot, decided\_through), \<^verbatim>\<open>Commit\<close> (slot, entry), \<^verbatim>\<open>Learn\<close> (from\_slot, count),
  \<^verbatim>\<open>Nack\<close> (rejected, promised, slot, decided\_through), \<^verbatim>\<open>Heartbeat\<close> (ballot, decided\_through).
\<close>

datatype message =
  Prepare int slot slot prepare_scope
| Promise int slot int cell_state log_entry
| PromiseRange int slot slot int bool slot int slot
| Accept int slot log_entry
| Accepted int slot slot
| Commit slot log_entry
| Learn slot int
| Nack int int slot slot
| Heartbeat int slot

record envelope =
  ev_configuration_id :: int
  ev_sender :: node_id
  ev_recipient :: node_id
  ev_message :: message

record serve_range =
  sr_peer :: node_id
  sr_first :: slot
  sr_count :: int

record node_state =
  ns_node_id :: node_id
  ns_configuration_id :: int
  ns_role :: role
  ns_ballot :: int
  ns_leader :: "node_id option"
  ns_decided_through :: slot
  ns_memory_floor :: slot
  ns_leader_base :: slot
  ns_frontier :: slot
  ns_stop_slot :: slot
  ns_trim_id :: int
  ns_trim_slot :: slot
  ns_sealed :: bool
  ns_voting_member :: bool
  ns_campaign_enabled :: bool
  ns_leader_caught_up :: bool
  ns_resubmits_dropped :: int

definition node_state_is_leader :: "node_state \<Rightarrow> bool" where
  "node_state_is_leader s = (ns_role s = LEADER)"

record receipt =
  rc_configuration_id :: int
  rc_slot :: slot
  rc_entry :: log_entry

definition receipt_value :: "receipt \<Rightarrow> bytes" where
  "receipt_value r = le_body (rc_entry r)"

text \<open>The log entry a message carries, if its class has an \<^verbatim>\<open>entry\<close> field.\<close>

fun message_entry :: "message \<Rightarrow> log_entry option" where
  "message_entry (Promise _ _ _ _ e) = Some e"
| "message_entry (Accept _ _ e) = Some e"
| "message_entry (Commit _ e) = Some e"
| "message_entry _ = None"

end
