(* ===== verification/Errors.thy ===== *)
theory Errors
  imports Models
begin

section \<open>The exception hierarchy of \<^verbatim>\<open>errors.py\<close>\<close>

text \<open>
  Every exception class of \<^verbatim>\<open>errors.py\<close>, its parent, and the class attributes it sets itself; an
  attribute a class does not set is found along the parents, as Python's attribute lookup does.
  \<open>error_init\<close> is \<^verbatim>\<open>PaxodinError.__init__\<close>, \<open>render\<close> its method, \<open>split_block\<close> the module's \<^verbatim>\<open>_split\<close>,
  \<open>exception_for\<close> and \<open>raise_for\<close> the two functions that turn a native status into an exception.
  The explanation text of a status comes from the native library: it is the argument \<open>explain\<close>,
  and what is proved here holds whatever text it returns. A raised exception is a value of type
  \<open>exn\<close>: \<open>Err\<close> carries the class, the status code and the constructor's keyword arguments, and the
  other constructors are the built-in exceptions the package can let through.
\<close>

subsection \<open>Native status codes\<close>

text \<open>The constants \<^verbatim>\<open>E_*\<close> of \<^verbatim>\<open>_native.py\<close>.\<close>

definition OK :: int where "OK = 0"
definition E_INVALID_ARGUMENT :: int where "E_INVALID_ARGUMENT = 1"
definition E_NULL_POINTER :: int where "E_NULL_POINTER = 2"
definition E_ABI_MISMATCH :: int where "E_ABI_MISMATCH = 3"
definition E_OUT_OF_MEMORY :: int where "E_OUT_OF_MEMORY = 4"
definition E_HANDLE_CLOSED :: int where "E_HANDLE_CLOSED = 5"
definition E_WRONG_PROCESS :: int where "E_WRONG_PROCESS = 6"
definition E_REENTRANT :: int where "E_REENTRANT = 7"
definition E_POISONED :: int where "E_POISONED = 8"
definition E_BATCH_PENDING :: int where "E_BATCH_PENDING = 9"
definition E_NO_BATCH :: int where "E_NO_BATCH = 10"
definition E_STALE_TOKEN :: int where "E_STALE_TOKEN = 11"
definition E_FOREIGN_TOKEN :: int where "E_FOREIGN_TOKEN = 12"
definition E_BATCH_FINISHED :: int where "E_BATCH_FINISHED = 13"
definition E_WRITES_UNCONFIRMED :: int where "E_WRITES_UNCONFIRMED = 14"
definition E_WRITES_NOT_COPIED :: int where "E_WRITES_NOT_COPIED = 15"
definition E_BUFFER_TOO_SMALL :: int where "E_BUFFER_TOO_SMALL = 16"
definition E_RANGE :: int where "E_RANGE = 17"
definition E_VALUE_TOO_LARGE :: int where "E_VALUE_TOO_LARGE = 18"
definition E_UNSUPPORTED_KIND :: int where "E_UNSUPPORTED_KIND = 19"
definition E_UNSUPPORTED_CAPABILITY :: int where "E_UNSUPPORTED_CAPABILITY = 20"
definition E_REPLAY_ACTIVE :: int where "E_REPLAY_ACTIVE = 21"
definition E_REPLAY_NOT_ACTIVE :: int where "E_REPLAY_NOT_ACTIVE = 22"
definition CORE_STATUS_BASE :: int where "CORE_STATUS_BASE = 1000"

lemmas status_defs =
  OK_def E_INVALID_ARGUMENT_def E_NULL_POINTER_def E_ABI_MISMATCH_def E_OUT_OF_MEMORY_def
  E_HANDLE_CLOSED_def E_WRONG_PROCESS_def E_REENTRANT_def E_POISONED_def E_BATCH_PENDING_def
  E_NO_BATCH_def E_STALE_TOKEN_def E_FOREIGN_TOKEN_def E_BATCH_FINISHED_def
  E_WRITES_UNCONFIRMED_def E_WRITES_NOT_COPIED_def E_BUFFER_TOO_SMALL_def E_RANGE_def
  E_VALUE_TOO_LARGE_def E_UNSUPPORTED_KIND_def E_UNSUPPORTED_CAPABILITY_def E_REPLAY_ACTIVE_def
  E_REPLAY_NOT_ACTIVE_def CORE_STATUS_BASE_def

subsection \<open>Classes and their attributes\<close>

datatype error_class =
  PaxodinError
| UsageError | InvalidArgument | ValueTooLarge | UnsupportedKind | UnsupportedCapability
| HandleClosed | ForkedHandle | ReentrantCall
| BatchError | BatchPending | NoBatch | StaleToken | ForeignToken | BatchFinished
| WritesUnconfirmed | AbandonedBatch | WritesNotCopied | ReplayActive | ReplayNotActive
| ProtocolError | NotLeader | LeaderCatchingUp | WindowFull | LogSealed | ConfigurationMismatch
| Trimmed | CampaignDisabled
| NativeError | OutOfMemory | Poisoned
| ProposalLost | InvalidTimeout | CommitTimeout
| StorageError | TransportError | JournalNotOpen | JournalCorrupt

fun parent :: "error_class \<Rightarrow> error_class option" where
  "parent PaxodinError = None"
| "parent UsageError = Some PaxodinError"
| "parent InvalidArgument = Some UsageError"
| "parent ValueTooLarge = Some UsageError"
| "parent UnsupportedKind = Some UsageError"
| "parent UnsupportedCapability = Some UsageError"
| "parent HandleClosed = Some UsageError"
| "parent ForkedHandle = Some UsageError"
| "parent ReentrantCall = Some UsageError"
| "parent BatchError = Some PaxodinError"
| "parent BatchPending = Some BatchError"
| "parent NoBatch = Some BatchError"
| "parent StaleToken = Some BatchError"
| "parent ForeignToken = Some BatchError"
| "parent BatchFinished = Some BatchError"
| "parent WritesUnconfirmed = Some BatchError"
| "parent AbandonedBatch = Some WritesUnconfirmed"
| "parent WritesNotCopied = Some BatchError"
| "parent ReplayActive = Some BatchError"
| "parent ReplayNotActive = Some BatchError"
| "parent ProtocolError = Some PaxodinError"
| "parent NotLeader = Some ProtocolError"
| "parent LeaderCatchingUp = Some ProtocolError"
| "parent WindowFull = Some ProtocolError"
| "parent LogSealed = Some ProtocolError"
| "parent ConfigurationMismatch = Some ProtocolError"
| "parent Trimmed = Some ProtocolError"
| "parent CampaignDisabled = Some ProtocolError"
| "parent NativeError = Some PaxodinError"
| "parent OutOfMemory = Some NativeError"
| "parent Poisoned = Some NativeError"
| "parent ProposalLost = Some ProtocolError"
| "parent InvalidTimeout = Some UsageError"
| "parent CommitTimeout = Some ProtocolError"
| "parent StorageError = Some PaxodinError"
| "parent TransportError = Some PaxodinError"
| "parent JournalNotOpen = Some StorageError"
| "parent JournalCorrupt = Some StorageError"

text \<open>The attributes each class body assigns; \<open>None\<close> where the class inherits.\<close>

fun own_code :: "error_class \<Rightarrow> int option" where
  "own_code PaxodinError = Some (- 1)"
| "own_code InvalidArgument = Some E_INVALID_ARGUMENT"
| "own_code ValueTooLarge = Some E_VALUE_TOO_LARGE"
| "own_code UnsupportedKind = Some E_UNSUPPORTED_KIND"
| "own_code UnsupportedCapability = Some E_UNSUPPORTED_CAPABILITY"
| "own_code HandleClosed = Some E_HANDLE_CLOSED"
| "own_code ForkedHandle = Some E_WRONG_PROCESS"
| "own_code ReentrantCall = Some E_REENTRANT"
| "own_code BatchPending = Some E_BATCH_PENDING"
| "own_code NoBatch = Some E_NO_BATCH"
| "own_code StaleToken = Some E_STALE_TOKEN"
| "own_code ForeignToken = Some E_FOREIGN_TOKEN"
| "own_code BatchFinished = Some E_BATCH_FINISHED"
| "own_code WritesUnconfirmed = Some E_WRITES_UNCONFIRMED"
| "own_code WritesNotCopied = Some E_WRITES_NOT_COPIED"
| "own_code ReplayActive = Some E_REPLAY_ACTIVE"
| "own_code ReplayNotActive = Some E_REPLAY_NOT_ACTIVE"
| "own_code NotLeader = Some (CORE_STATUS_BASE + 19)"
| "own_code LeaderCatchingUp = Some (CORE_STATUS_BASE + 20)"
| "own_code WindowFull = Some (CORE_STATUS_BASE + 21)"
| "own_code LogSealed = Some (CORE_STATUS_BASE + 37)"
| "own_code ConfigurationMismatch = Some (CORE_STATUS_BASE + 18)"
| "own_code Trimmed = Some (CORE_STATUS_BASE + 42)"
| "own_code CampaignDisabled = Some (CORE_STATUS_BASE + 29)"
| "own_code OutOfMemory = Some E_OUT_OF_MEMORY"
| "own_code Poisoned = Some E_POISONED"
| "own_code ProposalLost = Some (- 2)"
| "own_code InvalidTimeout = Some (- 7)"
| "own_code CommitTimeout = Some (- 3)"
| "own_code StorageError = Some (- 4)"
| "own_code TransportError = Some (- 5)"
| "own_code JournalNotOpen = Some (- 8)"
| "own_code JournalCorrupt = Some (- 6)"
| "own_code _ = None"

fun own_default_message :: "error_class \<Rightarrow> string option" where
  "own_default_message PaxodinError = Some ''''"
| "own_default_message UsageError = Some ''The call does not fit the API's contract.''"
| "own_default_message BatchError = Some ''A pending batch was driven out of order.''"
| "own_default_message ProtocolError =
     Some ''The consensus engine refused the operation; the node is unchanged.''"
| "own_default_message NativeError =
     Some ''The native library reported a failure this package has no specific class for.''"
| "own_default_message StorageError =
     Some ''Storage failed and it is not known which writes reached stable media.''"
| "own_default_message TransportError = Some ''A frame could not be handed to the transport.''"
| "own_default_message _ = None"

fun own_default_hint :: "error_class \<Rightarrow> string option" where
  "own_default_hint PaxodinError = Some ''''"
| "own_default_hint UsageError =
     Some (''Read the exception's type and context; this is a programming error, not a ''
           @ ''cluster condition.'')"
| "own_default_hint BatchError =
     Some (''Copy the writes, persist and sync, confirm, read the outputs, then finish -- in ''
           @ ''that order.'')"
| "own_default_hint ProtocolError =
     Some ''Inspect the status code and the node's state before retrying.''"
| "own_default_hint NativeError =
     Some ''Report the status code with the output of paxodin.core_version().''"
| "own_default_hint StorageError =
     Some ''Reopen the node and replay its journal. Never confirm a write that may not have landed.''"
| "own_default_hint TransportError =
     Some (''Nothing durable was rolled back; retransmission will repeat it. Check the ''
           @ ''adapter's connection.'')"
| "own_default_hint _ = None"

text \<open>
  Attribute lookup along the parents. \<^verbatim>\<open>PaxodinError\<close> sets every attribute, so the search ends
  there; the longest chain is \<^verbatim>\<open>AbandonedBatch\<close>'s, four classes.
\<close>

fun depth :: "error_class \<Rightarrow> nat" where
  "depth PaxodinError = 0"
| "depth UsageError = 1"
| "depth BatchError = 1"
| "depth ProtocolError = 1"
| "depth NativeError = 1"
| "depth StorageError = 1"
| "depth TransportError = 1"
| "depth AbandonedBatch = 3"
| "depth _ = 2"

lemma depth_parent: "parent c = Some p \<Longrightarrow> depth p < depth c"
  by (cases c) auto

function class_attr :: "(error_class \<Rightarrow> 'a option) \<Rightarrow> error_class \<Rightarrow> 'a option" where
  "class_attr own c =
     (case own c of Some v \<Rightarrow> Some v
      | None \<Rightarrow> (case parent c of None \<Rightarrow> None | Some p \<Rightarrow> class_attr own p))"
  by pat_completeness auto
termination
  by (relation "measure (\<lambda>(own, c). depth c)") (auto simp: depth_parent)

declare class_attr.simps [simp del]

definition class_code :: "error_class \<Rightarrow> int" where
  "class_code c = (case class_attr own_code c of Some v \<Rightarrow> v | None \<Rightarrow> 0)"

definition default_message :: "error_class \<Rightarrow> string" where
  "default_message c = (case class_attr own_default_message c of Some v \<Rightarrow> v | None \<Rightarrow> '''')"

definition default_hint :: "error_class \<Rightarrow> string" where
  "default_hint c = (case class_attr own_default_hint c of Some v \<Rightarrow> v | None \<Rightarrow> '''')"

subsection \<open>The string operations the module uses\<close>

text \<open>
  Text is ASCII here: the explanation tables and the messages are. \<open>splitlines\<close> breaks at the
  ASCII line boundaries of \<^verbatim>\<open>str.splitlines\<close>; \<open>strip_chars\<close> is \<^verbatim>\<open>str.strip(chars)\<close>.
\<close>

definition py_space :: "char \<Rightarrow> bool" where
  "py_space c = ((of_char c :: nat) \<in> {9, 10, 11, 12, 13, 28, 29, 30, 31, 32})"

definition line_break :: "char \<Rightarrow> bool" where
  "line_break c = ((of_char c :: nat) \<in> {10, 11, 12, 13, 28, 29, 30})"

fun splitlines_from :: "string \<Rightarrow> string \<Rightarrow> string list" where
  "splitlines_from cur [] = (if cur = [] then [] else [cur])"
| "splitlines_from cur (c # cs) =
     (if c = CHR 0x0D then
        (case cs of [] \<Rightarrow> [cur]
         | d # ds \<Rightarrow> if d = CHR 0x0A then cur # splitlines_from [] ds
                    else cur # splitlines_from [] (d # ds))
      else if line_break c then cur # splitlines_from [] cs
      else splitlines_from (cur @ [c]) cs)"

definition splitlines :: "string \<Rightarrow> string list" where
  "splitlines s = splitlines_from [] s"

definition strip_with :: "(char \<Rightarrow> bool) \<Rightarrow> string \<Rightarrow> string" where
  "strip_with p s = rev (dropWhile p (rev (dropWhile p s)))"

definition strip :: "string \<Rightarrow> string" where
  "strip s = strip_with py_space s"

definition strip_chars :: "string \<Rightarrow> string \<Rightarrow> string" where
  "strip_chars chars s = strip_with (\<lambda>c. c \<in> set chars) s"

definition starts_with :: "string \<Rightarrow> string \<Rightarrow> bool" where
  "starts_with s p = (take (length p) s = p)"

definition remove_prefix :: "string \<Rightarrow> string \<Rightarrow> string" where
  "remove_prefix s p = (if starts_with s p then drop (length p) s else s)"

fun join_with :: "string \<Rightarrow> string list \<Rightarrow> string" where
  "join_with sep [] = []"
| "join_with sep [s] = s"
| "join_with sep (s # t # ss) = s @ sep @ join_with sep (t # ss)"

definition is_upper :: "char \<Rightarrow> bool" where
  "is_upper c = (65 \<le> (of_char c :: nat) \<and> (of_char c :: nat) \<le> 90)"

definition to_upper :: "char \<Rightarrow> char" where
  "to_upper c = (if 97 \<le> (of_char c :: nat) \<and> (of_char c :: nat) \<le> 122
                 then char_of ((of_char c :: nat) - 32) else c)"

definition ljust :: "string \<Rightarrow> nat \<Rightarrow> char \<Rightarrow> string" where
  "ljust s n c = s @ replicate (n - length s) c"

subsection \<open>\<^verbatim>\<open>_split\<close> and \<^verbatim>\<open>_title_of\<close>\<close>

text \<open>The state of \<^verbatim>\<open>_split\<close>'s loop: title, cause lines, hint lines, whether the hint has begun.\<close>

type_synonym split_state = "string \<times> string list \<times> string list \<times> bool"

fun split_line :: "split_state \<Rightarrow> string \<Rightarrow> split_state" where
  "split_line (title, cause, hint, in_hint) raw =
     (let line = strip raw
      in if line = [] then (title, cause, hint, in_hint)
         else if starts_with line ''--'' then
           (strip (strip_chars ''- '' line), cause, hint, in_hint)
         else if starts_with line ''Hint:'' then
           (title, cause, hint @ [strip (remove_prefix line ''Hint:'')], True)
         else if in_hint then (title, cause, hint @ [line], in_hint)
         else (title, cause @ [line], hint, in_hint))"

definition split_block :: "string \<Rightarrow> string \<times> string \<times> string" where
  "split_block text =
     (case foldl split_line ('''', [], [], False) (splitlines text) of
        (title, cause, hint, _) \<Rightarrow> (title, join_with '' '' cause, join_with '' '' hint))"

fun title_words :: "string list \<Rightarrow> string \<Rightarrow> string \<Rightarrow> string list" where
  "title_words words current [] = words @ [current]"
| "title_words words current (c # cs) =
     (if is_upper c \<and> current \<noteq> [] then title_words (words @ [current]) [c] cs
      else title_words words (current @ [c]) cs)"

definition title_of :: "string \<Rightarrow> string" where
  "title_of name = map to_upper (join_with '' '' (title_words [] [] name))"

fun class_name :: "error_class \<Rightarrow> string" where
  "class_name PaxodinError = ''PaxodinError''"
| "class_name UsageError = ''UsageError''"
| "class_name InvalidArgument = ''InvalidArgument''"
| "class_name ValueTooLarge = ''ValueTooLarge''"
| "class_name UnsupportedKind = ''UnsupportedKind''"
| "class_name UnsupportedCapability = ''UnsupportedCapability''"
| "class_name HandleClosed = ''HandleClosed''"
| "class_name ForkedHandle = ''ForkedHandle''"
| "class_name ReentrantCall = ''ReentrantCall''"
| "class_name BatchError = ''BatchError''"
| "class_name BatchPending = ''BatchPending''"
| "class_name NoBatch = ''NoBatch''"
| "class_name StaleToken = ''StaleToken''"
| "class_name ForeignToken = ''ForeignToken''"
| "class_name BatchFinished = ''BatchFinished''"
| "class_name WritesUnconfirmed = ''WritesUnconfirmed''"
| "class_name AbandonedBatch = ''AbandonedBatch''"
| "class_name WritesNotCopied = ''WritesNotCopied''"
| "class_name ReplayActive = ''ReplayActive''"
| "class_name ReplayNotActive = ''ReplayNotActive''"
| "class_name ProtocolError = ''ProtocolError''"
| "class_name NotLeader = ''NotLeader''"
| "class_name LeaderCatchingUp = ''LeaderCatchingUp''"
| "class_name WindowFull = ''WindowFull''"
| "class_name LogSealed = ''LogSealed''"
| "class_name ConfigurationMismatch = ''ConfigurationMismatch''"
| "class_name Trimmed = ''Trimmed''"
| "class_name CampaignDisabled = ''CampaignDisabled''"
| "class_name NativeError = ''NativeError''"
| "class_name OutOfMemory = ''OutOfMemory''"
| "class_name Poisoned = ''Poisoned''"
| "class_name ProposalLost = ''ProposalLost''"
| "class_name InvalidTimeout = ''InvalidTimeout''"
| "class_name CommitTimeout = ''CommitTimeout''"
| "class_name StorageError = ''StorageError''"
| "class_name TransportError = ''TransportError''"
| "class_name JournalNotOpen = ''JournalNotOpen''"
| "class_name JournalCorrupt = ''JournalCorrupt''"

subsection \<open>Building, rendering and choosing an exception\<close>

datatype pyval = PInt int | PBool bool | PNone | PStr string | PBytes bytes | PFloat pyfloat

type_synonym context_items = "(string \<times> pyval) list"

record error_attrs =
  ea_class :: error_class
  ea_code :: int
  ea_title :: string
  ea_message :: string
  ea_hint :: string
  ea_context :: context_items

definition BANNER_WIDTH :: nat where "BANNER_WIDTH = 80"

text \<open>\<^verbatim>\<open>a or b\<close> on strings.\<close>

definition str_or :: "string \<Rightarrow> string \<Rightarrow> string" where
  "str_or a b = (if a = [] then b else a)"

definition error_init ::
  "(int \<Rightarrow> string) \<Rightarrow> error_class \<Rightarrow> string \<Rightarrow> string \<Rightarrow> int option \<Rightarrow> context_items \<Rightarrow> error_attrs"
  where
  "error_init explain cls message hint code ctx =
     (let own = (case code of Some c \<Rightarrow> c | None \<Rightarrow> class_code cls);
          (native_title, native_cause, native_hint) = split_block (explain own)
      in \<lparr>ea_class = cls, ea_code = own,
          ea_title = str_or native_title (title_of (class_name cls)),
          ea_message = str_or message (str_or native_cause (default_message cls)),
          ea_hint = str_or hint (str_or native_hint (default_hint cls)),
          ea_context = ctx\<rparr>)"

definition banner :: "string \<Rightarrow> string" where
  "banner title = ljust (''-- '' @ title @ '' '') BANNER_WIDTH CHR ''-''"

definition render_lines :: "(pyval \<Rightarrow> string) \<Rightarrow> error_attrs \<Rightarrow> string list" where
  "render_lines repr e =
     [banner (ea_title e), [], ea_message e]
     @ map (\<lambda>(key, value). ''  '' @ key @ '' = '' @ repr value) (ea_context e)
     @ (if ea_hint e = [] then [] else [''Hint: '' @ ea_hint e])"

definition render :: "(pyval \<Rightarrow> string) \<Rightarrow> error_attrs \<Rightarrow> string" where
  "render repr e = join_with [CHR 0x0A] (render_lines repr e)"

text \<open>
  The classes with a constructor of their own. Python's \<^verbatim>\<open>str\<close>, \<^verbatim>\<open>repr\<close> and the format \<^verbatim>\<open>:g\<close> are
  parameters; \<open>truthy\<close> is Python's truth value, and a key the context lacks reads as \<^verbatim>\<open>None\<close>.
\<close>

definition context_get :: "string \<Rightarrow> context_items \<Rightarrow> pyval" where
  "context_get key ctx = (case map_of ctx key of Some v \<Rightarrow> v | None \<Rightarrow> PNone)"

fun truthy :: "pyval \<Rightarrow> bool" where
  "truthy (PInt i) = (i \<noteq> 0)"
| "truthy (PBool b) = b"
| "truthy PNone = False"
| "truthy (PStr s) = (s \<noteq> [])"
| "truthy (PBytes b) = (b \<noteq> [])"
| "truthy (PFloat x) = (x \<noteq> Fin 0)"

fun is_number :: "pyval \<Rightarrow> bool" where
  "is_number (PInt _) = True"
| "is_number (PBool _) = True"
| "is_number (PFloat _) = True"
| "is_number _ = False"

definition abandoned_batch_init :: "(int \<Rightarrow> string) \<Rightarrow> context_items \<Rightarrow> error_attrs" where
  "abandoned_batch_init explain ctx =
     error_init explain AbandonedBatch
       ''left a batch holding writes that were never confirmed durable''
       (''Call persisted() after the journal sync, or close the node and ''
        @ ''replay its journal. Never confirm a write that failed.'') None ctx"

definition proposal_lost_init ::
  "(int \<Rightarrow> string) \<Rightarrow> (pyval \<Rightarrow> string) \<Rightarrow> context_items \<Rightarrow> error_attrs" where
  "proposal_lost_init explain str ctx =
     error_init explain ProposalLost
       (''slot '' @ str (context_get ''slot'' ctx)
        @ '' was decided with a different value than the one submitted'')
       (''The command was never chosen. Resubmit it behind an application ''
        @ ''command id; the SDK will not silently retry it into another slot.'') None ctx"

definition invalid_timeout_init ::
  "(int \<Rightarrow> string) \<Rightarrow> (pyval \<Rightarrow> string) \<Rightarrow> pyval \<Rightarrow> error_attrs" where
  "invalid_timeout_init explain repr supplied =
     error_init explain InvalidTimeout
       (''a timeout must be finite and not negative, got '' @ repr supplied)
       ''Pass a positive number of seconds measured on a monotonic clock.'' None []"

definition commit_timeout_init ::
  "(int \<Rightarrow> string) \<Rightarrow> (pyval \<Rightarrow> string) \<Rightarrow> (pyval \<Rightarrow> string) \<Rightarrow> context_items \<Rightarrow> error_attrs"
  where
  "commit_timeout_init explain str fmt_g ctx =
     (let slot = context_get ''slot'' ctx;
          seconds = context_get ''seconds'' ctx;
          place = (if truthy slot then ''slot '' @ str slot else ''the command'');
          window = (if is_number seconds then '' within '' @ fmt_g seconds @ ''s'' else [])
      in error_init explain CommitTimeout
           (place @ '' was admitted, but its decision was not observed'' @ window)
           (''Keep polling and inspect local history. A timeout does not cancel ''
            @ ''Paxos. Retry a command only behind an application command id and a ''
            @ ''deduplication policy.'') None ctx)"

definition journal_not_open_init ::
  "(int \<Rightarrow> string) \<Rightarrow> string \<Rightarrow> error_attrs" where
  "journal_not_open_init explain path =
     error_init explain JournalNotOpen
       (''journal at '' @ path @ '' was used before open()'')
       ''A Session opens its journal for you; a direct user calls open() first.'' None []"

text \<open>The exceptions the package can raise or let through.\<close>

datatype exn =
  Err error_class int context_items
| StructError | IndexErr | ValueErr | KeyErr int | RuntimeErr | OSErr
| BufferOverrun

definition exn_class :: "exn \<Rightarrow> error_class option" where
  "exn_class x = (case x of Err c _ _ \<Rightarrow> Some c | _ \<Rightarrow> None)"

text \<open>An exception of a class, built with the class's own code.\<close>

definition err :: "error_class \<Rightarrow> context_items \<Rightarrow> exn" where
  "err cls ctx = Err cls (class_code cls) ctx"

definition by_code_classes :: "error_class list" where
  "by_code_classes =
     [InvalidArgument, ValueTooLarge, UnsupportedKind, UnsupportedCapability, HandleClosed,
      ForkedHandle, ReentrantCall, BatchPending, NoBatch, StaleToken, ForeignToken,
      BatchFinished, WritesUnconfirmed, WritesNotCopied, ReplayActive, ReplayNotActive,
      NotLeader, LeaderCatchingUp, WindowFull, LogSealed, ConfigurationMismatch, Trimmed,
      CampaignDisabled, OutOfMemory, Poisoned]"

text \<open>The dictionary \<^verbatim>\<open>_BY_CODE\<close>: of two classes with one code the later entry would win.\<close>

definition by_code :: "int \<Rightarrow> error_class option" where
  "by_code status = find (\<lambda>cls. class_code cls = status) (rev by_code_classes)"

definition exception_for :: "int \<Rightarrow> context_items \<Rightarrow> exn" where
  "exception_for status ctx =
     (case by_code status of
        Some cls \<Rightarrow> err cls ctx
      | None \<Rightarrow> if CORE_STATUS_BASE \<le> status then Err ProtocolError status ctx
                else Err NativeError status ctx)"

definition raise_for :: "int \<Rightarrow> context_items \<Rightarrow> exn + unit" where
  "raise_for status ctx = (if status \<noteq> OK then Inl (exception_for status ctx) else Inr ())"

subsection \<open>Facts about the hierarchy\<close>

lemma class_attr_own: "own c = Some v \<Longrightarrow> class_attr own c = Some v"
  by (simp add: class_attr.simps [of own c])

lemma class_attr_up: "own c = None \<Longrightarrow> parent c = Some p \<Longrightarrow> class_attr own c = class_attr own p"
  by (simp add: class_attr.simps [of own c])

lemma class_codes:
  "class_code c = (case own_code c of Some v \<Rightarrow> v
     | None \<Rightarrow> if c = AbandonedBatch then E_WRITES_UNCONFIRMED else - 1)"
  by (cases c) (simp_all add: class_code_def class_attr.simps)

text \<open>\<^verbatim>\<open>issubclass\<close> between two of the classes.\<close>

function derives_from :: "error_class \<Rightarrow> error_class \<Rightarrow> bool" where
  "derives_from c d = (c = d \<or> (case parent c of None \<Rightarrow> False | Some p \<Rightarrow> derives_from p d))"
  by pat_completeness auto
termination
  by (relation "measure (\<lambda>(c, d). depth c)") (auto simp: depth_parent)

declare derives_from.simps [simp del]

lemma by_code_registered_all:
  "list_all (\<lambda>cls. by_code (class_code cls) = Some cls) by_code_classes"
  by code_simp

lemma by_code_registered: "cls \<in> set by_code_classes \<Longrightarrow> by_code (class_code cls) = Some cls"
  using by_code_registered_all by (simp add: list_all_iff)

lemma by_code_SomeD: "by_code s = Some cls \<Longrightarrow> class_code cls = s \<and> cls \<in> set by_code_classes"
  using enum_call_SomeD [of class_code "rev by_code_classes" s cls]
  by (simp add: by_code_def enum_call_def)

lemma registered_protocol_all:
  "list_all (\<lambda>cls. derives_from cls ProtocolError = (CORE_STATUS_BASE \<le> class_code cls))
     by_code_classes"
  by code_simp

lemma registered_protocol:
  "cls \<in> set by_code_classes \<Longrightarrow> derives_from cls ProtocolError \<longleftrightarrow> CORE_STATUS_BASE \<le> class_code cls"
  using registered_protocol_all by (simp add: list_all_iff)

text \<open>A non-zero status always becomes an exception that carries exactly that status and the given
  context; it is a \<^verbatim>\<open>ProtocolError\<close> (or one of its subclasses) exactly for the core's statuses, those
  from \<^verbatim>\<open>CORE_STATUS_BASE\<close> on; and its class is the registered one, or, where none is registered,
  the generic \<^verbatim>\<open>ProtocolError\<close> or \<^verbatim>\<open>NativeError\<close>.\<close>

lemma exception_for_dispatch:
  "\<exists>cls. exception_for status ctx = Err cls status ctx
     \<and> (derives_from cls ProtocolError \<longleftrightarrow> CORE_STATUS_BASE \<le> status)
     \<and> (by_code status = Some cls \<or> by_code status = None \<and> cls \<in> {ProtocolError, NativeError})"
proof (cases "by_code status")
  case None
  then show ?thesis by (auto simp: exception_for_def derives_from.simps)
next
  case (Some cls)
  then have "class_code cls = status" and "cls \<in> set by_code_classes"
    using by_code_SomeD by blast+
  then show ?thesis
    using Some registered_protocol [of cls] by (auto simp: exception_for_def err_def)
qed

lemma title_of_nonempty: "title_of (class_name c) \<noteq> []"
  by (cases c) (simp_all add: title_of_def is_upper_def)

lemma defaults_nonempty:
  "c \<noteq> PaxodinError \<Longrightarrow> default_message c \<noteq> [] \<and> default_hint c \<noteq> []"
  by (cases c) (simp_all add: default_message_def default_hint_def class_attr.simps)

lemma str_or_nonempty: "b \<noteq> [] \<Longrightarrow> str_or a b \<noteq> []"
  by (simp add: str_or_def)

text \<open>Every exception class other than the abstract base states a title, a cause and a corrective
  hint, whatever explanation text the native library returns for its code (even none).\<close>

lemma error_explains_itself:
  assumes "cls \<noteq> PaxodinError"
  shows "ea_title (error_init explain cls message hint code ctx) \<noteq> []
       \<and> ea_message (error_init explain cls message hint code ctx) \<noteq> []
       \<and> ea_hint (error_init explain cls message hint code ctx) \<noteq> []"
  using defaults_nonempty [OF assms] title_of_nonempty [of cls]
  by (simp add: error_init_def Let_def str_or_nonempty split: prod.split)

subsection \<open>Rendering and splitting\<close>

text \<open>A line that \<open>splitlines\<close> and \<open>strip\<close> leave alone.\<close>

definition clean_line :: "string \<Rightarrow> bool" where
  "clean_line s = (s \<noteq> [] \<and> list_all (\<lambda>c. \<not> line_break c) s \<and> \<not> py_space (hd s) \<and> \<not> py_space (last s))"

lemma strip_with_pad:
  assumes "list_all p pre" "list_all p post" "s \<noteq> []" "\<not> p (hd s)" "\<not> p (last s)"
  shows "strip_with p (pre @ s @ post) = s"
proof -
  have 1: "dropWhile p (pre @ s @ post) = s @ post"
    using assms dropWhile_append2 [of pre p] by (cases s) (auto simp: list_all_iff)
  have 2: "dropWhile p (rev post @ rev s) = rev s"
    using assms dropWhile_append2 [of "rev post" p]
    by (cases s rule: rev_cases) (auto simp: list_all_iff)
  show ?thesis by (simp add: strip_with_def 1 2)
qed

lemma strip_with_clean:
  "s \<noteq> [] \<Longrightarrow> \<not> p (hd s) \<Longrightarrow> \<not> p (last s) \<Longrightarrow> strip_with p s = s"
  using strip_with_pad [of p "[]" "[]" s] by simp

lemma strip_clean: "clean_line s \<Longrightarrow> strip s = s"
  by (simp add: clean_line_def strip_def strip_with_clean)

lemma splitlines_from_line:
  "list_all (\<lambda>c. \<not> line_break c) s \<Longrightarrow>
   splitlines_from cur (s @ rest) = splitlines_from (cur @ s) rest"
proof (induction s arbitrary: cur)
  case Nil
  then show ?case by simp
next
  case (Cons c s)
  then have "c \<noteq> CHR 0x0D" by (auto simp: line_break_def)
  with Cons show ?case by simp
qed

lemma splitlines_join:
  "list_all (list_all (\<lambda>c. \<not> line_break c)) ls \<Longrightarrow> ls \<noteq> [] \<Longrightarrow> last ls \<noteq> [] \<Longrightarrow>
   splitlines (join_with [CHR 0x0A] ls) = ls"
proof (induction ls rule: induct_list012)
  case 1
  then show ?case by simp
next
  case (2 s)
  then show ?case using splitlines_from_line [of s "[]" "[]"] by (simp add: splitlines_def)
next
  case (3 s t ss)
  then show ?case
    using splitlines_from_line [of s "[]" "CHR 0x0A # join_with [CHR 0x0A] (t # ss)"]
    by (simp add: splitlines_def line_break_def)
qed

text \<open>
  A block the way the native table and \<open>render\<close> write it: the banner, an empty line, the cause and
  the hint. Titles do not begin or end with a dash or a space.
\<close>

definition clean_title :: "string \<Rightarrow> bool" where
  "clean_title t = (clean_line t \<and> hd t \<noteq> CHR ''-'' \<and> last t \<noteq> CHR ''-'')"

definition clean_cause :: "string \<Rightarrow> bool" where
  "clean_cause m = (clean_line m \<and> \<not> starts_with m ''--'' \<and> \<not> starts_with m ''Hint:'')"

lemma banner_title:
  assumes "clean_title t"
  shows "strip (banner t) \<noteq> [] \<and> starts_with (strip (banner t)) ''--''
    \<and> strip (strip_chars ''- '' (strip (banner t))) = t"
proof -
  have t: "t \<noteq> []" "\<not> py_space (hd t)" "\<not> py_space (last t)" "hd t \<noteq> CHR ''-''" "last t \<noteq> CHR ''-''"
    "hd t \<noteq> CHR '' ''" "last t \<noteq> CHR '' ''"
    using assms by (auto simp: clean_title_def clean_line_def py_space_def)
  obtain post where post: "strip (banner t) = ''-- '' @ t @ post" "set post \<subseteq> set ''- ''"
  proof (cases "length t < 76")
    case True
    define n where "n = 75 - length t"
    have b: "banner t = (''-- '' @ t @ '' '' @ replicate n CHR ''-'') @ ''-''"
      using True by (simp add: banner_def ljust_def BANNER_WIDTH_def n_def replicate_append_same
          Suc_diff_le flip: replicate_Suc)
    have "strip (banner t) = banner t"
      unfolding strip_def b by (rule strip_with_clean) (simp_all add: py_space_def)
    then show ?thesis using that [of "'' '' @ replicate n CHR ''-'' @ ''-''"] b
      by (auto simp: set_replicate_conv_if split: if_splits)
  next
    case False
    then have b: "banner t = ''-- '' @ t @ '' ''"
      by (simp add: banner_def ljust_def BANNER_WIDTH_def)
    have "strip (banner t) = ''-- '' @ t"
      unfolding strip_def b using strip_with_pad [of py_space "[]" "'' ''" "''-- '' @ t"] t
      by (simp add: py_space_def)
    then show ?thesis using that [of "[]"] by simp
  qed
  have "strip_chars ''- '' (''-- '' @ t @ post) = t"
    unfolding strip_chars_def using t post(2)
    by (intro strip_with_pad) (auto simp: list_all_iff)
  with post t show ?thesis
    by (simp add: starts_with_def strip_def strip_with_clean)
qed

lemma strip_hint_line:
  assumes "clean_line h"
  shows "strip (''Hint: '' @ h) = ''Hint: '' @ h" and "strip ('' '' @ h) = h"
  using assms strip_with_pad [of py_space "'' ''" "[]" h]
  by (auto simp: strip_def clean_line_def py_space_def intro!: strip_with_clean)

text \<open>The block \<^verbatim>\<open>render\<close> writes for an error without context values is one that the module's
  own parser of native explanation blocks reads back: title, cause and hint come out unchanged.\<close>

lemma split_render:
  assumes "clean_title (ea_title e)" and "clean_cause (ea_message e)" and "clean_line (ea_hint e)"
    and "ea_context e = []"
  shows "split_block (render repr e) = (ea_title e, ea_message e, ea_hint e)"
proof -
  have nb: "list_all (\<lambda>c. \<not> line_break c) (banner (ea_title e))"
    using assms(1) by (auto simp: banner_def ljust_def clean_title_def clean_line_def line_break_def
        list_all_iff)
  have lines: "splitlines (render repr e)
      = [banner (ea_title e), [], ea_message e, ''Hint: '' @ ea_hint e]"
    unfolding render_def using assms nb
    by (subst splitlines_join)
       (auto simp: render_lines_def clean_cause_def clean_line_def line_break_def)
  have l1: "split_line ('''', [], [], False) (banner (ea_title e)) = (ea_title e, [], [], False)"
    using banner_title [OF assms(1)] by (simp add: Let_def)
  have l2: "split_line (t, c, h, b) [] = (t, c, h, b)" for t c h b
    by (simp add: strip_def strip_with_def)
  have m: "strip (ea_message e) = ea_message e" "ea_message e \<noteq> []"
    "\<not> starts_with (ea_message e) ''--''" "\<not> starts_with (ea_message e) ''Hint:''"
    using assms(2) by (auto simp: clean_cause_def strip_clean clean_line_def)
  have l3: "split_line (t, [], [], False) (ea_message e) = (t, [ea_message e], [], False)" for t
    using m by (simp add: Let_def)
  have l4: "split_line (t, c, [], False) (''Hint: '' @ ea_hint e) = (t, c, [ea_hint e], True)" for t c
    using strip_hint_line [OF assms(3)] by (simp add: Let_def starts_with_def remove_prefix_def)
  have "foldl split_line ('''', [], [], False) (splitlines (render repr e))
      = (ea_title e, [ea_message e], [ea_hint e], True)"
    unfolding lines by (simp only: foldl.simps l1 l2 l3 l4)
  then show ?thesis by (simp add: split_block_def)
qed

lemma length_banner: "length (banner t) = max 80 (length t + 4)"
  by (simp add: banner_def ljust_def BANNER_WIDTH_def)

end
