(* ===== verification/Native.thy ===== *)
theory Native
  imports Errors
begin

section \<open>The C records of the native boundary\<close>

text \<open>
  The \<^verbatim>\<open>ctypes\<close> structures of \<^verbatim>\<open>_native.py\<close> that carry data, one record each, without their padding.
  Every integer field is an \<open>int\<close> that has already been stored in its C type: an assignment from
  Python goes through \<open>c_u8\<close>, \<open>c_u16\<close>, \<open>c_u32\<close> or \<open>c_u64\<close>, which keep the low bits as \<^verbatim>\<open>ctypes\<close> does,
  without any overflow check. A byte array is a list of its fixed length.
\<close>

definition c_u8 :: "int \<Rightarrow> int" where "c_u8 v = v mod 256"
definition c_u16 :: "int \<Rightarrow> int" where "c_u16 v = v mod 65536"
definition c_u32 :: "int \<Rightarrow> int" where "c_u32 v = v mod 4294967296"
definition c_u64 :: "int \<Rightarrow> int" where "c_u64 v = v mod 18446744073709551616"

text \<open>A value that its C type holds exactly.\<close>

definition is_u8 :: "int \<Rightarrow> bool" where "is_u8 v = (0 \<le> v \<and> v < 256)"
definition is_u16 :: "int \<Rightarrow> bool" where "is_u16 v = (0 \<le> v \<and> v < 65536)"
definition is_u32 :: "int \<Rightarrow> bool" where "is_u32 v = (0 \<le> v \<and> v < 4294967296)"
definition is_u64 :: "int \<Rightarrow> bool" where "is_u64 v = (0 \<le> v \<and> v < 18446744073709551616)"

lemmas is_width_defs = is_u8_def is_u16_def is_u32_def is_u64_def

lemma c_width_id [simp]:
  "is_u8 v \<Longrightarrow> c_u8 v = v" "is_u16 v \<Longrightarrow> c_u16 v = v"
  "is_u32 v \<Longrightarrow> c_u32 v = v" "is_u64 v \<Longrightarrow> c_u64 v = v"
  by (simp_all add: is_width_defs c_u8_def c_u16_def c_u32_def c_u64_def)

lemma c_width_range [simp]: "is_u8 (c_u8 v)" "is_u16 (c_u16 v)" "is_u32 (c_u32 v)" "is_u64 (c_u64 v)"
  by (simp_all add: is_width_defs c_u8_def c_u16_def c_u32_def c_u64_def)

definition MAX_MEMBERS :: nat where "MAX_MEMBERS = 7"
definition MAX_VALUE_BYTES :: nat where "MAX_VALUE_BYTES = 1024"
definition MAX_METADATA_BYTES :: nat where "MAX_METADATA_BYTES = 256"

record c_stop_sign =
  cs_configuration_id :: int
  cs_member_count :: int
  cs_metadata_length :: int
  cs_members :: "int list"
  cs_metadata :: bytes

record c_entry =
  ce_kind :: int
  ce_length :: int
  ce_body :: bytes
  ce_stop :: c_stop_sign

record c_write =
  cw_kind :: int
  cw_flags :: int
  cw_ballot :: int
  cw_slot :: int
  cw_trim_id :: int
  cw_trim_slot :: int
  cw_entry :: c_entry

record c_envelope =
  cv_configuration_id :: int
  cv_ballot :: int
  cv_slot :: int
  cv_vote :: int
  cv_first :: int
  cv_last :: int
  cv_rejected :: int
  cv_promised :: int
  cv_decided_through :: int
  cv_trim_id :: int
  cv_trim_slot :: int
  cv_kind :: int
  cv_count :: int
  cv_sender :: int
  cv_recipient :: int
  cv_scope :: int
  cv_cell_state :: int
  cv_more :: int
  cv_entry :: c_entry

record c_committed =
  cc_slot :: int
  cc_entry :: c_entry

record c_request =
  cq_kind :: int
  cq_peer :: int
  cq_first :: int
  cq_count :: int

record c_token =
  ct_epoch :: int
  ct_generation :: int

record c_report =
  cp_epoch :: int
  cp_generation :: int
  cp_assigned_slot :: int
  cp_status :: int
  cp_phase :: int
  cp_write_count :: nat
  cp_writes_copied_through :: nat
  cp_message_count :: nat
  cp_committed_count :: nat
  cp_request_count :: nat
  cp_assigned_count :: nat
  cp_requires_barrier :: int

record c_state =
  cst_configuration_id :: int
  cst_ballot :: int
  cst_decided_through :: int
  cst_memory_floor :: int
  cst_leader_base :: int
  cst_frontier :: int
  cst_stop_slot :: int
  cst_trim_id :: int
  cst_trim_slot :: int
  cst_node_id :: int
  cst_leader :: int
  cst_has_leader :: int
  cst_role :: int
  cst_sealed :: int
  cst_voting_member :: int
  cst_campaign_enabled :: int
  cst_leader_caught_up :: int
  cst_resubmits_dropped :: int

record c_config =
  cf_configuration_id :: int
  cf_members :: "int list"
  cf_member_count :: int
  cf_read_quorum :: int
  cf_write_quorum :: int
  cf_election_timeout_ticks :: int
  cf_heartbeat_interval_ticks :: int
  cf_resend_interval_ticks :: int
  cf_flags :: int
  cf_node_id :: int
  cf_priority :: int

record c_profile =
  cpf_max_members :: int
  cpf_window_slots :: int
  cpf_chunk_slots :: int
  cpf_max_value_bytes :: int
  cpf_max_metadata_bytes :: int
  cpf_max_writes_per_batch :: int
  cpf_max_messages_per_batch :: int
  cpf_max_committed_per_batch :: int
  cpf_max_requests_per_batch :: int
  cpf_gate_enforced :: int
  cpf_node_bytes :: int
  cpf_effects_bytes :: int
  cpf_capabilities :: int
  cpf_fingerprint :: int

text \<open>The zeroed structures \<^verbatim>\<open>ctypes\<close> allocates.\<close>

definition zero_stop_sign :: c_stop_sign where
  "zero_stop_sign = \<lparr>cs_configuration_id = 0, cs_member_count = 0, cs_metadata_length = 0,
     cs_members = replicate MAX_MEMBERS 0, cs_metadata = replicate MAX_METADATA_BYTES 0\<rparr>"

definition zero_entry :: c_entry where
  "zero_entry = \<lparr>ce_kind = 0, ce_length = 0, ce_body = replicate MAX_VALUE_BYTES 0,
     ce_stop = zero_stop_sign\<rparr>"

text \<open>
  \<^verbatim>\<open>ctypes.memmove(raw.entry.body, value, len(value))\<close>: it copies as many bytes as it is told. Past
  the 1024 bytes of the array it overwrites the structure's other memory; that outcome is the
  exception value \<open>BufferOverrun\<close>, which no Python code ever sees as such.
\<close>

definition memmove_body :: "c_entry \<Rightarrow> bytes \<Rightarrow> exn + c_entry" where
  "memmove_body raw value =
     (if MAX_VALUE_BYTES < length value then Inl BufferOverrun
      else Inr (raw\<lparr>ce_body := value @ drop (length value) (ce_body raw)\<rparr>))"

text \<open>\<^verbatim>\<open>if body: ctypes.memmove(...)\<close>, the way every caller copies a payload.\<close>

definition copy_body :: "c_entry \<Rightarrow> bytes \<Rightarrow> exn + c_entry" where
  "copy_body raw value = (if value \<noteq> [] then memmove_body raw value else Inr raw)"

lemma copy_body_ok:
  "length value \<le> MAX_VALUE_BYTES \<Longrightarrow>
   copy_body raw value = Inr (raw\<lparr>ce_body := value @ drop (length value) (ce_body raw)\<rparr>)"
  by (simp add: copy_body_def memmove_body_def)

end
