(* ===== verification/Abi.thy ===== *)
theory Abi
  imports Native "HOL-Library.AList"
begin

section \<open>The boundary of the native library\<close>

text \<open>
  What \<^verbatim>\<open>_native.py\<close> declares of the C structures and functions, what the Odin files declare of them, and the
  check that \<^verbatim>\<open>_bind\<close> and \<^verbatim>\<open>_verify\<close> make when the package is imported. The layout of a structure is computed by
  the rule that both \<^verbatim>\<open>ctypes\<close> and Odin follow: fields in order, each at the next multiple of its alignment.
\<close>

subsection \<open>C types and their layout\<close>

datatype ctype = U8 | U16 | U32 | U64 | I32 | Array ctype int | Struct "(string \<times> ctype) list"

fun align_of :: "ctype \<Rightarrow> int" where
  "align_of U8 = 1"
| "align_of U16 = 2"
| "align_of U32 = 4"
| "align_of U64 = 8"
| "align_of I32 = 4"
| "align_of (Array t n) = align_of t"
| "align_of (Struct fs) = foldr max (map (\<lambda>(_, t). align_of t) fs) 1"

definition round_up :: "int \<Rightarrow> int \<Rightarrow> int" where
  "round_up k n = (n + k - 1) div k * k"

fun size_of :: "ctype \<Rightarrow> int" where
  "size_of U8 = 1"
| "size_of U16 = 2"
| "size_of U32 = 4"
| "size_of U64 = 8"
| "size_of I32 = 4"
| "size_of (Array t n) = n * size_of t"
| "size_of (Struct fs) = round_up (foldr max (map (\<lambda>(_, t). align_of t) fs) 1)
     (foldl (\<lambda>offset (k, n). round_up k offset + n) 0 (map (\<lambda>(_, t). (align_of t, size_of t)) fs))"

text \<open>Where each field lies.\<close>

fun offsets_from :: "int \<Rightarrow> (string \<times> ctype) list \<Rightarrow> int list" where
  "offsets_from offset [] = []"
| "offsets_from offset ((_, t) # fs) =
     round_up (align_of t) offset # offsets_from (round_up (align_of t) offset + size_of t) fs"

fun members_of :: "ctype \<Rightarrow> (string \<times> ctype) list" where
  "members_of (Struct fs) = fs"
| "members_of t = []"

definition offsets :: "ctype \<Rightarrow> int list" where "offsets t = offsets_from 0 (members_of t)"

text \<open>A type without the names of its fields.\<close>

fun nameless :: "ctype \<Rightarrow> ctype" where
  "nameless (Array t n) = Array (nameless t) n"
| "nameless (Struct fs) = Struct (map (\<lambda>(_, t). ([], nameless t)) fs)"
| "nameless t = t"

subsection \<open>The mirrors of \<^verbatim>\<open>_native.py\<close>\<close>

definition CStopSign_layout :: ctype where
  "CStopSign_layout = Struct
     [(''configuration_id'', U64), (''member_count'', U32), (''metadata_length'', U32),
      (''members'', Array U16 (int MAX_MEMBERS)), (''metadata'', Array U8 (int MAX_METADATA_BYTES))]"

definition CEntry_layout :: ctype where
  "CEntry_layout = Struct
     [(''kind'', U8), (''pad'', Array U8 3), (''length'', U32),
      (''body'', Array U8 (int MAX_VALUE_BYTES)), (''stop'', CStopSign_layout)]"

definition CWrite_layout :: ctype where
  "CWrite_layout = Struct
     [(''kind'', U8), (''pad'', Array U8 3), (''flags'', U32), (''ballot'', U64), (''slot'', U64),
      (''trim_id'', U64), (''trim_slot'', U64), (''entry'', CEntry_layout)]"

definition CEnvelope_layout :: ctype where
  "CEnvelope_layout = Struct
     [(''configuration_id'', U64), (''ballot'', U64), (''slot'', U64), (''vote'', U64), (''first'', U64),
      (''last'', U64), (''rejected'', U64), (''promised'', U64), (''decided_through'', U64),
      (''trim_id'', U64), (''trim_slot'', U64), (''kind'', U32), (''count'', U32), (''sender'', U16),
      (''recipient'', U16), (''scope'', U8), (''cell_state'', U8), (''more'', U8), (''pad'', U8),
      (''entry'', CEntry_layout)]"

definition CCommitted_layout :: ctype where
  "CCommitted_layout = Struct
     [(''slot'', U64), (''flags'', U32), (''pad'', U32), (''entry'', CEntry_layout)]"

definition CRequest_layout :: ctype where
  "CRequest_layout = Struct
     [(''kind'', U32), (''peer'', U16), (''pad'', U16), (''first'', U64), (''count'', U32),
      (''pad2'', U32)]"

definition CToken_layout :: ctype where
  "CToken_layout = Struct
     [(''epoch'', U64), (''generation'', U64)]"

definition CReport_layout :: ctype where
  "CReport_layout = Struct
     [(''epoch'', U64), (''generation'', U64), (''assigned_slot'', U64), (''status'', I32),
      (''phase'', U32), (''write_count'', U32), (''writes_copied_through'', U32),
      (''message_count'', U32), (''committed_count'', U32), (''request_count'', U32),
      (''assigned_count'', U32), (''requires_barrier'', U32), (''pad'', U32)]"

definition CState_layout :: ctype where
  "CState_layout = Struct
     [(''configuration_id'', U64), (''ballot'', U64), (''decided_through'', U64),
      (''memory_floor'', U64), (''leader_base'', U64), (''frontier'', U64), (''stop_slot'', U64),
      (''trim_id'', U64), (''trim_slot'', U64), (''node_id'', U16), (''leader'', U16),
      (''has_leader'', U8), (''role'', U8), (''sealed'', U8), (''voting_member'', U8),
      (''campaign_enabled'', U8), (''leader_caught_up'', U8), (''pad'', Array U8 2),
      (''resubmits_dropped'', U32)]"

definition CConfig_layout :: ctype where
  "CConfig_layout = Struct
     [(''configuration_id'', U64), (''members'', Array U16 (int MAX_MEMBERS)), (''member_count'', U32),
      (''read_quorum'', U32), (''write_quorum'', U32), (''election_timeout_ticks'', U32),
      (''heartbeat_interval_ticks'', U32), (''resend_interval_ticks'', U32), (''flags'', U32),
      (''node_id'', U16), (''priority'', U8), (''pad'', U8)]"

definition CProfile_layout :: ctype where
  "CProfile_layout = Struct
     [(''abi_version'', U32), (''max_members'', U32), (''window_slots'', U32), (''chunk_slots'', U32),
      (''max_value_bytes'', U32), (''max_metadata_bytes'', U32), (''max_writes_per_batch'', U32),
      (''max_messages_per_batch'', U32), (''max_committed_per_batch'', U32),
      (''max_requests_per_batch'', U32), (''sizeof_entry'', U32), (''sizeof_write'', U32),
      (''sizeof_envelope'', U32), (''sizeof_committed'', U32), (''sizeof_request'', U32),
      (''sizeof_token'', U32), (''sizeof_report'', U32), (''sizeof_state'', U32),
      (''sizeof_config'', U32), (''gate_enforced'', U32), (''node_bytes'', U64),
      (''effects_bytes'', U64), (''capabilities'', U64), (''fingerprint'', U64)]"

text \<open>A declared function: its name, what it returns and what it takes. A handle is an opaque pointer; a text
  buffer, \<^verbatim>\<open>c_char_p\<close> on one side and \<^verbatim>\<open>[^]u8\<close> on the other, is a reference to bytes.\<close>

datatype carg = Val ctype | Ref ctype | Handle | Handle_Ref

type_synonym signature = "string \<times> ctype \<times> carg list"

definition SIGNATURES :: "signature list" where
  "SIGNATURES =
     [(''paxodin_abi_version'', U32, []),
      (''paxodin_capabilities'', U64, []),
      (''paxodin_profile_fingerprint'', U64, []),
      (''paxodin_status_count'', U32, []),
      (''paxodin_profile'', I32, [Ref CProfile_layout]),
      (''paxodin_core_version'', I32, [Ref U8, Val U32, Ref U32]),
      (''paxodin_explain'', I32, [Val I32, Ref U8, Val U32, Ref U32]),
      (''paxodin_node_open'', I32, [Ref CConfig_layout, Handle_Ref]),
      (''paxodin_node_open_continue_at'', I32, [Ref CConfig_layout, Val U64, Val U64, Val U64, Handle_Ref]),
      (''paxodin_node_open_for_replay'', I32, [Ref CConfig_layout, Handle_Ref]),
      (''paxodin_node_close'', I32, [Handle, Ref U32]),
      (''paxodin_replay_apply'', I32, [Handle, Ref CWrite_layout]),
      (''paxodin_replay_restore'', I32, [Handle, Val U64]),
      (''paxodin_replay_abort'', I32, [Handle]),
      (''paxodin_begin_campaign'', I32, [Handle, Ref CToken_layout, Ref CReport_layout]),
      (''paxodin_begin_tick'', I32, [Handle, Ref CToken_layout, Ref CReport_layout]),
      (''paxodin_begin_propose'', I32, [Handle, Ref CEntry_layout, Ref CToken_layout, Ref CReport_layout]),
      (''paxodin_begin_propose_batch'', I32, [Handle, Ref CEntry_layout, Val U32, Ref CToken_layout, Ref CReport_layout]),
      (''paxodin_begin_step'', I32, [Handle, Ref CEnvelope_layout, Ref CToken_layout, Ref CReport_layout]),
      (''paxodin_begin_reconnected'', I32, [Handle, Val U16, Ref CToken_layout, Ref CReport_layout]),
      (''paxodin_begin_request_catch_up'', I32, [Handle, Val U16, Val U64, Ref CToken_layout, Ref CReport_layout]),
      (''paxodin_begin_install_chosen_trim'', I32, [Handle, Val U64, Val U64, Ref CToken_layout, Ref CReport_layout]),
      (''paxodin_batch_report'', I32, [Handle, Ref CToken_layout, Ref CReport_layout]),
      (''paxodin_copy_writes'', I32, [Handle, Ref CToken_layout, Val U32, Val U32, Ref CWrite_layout, Ref U32]),
      (''paxodin_confirm'', I32, [Handle, Ref CToken_layout]),
      (''paxodin_copy_messages'', I32, [Handle, Ref CToken_layout, Val U32, Val U32, Ref CEnvelope_layout, Ref U32]),
      (''paxodin_copy_committed'', I32, [Handle, Ref CToken_layout, Val U32, Val U32, Ref CCommitted_layout, Ref U32]),
      (''paxodin_copy_requests'', I32, [Handle, Ref CToken_layout, Val U32, Val U32, Ref CRequest_layout, Ref U32]),
      (''paxodin_copy_assigned_slots'', I32, [Handle, Ref CToken_layout, Val U32, Val U32, Ref U64, Ref U32]),
      (''paxodin_finish'', I32, [Handle, Ref CToken_layout]),
      (''paxodin_state'', I32, [Handle, Ref CState_layout]),
      (''paxodin_advance_memory_floor'', I32, [Handle, Val U64]),
      (''paxodin_set_campaign_enabled'', I32, [Handle, Val U32]),
      (''paxodin_decided_span'', I32, [Handle, Val U64, Ref U64]),
      (''paxodin_read_decided'', I32, [Handle, Val U64, Val U32, Ref CCommitted_layout, Ref U32, Ref U64]),
      (''paxodin_committed_at'', I32, [Handle, Val U64, Ref CEntry_layout, Ref U32])]"

definition EXPECTED_ABI_VERSION :: int where "EXPECTED_ABI_VERSION = 1"

definition SIZE_CHECKS :: "(string \<times> ctype) list" where
  "SIZE_CHECKS =
     [(''sizeof_entry'', CEntry_layout), (''sizeof_write'', CWrite_layout), (''sizeof_envelope'', CEnvelope_layout),
      (''sizeof_committed'', CCommitted_layout), (''sizeof_request'', CRequest_layout), (''sizeof_token'', CToken_layout),
      (''sizeof_report'', CReport_layout), (''sizeof_state'', CState_layout), (''sizeof_config'', CConfig_layout)]"

subsection \<open>The declarations in Odin\<close>

definition Entry_Kind_type :: ctype where "Entry_Kind_type = U8"
definition Write_Kind_type :: ctype where "Write_Kind_type = U8"
definition Message_Kind_type :: ctype where "Message_Kind_type = U32"
definition Request_Kind_type :: ctype where "Request_Kind_type = U32"

definition C_Stop_Sign_layout :: ctype where
  "C_Stop_Sign_layout = Struct
     [(''configuration_id'', U64), (''member_count'', U32), (''metadata_length'', U32),
      (''members'', Array U16 (int MAX_MEMBERS)), (''metadata'', Array U8 (int MAX_METADATA_BYTES))]"

definition C_Entry_layout :: ctype where
  "C_Entry_layout = Struct
     [(''kind'', Entry_Kind_type), (''pad'', Array U8 3), (''length'', U32),
      (''body'', Array U8 (int MAX_VALUE_BYTES)), (''stop'', C_Stop_Sign_layout)]"

definition C_Write_layout :: ctype where
  "C_Write_layout = Struct
     [(''kind'', Write_Kind_type), (''pad'', Array U8 3), (''flags'', U32), (''ballot'', U64),
      (''slot'', U64), (''trim_id'', U64), (''trim_slot'', U64), (''entry'', C_Entry_layout)]"

definition C_Envelope_layout :: ctype where
  "C_Envelope_layout = Struct
     [(''configuration_id'', U64), (''ballot'', U64), (''slot'', U64), (''vote'', U64), (''first'', U64),
      (''last'', U64), (''rejected'', U64), (''promised'', U64), (''decided_through'', U64),
      (''trim_id'', U64), (''trim_slot'', U64), (''kind'', Message_Kind_type), (''count'', U32),
      (''from'', U16), (''to'', U16), (''scope'', U8), (''cell_state'', U8), (''more'', U8),
      (''pad'', U8), (''entry'', C_Entry_layout)]"

definition C_Committed_layout :: ctype where
  "C_Committed_layout = Struct
     [(''slot'', U64), (''flags'', U32), (''pad'', U32), (''entry'', C_Entry_layout)]"

definition C_Request_layout :: ctype where
  "C_Request_layout = Struct
     [(''kind'', Request_Kind_type), (''peer'', U16), (''pad'', U16), (''first'', U64), (''count'', U32),
      (''pad2'', U32)]"

definition C_Token_layout :: ctype where
  "C_Token_layout = Struct
     [(''epoch'', U64), (''generation'', U64)]"

definition C_Report_layout :: ctype where
  "C_Report_layout = Struct
     [(''epoch'', U64), (''generation'', U64), (''assigned_slot'', U64), (''status'', I32),
      (''phase'', U32), (''write_count'', U32), (''writes_copied_through'', U32),
      (''message_count'', U32), (''committed_count'', U32), (''request_count'', U32),
      (''assigned_count'', U32), (''requires_barrier'', U32), (''pad'', U32)]"

definition C_State_layout :: ctype where
  "C_State_layout = Struct
     [(''configuration_id'', U64), (''ballot'', U64), (''decided_through'', U64),
      (''memory_floor'', U64), (''leader_base'', U64), (''frontier'', U64), (''stop_slot'', U64),
      (''trim_id'', U64), (''trim_slot'', U64), (''node_id'', U16), (''leader'', U16),
      (''has_leader'', U8), (''role'', U8), (''sealed'', U8), (''voting_member'', U8),
      (''campaign_enabled'', U8), (''leader_caught_up'', U8), (''pad'', Array U8 2),
      (''resubmits_dropped'', U32)]"

definition C_Config_layout :: ctype where
  "C_Config_layout = Struct
     [(''configuration_id'', U64), (''members'', Array U16 (int MAX_MEMBERS)), (''member_count'', U32),
      (''read_quorum'', U32), (''write_quorum'', U32), (''election_timeout_ticks'', U32),
      (''heartbeat_interval_ticks'', U32), (''resend_interval_ticks'', U32), (''flags'', U32),
      (''node_id'', U16), (''priority'', U8), (''pad'', U8)]"

definition Profile_layout :: ctype where
  "Profile_layout = Struct
     [(''abi_version'', U32), (''max_members'', U32), (''window_slots'', U32), (''chunk_slots'', U32),
      (''max_value_bytes'', U32), (''max_metadata_bytes'', U32), (''max_writes_per_batch'', U32),
      (''max_messages_per_batch'', U32), (''max_committed_per_batch'', U32),
      (''max_requests_per_batch'', U32), (''sizeof_entry'', U32), (''sizeof_write'', U32),
      (''sizeof_envelope'', U32), (''sizeof_committed'', U32), (''sizeof_request'', U32),
      (''sizeof_token'', U32), (''sizeof_report'', U32), (''sizeof_state'', U32),
      (''sizeof_config'', U32), (''gate_enforced'', U32), (''node_bytes'', U64),
      (''effects_bytes'', U64), (''capabilities'', U64), (''fingerprint'', U64)]"

text \<open>The exported procedures, file by file.\<close>

definition exports_bridge :: "signature list" where
  "exports_bridge =
     [(''paxodin_abi_version'', U32, []),
      (''paxodin_capabilities'', U64, []),
      (''paxodin_profile_fingerprint'', U64, []),
      (''paxodin_profile'', I32, [Ref Profile_layout]),
      (''paxodin_status_count'', U32, []),
      (''paxodin_core_version'', I32, [Ref U8, Val U32, Ref U32]),
      (''paxodin_explain'', I32, [Val I32, Ref U8, Val U32, Ref U32])]"

definition exports_lifecycle :: "signature list" where
  "exports_lifecycle =
     [(''paxodin_node_open'', I32, [Ref C_Config_layout, Handle_Ref]),
      (''paxodin_node_open_continue_at'', I32, [Ref C_Config_layout, Val U64, Val U64, Val U64, Handle_Ref]),
      (''paxodin_node_open_for_replay'', I32, [Ref C_Config_layout, Handle_Ref]),
      (''paxodin_node_close'', I32, [Handle, Ref U32]),
      (''paxodin_replay_apply'', I32, [Handle, Ref C_Write_layout]),
      (''paxodin_replay_restore'', I32, [Handle, Val U64]),
      (''paxodin_replay_abort'', I32, [Handle])]"

definition exports_transitions :: "signature list" where
  "exports_transitions =
     [(''paxodin_begin_campaign'', I32, [Handle, Ref C_Token_layout, Ref C_Report_layout]),
      (''paxodin_begin_tick'', I32, [Handle, Ref C_Token_layout, Ref C_Report_layout]),
      (''paxodin_begin_propose'', I32, [Handle, Ref C_Entry_layout, Ref C_Token_layout, Ref C_Report_layout]),
      (''paxodin_begin_propose_batch'', I32, [Handle, Ref C_Entry_layout, Val U32, Ref C_Token_layout, Ref C_Report_layout]),
      (''paxodin_begin_step'', I32, [Handle, Ref C_Envelope_layout, Ref C_Token_layout, Ref C_Report_layout]),
      (''paxodin_begin_reconnected'', I32, [Handle, Val U16, Ref C_Token_layout, Ref C_Report_layout]),
      (''paxodin_begin_request_catch_up'', I32, [Handle, Val U16, Val U64, Ref C_Token_layout, Ref C_Report_layout]),
      (''paxodin_begin_install_chosen_trim'', I32, [Handle, Val U64, Val U64, Ref C_Token_layout, Ref C_Report_layout])]"

definition exports_batch :: "signature list" where
  "exports_batch =
     [(''paxodin_batch_report'', I32, [Handle, Ref C_Token_layout, Ref C_Report_layout]),
      (''paxodin_copy_writes'', I32, [Handle, Ref C_Token_layout, Val U32, Val U32, Ref C_Write_layout, Ref U32]),
      (''paxodin_confirm'', I32, [Handle, Ref C_Token_layout]),
      (''paxodin_copy_messages'', I32, [Handle, Ref C_Token_layout, Val U32, Val U32, Ref C_Envelope_layout, Ref U32]),
      (''paxodin_copy_committed'', I32, [Handle, Ref C_Token_layout, Val U32, Val U32, Ref C_Committed_layout, Ref U32]),
      (''paxodin_copy_requests'', I32, [Handle, Ref C_Token_layout, Val U32, Val U32, Ref C_Request_layout, Ref U32]),
      (''paxodin_copy_assigned_slots'', I32, [Handle, Ref C_Token_layout, Val U32, Val U32, Ref U64, Ref U32]),
      (''paxodin_finish'', I32, [Handle, Ref C_Token_layout])]"

definition exports_queries :: "signature list" where
  "exports_queries =
     [(''paxodin_state'', I32, [Handle, Ref C_State_layout]),
      (''paxodin_advance_memory_floor'', I32, [Handle, Val U64]),
      (''paxodin_set_campaign_enabled'', I32, [Handle, Val U32]),
      (''paxodin_decided_span'', I32, [Handle, Val U64, Ref U64]),
      (''paxodin_read_decided'', I32, [Handle, Val U64, Val U32, Ref C_Committed_layout, Ref U32, Ref U64]),
      (''paxodin_committed_at'', I32, [Handle, Val U64, Ref C_Entry_layout, Ref U32])]"

definition exports :: "signature list" where
  "exports = exports_bridge @ exports_lifecycle @ exports_transitions @ exports_batch @ exports_queries"

subsection \<open>Loading\<close>

text \<open>What loading sees of a shared library: the names it exports, the ABI version and profile it reports.\<close>

record library =
  lb_symbols :: "string list"
  lb_abi_version :: int
  lb_sizes :: "(string \<times> int) list"
  lb_profile :: c_profile

definition library_filename :: "string option \<Rightarrow> string \<Rightarrow> string" where
  "library_filename paxodin_lib platform =
     (let stem = (if paxodin_lib = Some ''enforced'' then ''_paxodin_enforced'' else ''_paxodin'')
      in if platform = ''darwin'' then stem @ ''.dylib''
         else if platform = ''win32'' then stem @ ''.dll'' else stem @ ''.so'')"

fun bind_signatures :: "library \<Rightarrow> signature list \<Rightarrow> exn + unit" where
  "bind_signatures lib [] = Inr ()"
| "bind_signatures lib ((name, restype, argtypes) # rest) =
     (if name \<in> set (lb_symbols lib) then bind_signatures lib rest else Inl OSErr)"

text \<open>\<^verbatim>\<open>getattr(profile, field)\<close>: every field the check names is one of the structure's.\<close>

definition reported :: "library \<Rightarrow> string \<Rightarrow> int" where
  "reported lib field = (case map_of (lb_sizes lib) field of None \<Rightarrow> 0 | Some n \<Rightarrow> n)"

definition verify_library :: "library \<Rightarrow> exn + c_profile" where
  "verify_library lib =
     (if lb_abi_version lib \<noteq> EXPECTED_ABI_VERSION then Inl OSErr
      else let drift = filter (\<lambda>(field, struct). reported lib field \<noteq> size_of struct) SIZE_CHECKS
           in if drift \<noteq> [] then Inl OSErr else Inr (lb_profile lib))"

definition load_library :: "library \<Rightarrow> exn + c_profile" where
  "load_library lib = bindE (bind_signatures lib SIGNATURES) (\<lambda>_. verify_library lib)"

text \<open>The library that the Odin files build.\<close>

definition PAXODIN_ABI_VERSION :: int where "PAXODIN_ABI_VERSION = 1"

definition sizes_of :: "(string \<times> ctype) list \<Rightarrow> (string \<times> int) list" where
  "sizes_of structs = map (\<lambda>(field, struct). (field, size_of struct)) structs"

definition own_structs :: "(string \<times> ctype) list" where
  "own_structs =
     [(''sizeof_entry'', C_Entry_layout), (''sizeof_write'', C_Write_layout), (''sizeof_envelope'', C_Envelope_layout),
      (''sizeof_committed'', C_Committed_layout), (''sizeof_request'', C_Request_layout), (''sizeof_token'', C_Token_layout),
      (''sizeof_report'', C_Report_layout), (''sizeof_state'', C_State_layout), (''sizeof_config'', C_Config_layout)]"

definition own_library :: "c_profile \<Rightarrow> library" where
  "own_library profile = \<lparr>lb_symbols = map fst exports, lb_abi_version = PAXODIN_ABI_VERSION,
     lb_sizes = sizes_of own_structs, lb_profile = profile\<rparr>"

subsection \<open>The two sides agree\<close>

definition mirrors :: "(ctype \<times> ctype) list" where
  "mirrors = [(CStopSign_layout, C_Stop_Sign_layout), (CEntry_layout, C_Entry_layout), (CWrite_layout, C_Write_layout),
     (CEnvelope_layout, C_Envelope_layout), (CCommitted_layout, C_Committed_layout), (CRequest_layout, C_Request_layout),
     (CToken_layout, C_Token_layout), (CReport_layout, C_Report_layout), (CState_layout, C_State_layout),
     (CConfig_layout, C_Config_layout), (CProfile_layout, Profile_layout)]"

fun nameless_arg :: "carg \<Rightarrow> carg" where
  "nameless_arg (Val t) = Val (nameless t)"
| "nameless_arg (Ref t) = Ref (nameless t)"
| "nameless_arg a = a"

definition declared_as_exported :: "signature \<Rightarrow> bool" where
  "declared_as_exported s = (case s of (name, restype, argtypes) \<Rightarrow>
     (case map_of exports name of None \<Rightarrow> False
      | Some (restype', argtypes') \<Rightarrow> restype = restype' \<and> map nameless_arg argtypes = map nameless_arg argtypes'))"

text \<open>The names by which a field is called on the two sides.\<close>

definition renamed :: "string \<Rightarrow> string" where
  "renamed name = (if name = ''from'' then ''sender'' else if name = ''to'' then ''recipient'' else name)"

definition same_fields :: "ctype \<Rightarrow> ctype \<Rightarrow> bool" where
  "same_fields mirror odin =
     (map fst (members_of mirror) = map (renamed \<circ> fst) (members_of odin) \<and> nameless mirror = nameless odin
      \<and> offsets mirror = offsets odin \<and> size_of mirror = size_of odin)"

lemma array_bounds [code_unfold]: "int MAX_MEMBERS = 7" "int MAX_VALUE_BYTES = 1024" "int MAX_METADATA_BYTES = 256"
  by (simp_all add: MAX_MEMBERS_def MAX_VALUE_BYTES_def MAX_METADATA_BYTES_def)

text \<open>The layout of a type does not depend on the names of its fields.\<close>

lemma nameless_layout: "align_of (nameless t) = align_of t \<and> size_of (nameless t) = size_of t"
proof (induction t)
  case (Struct fs)
  then have "map (\<lambda>f. align_of (nameless (snd f))) fs = map (\<lambda>f. align_of (snd f)) fs"
    and "map (\<lambda>f. (align_of (nameless (snd f)), size_of (nameless (snd f)))) fs = map (\<lambda>f. (align_of (snd f), size_of (snd f))) fs"
    by (auto simp: snds.simps)
  then show ?case by (simp add: split_def comp_def del: map_eq_conv)
qed simp_all

lemma nameless_offsets: "offsets_from n (map (\<lambda>(_, t). ([] :: string, nameless t)) fs) = offsets_from n fs"
  by (induction fs arbitrary: n) (auto simp: nameless_layout)

lemma same_layout:
  assumes "nameless s = nameless t"
  shows "offsets s = offsets t" and "size_of s = size_of t"
proof -
  show "size_of s = size_of t" using nameless_layout [of s] nameless_layout [of t] assms by simp
  show "offsets s = offsets t"
    using assms nameless_offsets [of 0 "members_of s"] nameless_offsets [of 0 "members_of t"]
    by (cases s; cases t) (simp_all add: offsets_def)
qed

lemma same_fieldsI:
  assumes "map fst (members_of s) = map (renamed \<circ> fst) (members_of t)" and "nameless s = nameless t"
  shows "same_fields s t"
  using assms same_layout [OF assms(2)] unfolding same_fields_def by blast

lemma entry_agrees: "same_fields CStopSign_layout C_Stop_Sign_layout" "same_fields CEntry_layout C_Entry_layout"
  by (rule same_fieldsI; simp add: CStopSign_layout_def C_Stop_Sign_layout_def CEntry_layout_def C_Entry_layout_def
      Entry_Kind_type_def renamed_def)+

lemma entry_nameless: "nameless CEntry_layout = nameless C_Entry_layout"
  using entry_agrees(2) by (simp add: same_fields_def)

lemma write_agrees: "same_fields CWrite_layout C_Write_layout"
  by (rule same_fieldsI; simp add: CWrite_layout_def C_Write_layout_def Write_Kind_type_def renamed_def entry_nameless)

lemma envelope_agrees: "same_fields CEnvelope_layout C_Envelope_layout"
  by (rule same_fieldsI; simp add: CEnvelope_layout_def C_Envelope_layout_def Message_Kind_type_def renamed_def entry_nameless)

lemma output_agrees: "same_fields CCommitted_layout C_Committed_layout" "same_fields CRequest_layout C_Request_layout"
    "same_fields CToken_layout C_Token_layout" "same_fields CReport_layout C_Report_layout"
  by (rule same_fieldsI; simp add: CCommitted_layout_def C_Committed_layout_def CRequest_layout_def C_Request_layout_def
      CToken_layout_def C_Token_layout_def CReport_layout_def C_Report_layout_def Request_Kind_type_def renamed_def entry_nameless)+

lemma state_agrees: "same_fields CState_layout C_State_layout" "same_fields CConfig_layout C_Config_layout"
    "same_fields CProfile_layout Profile_layout"
  by (rule same_fieldsI; simp add: CState_layout_def C_State_layout_def CConfig_layout_def C_Config_layout_def
      CProfile_layout_def Profile_layout_def renamed_def)+

lemma mirrors_agree: "list_all (\<lambda>(mirror, odin). same_fields mirror odin) mirrors"
  by (simp add: mirrors_def entry_agrees write_agrees envelope_agrees output_agrees state_agrees)

lemma signatures_agree: "list_all declared_as_exported SIGNATURES"
  by code_simp

lemma entry_layouts:
  "align_of CStopSign_layout = 8" "size_of CStopSign_layout = 288" "align_of CEntry_layout = 8" "size_of CEntry_layout = 1320"
  by (simp_all add: CStopSign_layout_def CEntry_layout_def round_up_def array_bounds)

lemma checked_sizes: "map (size_of \<circ> snd) SIZE_CHECKS = [1320, 1360, 1424, 1336, 24, 16, 64, 88, 56]"
  by (simp add: SIZE_CHECKS_def entry_layouts CWrite_layout_def CEnvelope_layout_def CCommitted_layout_def CRequest_layout_def
      CToken_layout_def CReport_layout_def CState_layout_def CConfig_layout_def round_up_def array_bounds)

text \<open>C39: The Python package and the Odin bridge declare the same boundary. Each of the eleven structures has the same
  fields in the same order, of the same types at the same offsets, and the same size; and each of the 36
  functions the package declares is exported by an Odin file, with the same result, number and types of
  parameters.\<close>

theorem boundary_agrees:
  "list_all (\<lambda>(mirror, odin). same_fields mirror odin) mirrors \<and> list_all declared_as_exported SIGNATURES"
  using mirrors_agree signatures_agree by blast

lemma bind_signatures_iff:
  "bind_signatures lib sigs = Inr () \<longleftrightarrow> set (map fst sigs) \<subseteq> set (lb_symbols lib)"
  by (induction lib sigs rule: bind_signatures.induct) (auto split: if_splits)

lemma bind_signatures_cases: "bind_signatures lib sigs = Inr () \<or> bind_signatures lib sigs = Inl OSErr"
  by (induction lib sigs rule: bind_signatures.induct) auto

lemma own_library_loads: "load_library (own_library profile) = Inr profile"
proof -
  have "bind_signatures (own_library profile) SIGNATURES = Inr ()"
  proof -
    have "list_all (\<lambda>s. fst s \<in> set (map fst exports)) SIGNATURES" by code_simp
    then show ?thesis by (auto simp: bind_signatures_iff own_library_def list_all_iff)
  qed
  moreover have "filter (\<lambda>(field, struct). reported (own_library profile) field \<noteq> size_of struct) SIZE_CHECKS = []"
  proof -
    have "sizes_of own_structs = sizes_of SIZE_CHECKS"
      using mirrors_agree by (simp add: sizes_of_def own_structs_def SIZE_CHECKS_def mirrors_def same_fields_def)
    moreover have "distinct (map fst SIZE_CHECKS)" by code_simp
    then have "map_of (sizes_of SIZE_CHECKS) field = Some (size_of struct)" if "(field, struct) \<in> set SIZE_CHECKS" for field struct
      using that by (intro map_of_is_SomeI) (force simp: sizes_of_def comp_def split_def)+
    ultimately show ?thesis by (auto simp: filter_empty_conv reported_def own_library_def)
  qed
  ultimately show ?thesis
    by (simp add: load_library_def verify_library_def own_library_def EXPECTED_ABI_VERSION_def PAXODIN_ABI_VERSION_def Let_def)
qed

text \<open>C40: The check at import is exact. Loading returns the profile of the library if it exports every function the
  package declares, reports the expected version and, of the nine structures it reports on, the sizes of
  the Python mirrors, which are those given here; and raises \<^verbatim>\<open>OSError\<close> otherwise. The library the Odin files
  build is loaded.\<close>

theorem load_library_exact:
  "load_library lib = (if set (map fst SIGNATURES) \<subseteq> set (lb_symbols lib) \<and> lb_abi_version lib = 1
       \<and> map (reported lib \<circ> fst) SIZE_CHECKS = [1320, 1360, 1424, 1336, 24, 16, 64, 88, 56]
     then Inr (lb_profile lib) else Inl OSErr)
   \<and> load_library (own_library profile) = Inr profile"
proof
  have s: "map (size_of \<circ> snd) SIZE_CHECKS = [1320, 1360, 1424, 1336, 24, 16, 64, 88, 56]" by (rule checked_sizes)
  have "filter (\<lambda>(field, struct). reported lib field \<noteq> size_of struct) SIZE_CHECKS = []
      \<longleftrightarrow> map (reported lib \<circ> fst) SIZE_CHECKS = map (size_of \<circ> snd) SIZE_CHECKS"
    by (auto simp: filter_empty_conv)
  then show "load_library lib = (if set (map fst SIGNATURES) \<subseteq> set (lb_symbols lib) \<and> lb_abi_version lib = 1
       \<and> map (reported lib \<circ> fst) SIZE_CHECKS = [1320, 1360, 1424, 1336, 24, 16, 64, 88, 56]
     then Inr (lb_profile lib) else Inl OSErr)"
    using bind_signatures_iff [of lib SIGNATURES] bind_signatures_cases [of lib SIGNATURES] unfolding s
    by (auto simp: load_library_def verify_library_def EXPECTED_ABI_VERSION_def Let_def)
qed (rule own_library_loads)

text \<open>A limit of the check: it compares sizes only. A library whose node state has the fields \<^verbatim>\<open>sealed\<close> and
  \<^verbatim>\<open>voting_member\<close> exchanged is accepted, and each is then read as the other.\<close>

definition swapped_state :: ctype where
  "swapped_state = Struct (map (\<lambda>(name, t).
     (if name = ''sealed'' then ''voting_member'' else if name = ''voting_member'' then ''sealed'' else name, t))
     (members_of C_State_layout))"

lemma verify_misses_reordering:
  "map_of (zip (map fst (members_of swapped_state)) (offsets swapped_state)) ''sealed''
     \<noteq> map_of (zip (map fst (members_of CState_layout)) (offsets CState_layout)) ''sealed''"
  "load_library (own_library p\<lparr>lb_sizes := sizes_of (AList.update ''sizeof_state'' swapped_state own_structs)\<rparr>) = Inr p"
proof -
  show "map_of (zip (map fst (members_of swapped_state)) (offsets swapped_state)) ''sealed''
     \<noteq> map_of (zip (map fst (members_of CState_layout)) (offsets CState_layout)) ''sealed''"
    by (simp add: swapped_state_def C_State_layout_def CState_layout_def offsets_def round_up_def)
  have "nameless swapped_state = nameless C_State_layout" by code_simp
  then have "size_of swapped_state = size_of C_State_layout" by (rule same_layout)
  then have "sizes_of (AList.update ''sizeof_state'' swapped_state own_structs) = sizes_of own_structs"
    by (simp add: sizes_of_def own_structs_def)
  then show "load_library (own_library p\<lparr>lb_sizes := sizes_of (AList.update ''sizeof_state'' swapped_state own_structs)\<rparr>) = Inr p"
    using own_library_loads [of p] by (simp add: own_library_def)
qed

subsection \<open>Texts\<close>

text \<open>
  \<^verbatim>\<open>copy_text\<close> of the bridge reports in every case the length that the text needs; it fills the buffer, and
  adds the terminating zero, only when both fit. The arguments are the buffer, if the caller gave one, and its
  capacity; the result is the status, the length and the buffer.
\<close>

type_synonym text_call = "bytes option \<Rightarrow> int \<Rightarrow> int \<times> int \<times> bytes option"

definition copy_text :: "bytes \<Rightarrow> text_call" where
  "copy_text contents buffer capacity =
     (let needed = c_u32 (int (length contents))
      in case buffer of
           None \<Rightarrow> (E_BUFFER_TOO_SMALL, needed, None)
         | Some b \<Rightarrow>
             if capacity < c_u32 (needed + 1) then (E_BUFFER_TOO_SMALL, needed, buffer)
             else (OK, needed, Some ((take (nat needed) contents @ [0]) @ drop (nat needed + 1) b)))"

text \<open>\<^verbatim>\<open>_read_text\<close> asks for the length first. \<^verbatim>\<open>buffer.value\<close> stops at the first zero; \<open>decode\<close> is \<^verbatim>\<open>bytes.decode\<close>.\<close>

definition read_text :: "(bytes \<Rightarrow> exn + string) \<Rightarrow> text_call \<Rightarrow> exn + string" where
  "read_text decode call =
     (let (_, needed, _) = call None 0
      in if needed = 0 then Inr []
         else case call (Some (replicate (nat needed + 1) 0)) (c_u32 (needed + 1)) of
                (status, _, Some buffer) \<Rightarrow> if status \<noteq> OK then Inr [] else decode (takeWhile (\<lambda>b. b \<noteq> 0) buffer)
              | (_, _, None) \<Rightarrow> Inr [])"

definition core_version :: "(bytes \<Rightarrow> exn + string) \<Rightarrow> bytes \<Rightarrow> exn + string" where
  "core_version decode VERSION = read_text decode (copy_text VERSION)"

definition explain :: "(bytes \<Rightarrow> exn + string) \<Rightarrow> (int \<Rightarrow> bytes) \<Rightarrow> int \<Rightarrow> exn + string" where
  "explain decode explanation_of status = read_text decode (copy_text (explanation_of status))"

text \<open>A text of any practical length without a zero byte arrives whole; one with a zero byte is cut there.\<close>

lemma read_copied_text:
  assumes "length contents < 4294967295"
  shows "read_text decode (copy_text contents)
    = (if contents = [] then Inr [] else decode (takeWhile (\<lambda>b. b \<noteq> 0) contents))"
proof -
  have "c_u32 (int (length contents)) = int (length contents)" "c_u32 (int (length contents) + 1) = int (length contents) + 1"
    using assms by (simp_all add: c_u32_def)
  moreover have "takeWhile (\<lambda>b. b \<noteq> 0) (contents @ [0]) = takeWhile (\<lambda>b. b \<noteq> 0) contents"
    by (induction contents) auto
  ultimately show ?thesis by (simp add: read_text_def copy_text_def Let_def)
qed

lemma core_version_reads:
  "core_version (\<lambda>b. Inr (map (char_of \<circ> unat) b)) [48, 46, 50, 46, 48] = Inr ''0.2.0''"
  unfolding core_version_def by (subst read_copied_text) (simp_all add: char_of_def bit_0)

end
