(* ===== verification/Py_Struct.thy ===== *)
theory Py_Struct
  imports Prelude
begin

section \<open>Python's \<^verbatim>\<open>struct\<close> module\<close>

text \<open>
  The part of the standard library's \<^verbatim>\<open>struct\<close> that \<^verbatim>\<open>codec.py\<close> and \<^verbatim>\<open>storage.py\<close> use: formats
  with the prefix \<^verbatim>\<open>>\<close> (big-endian, no padding) made of \<^verbatim>\<open>Ns\<close> byte strings and the unsigned
  integers \<^verbatim>\<open>B\<close>, \<^verbatim>\<open>H\<close>, \<^verbatim>\<open>I\<close>, \<^verbatim>\<open>Q\<close>. \<open>None\<close> is \<^verbatim>\<open>struct.error\<close>: a value out of its field's range,
  the wrong number of values, or a buffer shorter than the format.
\<close>

datatype sfield = FStr nat | FUInt nat

datatype sval = SBytes bytes | SInt int

abbreviation "fB \<equiv> FUInt 1"
abbreviation "fH \<equiv> FUInt 2"
abbreviation "fI \<equiv> FUInt 4"
abbreviation "fQ \<equiv> FUInt 8"

fun field_size :: "sfield \<Rightarrow> nat" where
  "field_size (FStr n) = n"
| "field_size (FUInt n) = n"

definition calcsize :: "sfield list \<Rightarrow> nat" where
  "calcsize fmt = sum_list (map field_size fmt)"

fun pack_field :: "sfield \<Rightarrow> sval \<Rightarrow> bytes option" where
  "pack_field (FStr n) (SBytes b) = Some (take n b @ replicate (n - length b) 0)"
| "pack_field (FUInt n) (SInt v) = (if 0 \<le> v \<and> v < 256 ^ n then Some (be_bytes n v) else None)"
| "pack_field _ _ = None"

fun pack :: "sfield list \<Rightarrow> sval list \<Rightarrow> bytes option" where
  "pack [] [] = Some []"
| "pack (f # fs) (v # vs) =
     (case pack_field f v of None \<Rightarrow> None
      | Some b \<Rightarrow> (case pack fs vs of None \<Rightarrow> None | Some bs \<Rightarrow> Some (b @ bs)))"
| "pack _ _ = None"

fun unpack_field :: "sfield \<Rightarrow> bytes \<Rightarrow> sval" where
  "unpack_field (FStr n) b = SBytes b"
| "unpack_field (FUInt n) b = SInt (be_int b)"

fun unpack_all :: "sfield list \<Rightarrow> bytes \<Rightarrow> sval list" where
  "unpack_all [] b = []"
| "unpack_all (f # fs) b =
     unpack_field f (take (field_size f) b) # unpack_all fs (drop (field_size f) b)"

definition unpack_from :: "sfield list \<Rightarrow> bytes \<Rightarrow> sval list option" where
  "unpack_from fmt b = (if length b < calcsize fmt then None else Some (unpack_all fmt b))"

fun sint :: "sval \<Rightarrow> int" where
  "sint (SInt v) = v"
| "sint (SBytes b) = be_int b"

fun sbytes :: "sval \<Rightarrow> bytes" where
  "sbytes (SBytes b) = b"
| "sbytes (SInt v) = []"

text \<open>A value fits its field when \<open>pack\<close> accepts it and \<open>unpack\<close> gives it back unchanged.\<close>

fun fits :: "sfield \<Rightarrow> sval \<Rightarrow> bool" where
  "fits (FStr n) (SBytes b) = (length b = n)"
| "fits (FUInt n) (SInt v) = (0 \<le> v \<and> v < 256 ^ n)"
| "fits _ _ = False"

lemma calcsize_simps [simp]:
  "calcsize [] = 0"
  "calcsize (f # fs) = field_size f + calcsize fs"
  by (simp_all add: calcsize_def)

lemma pack_field_length: "pack_field f v = Some b \<Longrightarrow> length b = field_size f"
  by (cases "(f, v)" rule: pack_field.cases) (auto split: if_splits)

lemma pack_length: "pack fmt vs = Some b \<Longrightarrow> length b = calcsize fmt"
proof (induction fmt vs arbitrary: b rule: pack.induct)
  case (2 f fs v vs)
  then show ?case by (auto split: option.splits dest: pack_field_length)
qed auto

lemma pack_fits: "list_all2 fits fmt vs \<Longrightarrow> \<exists>b. pack fmt vs = Some b"
proof (induction fmt vs rule: list_all2_induct)
  case Nil
  then show ?case by simp
next
  case (Cons f fs v vs)
  then show ?case by (cases "(f, v)" rule: fits.cases) auto
qed

lemma unpack_field_pack: "fits f v \<Longrightarrow> pack_field f v = Some b \<Longrightarrow> unpack_field f b = v"
  by (cases "(f, v)" rule: fits.cases) (auto simp: be_int_be_bytes split: if_splits)

lemma unpack_all_pack:
  assumes "list_all2 fits fmt vs" and "pack fmt vs = Some b"
  shows "unpack_all fmt (b @ rest) = vs"
  using assms
proof (induction fmt vs arbitrary: b rule: list_all2_induct)
  case Nil
  then show ?case by simp
next
  case (Cons f fs v vs)
  from Cons.prems obtain b1 b2 where b1: "pack_field f v = Some b1"
    and b2: "pack fs vs = Some b2" and b: "b = b1 @ b2"
    by (auto split: option.splits)
  have "length b1 = field_size f" using b1 by (rule pack_field_length)
  with Cons.hyps(1) b1 Cons.IH [OF b2] show ?case
    by (simp add: b unpack_field_pack)
qed

lemma unpack_from_pack:
  assumes "list_all2 fits fmt vs" and "pack fmt vs = Some b"
  shows "unpack_from fmt (b @ rest) = Some vs"
  using unpack_all_pack [OF assms] pack_length [OF assms(2)] by (simp add: unpack_from_def)

lemma length_unpack_all [simp]: "length (unpack_all fmt b) = length fmt"
  by (induction fmt arbitrary: b) simp_all

lemma unpack_all_fits: "calcsize fmt \<le> length b \<Longrightarrow> list_all2 fits fmt (unpack_all fmt b)"
proof (induction fmt arbitrary: b)
  case Nil
  then show ?case by simp
next
  case (Cons f fs)
  have "fits f (unpack_field f (take (field_size f) b))"
  proof (cases f)
    case (FStr n)
    with Cons.prems show ?thesis by simp
  next
    case (FUInt n)
    then have "length (take n b) = n" using Cons.prems by simp
    then show ?thesis using FUInt be_int_bounds [of "take n b"] by simp
  qed
  with Cons show ?case by simp
qed

text \<open>\<open>pack\<close> inverts \<open>unpack\<close>: every buffer of the format's size is the packing of its fields.\<close>

lemma pack_unpack_all: "calcsize fmt \<le> length b \<Longrightarrow> pack fmt (unpack_all fmt b) = Some (take (calcsize fmt) b)"
proof (induction fmt arbitrary: b)
  case Nil
  then show ?case by simp
next
  case (Cons f fs)
  have "pack_field f (unpack_field f (take (field_size f) b)) = Some (take (field_size f) b)"
  proof (cases f)
    case (FStr n)
    with Cons.prems show ?thesis by simp
  next
    case (FUInt n)
    then have "length (take n b) = n" using Cons.prems by simp
    then show ?thesis
      using FUInt be_int_bounds [of "take n b"] be_bytes_be_int [of "take n b"] by simp
  qed
  with Cons show ?case by (simp add: take_add)
qed

end
