(* ===== verification/Decode.thy ===== *)
theory Decode
  imports Native
begin

section \<open>\<^verbatim>\<open>_decode.py\<close>: C records to Python values, and the flat message\<close>

text \<open>
  The functions that turn a native record into an owned Python value, and the nine-way \<^verbatim>\<open>Flat\<close>
  record with \<^verbatim>\<open>flatten\<close> and \<^verbatim>\<open>unflatten\<close>, which the wire codec and the native boundary share. The
  kind tuples are indexed with Python's rule, so an unknown tag is \<^verbatim>\<open>IndexError\<close>.
\<close>

definition index_of :: "'a list \<Rightarrow> int \<Rightarrow> exn + 'a" where
  "index_of xs i = (case py_index xs i of None \<Rightarrow> Inl IndexErr | Some x \<Rightarrow> Inr x)"

lemma index_of_value [simp]:
  "index_of all_entry_kinds (entry_kind_value k) = Inr k"
  "index_of all_write_kinds (write_kind_value w) = Inr w"
  "index_of all_message_kinds (message_kind_value m) = Inr m"
  "index_of all_roles (role_value r) = Inr r"
  "index_of all_cell_states (cell_state_value c) = Inr c"
  "index_of all_prepare_scopes (prepare_scope_value p) = Inr p"
  by (simp_all add: index_of_def enum_simps)

definition no_entry :: log_entry where
  "no_entry = mk_entry EK_NONE []"

subsection \<open>Decoders of native records\<close>

definition stop_members :: "c_stop_sign \<Rightarrow> exn + node_id list" where
  "stop_members stop =
     mapE (\<lambda>i. index_of (cs_members stop) (int i)) [0..<nat (cs_member_count stop)]"

definition decode_entry :: "c_entry \<Rightarrow> exn + log_entry" where
  "decode_entry source =
     bindE (index_of all_entry_kinds (ce_kind source)) (\<lambda>kind.
       if kind = EK_NONE then Inr no_entry
       else if kind = EK_STOP_SIGN then
         bindE (stop_members (ce_stop source)) (\<lambda>members.
           Inr \<lparr>le_kind = kind, le_body = [],
                le_stop_sign = Some \<lparr>ss_configuration_id = cs_configuration_id (ce_stop source),
                  ss_members = members,
                  ss_metadata = take (nat (cs_metadata_length (ce_stop source)))
                                  (cs_metadata (ce_stop source))\<rparr>\<rparr>)
       else Inr (mk_entry kind (take (nat (ce_length source)) (ce_body source))))"

definition decode_write :: "c_write \<Rightarrow> exn + write_record" where
  "decode_write source =
     bindE (index_of all_write_kinds (cw_kind source)) (\<lambda>kind.
     bindE (decode_entry (cw_entry source)) (\<lambda>entry.
       Inr \<lparr>wr_kind = kind, wr_ballot = cw_ballot source, wr_slot = cw_slot source,
            wr_trim_id = cw_trim_id source, wr_trim_slot = cw_trim_slot source,
            wr_entry = entry, wr_requires_barrier = odd (cw_flags source)\<rparr>))"

definition decode_message :: "c_envelope \<Rightarrow> exn + message" where
  "decode_message source =
     bindE (index_of all_message_kinds (cv_kind source)) (\<lambda>kind. case kind of
       MK_PREPARE \<Rightarrow>
         bindE (index_of all_prepare_scopes (cv_scope source)) (\<lambda>scope.
           Inr (Prepare (cv_ballot source) (cv_first source) (cv_last source) scope))
     | MK_PROMISE \<Rightarrow>
         bindE (index_of all_cell_states (cv_cell_state source)) (\<lambda>state.
         bindE (decode_entry (cv_entry source)) (\<lambda>entry.
           Inr (Promise (cv_ballot source) (cv_slot source) (cv_vote source) state entry)))
     | MK_PROMISE_RANGE \<Rightarrow>
         Inr (PromiseRange (cv_ballot source) (cv_first source) (cv_last source) (cv_count source)
                (cv_more source \<noteq> 0) (cv_decided_through source) (cv_trim_id source)
                (cv_trim_slot source))
     | MK_ACCEPT \<Rightarrow>
         bindE (decode_entry (cv_entry source)) (\<lambda>entry.
           Inr (Accept (cv_ballot source) (cv_slot source) entry))
     | MK_ACCEPTED \<Rightarrow>
         Inr (Accepted (cv_ballot source) (cv_slot source) (cv_decided_through source))
     | MK_COMMIT \<Rightarrow>
         bindE (decode_entry (cv_entry source)) (\<lambda>entry. Inr (Commit (cv_slot source) entry))
     | MK_LEARN \<Rightarrow> Inr (Learn (cv_first source) (cv_count source))
     | MK_NACK \<Rightarrow>
         Inr (Nack (cv_rejected source) (cv_promised source) (cv_slot source)
                (cv_decided_through source))
     | MK_HEARTBEAT \<Rightarrow> Inr (Heartbeat (cv_ballot source) (cv_decided_through source))
     | MK_NONE \<Rightarrow> Inl ValueErr)"

definition decode_envelope :: "c_envelope \<Rightarrow> exn + envelope" where
  "decode_envelope source =
     bindE (decode_message source) (\<lambda>message.
       Inr \<lparr>ev_configuration_id = cv_configuration_id source, ev_sender = cv_sender source,
            ev_recipient = cv_recipient source, ev_message = message\<rparr>)"

definition decode_committed :: "c_committed \<Rightarrow> exn + committed" where
  "decode_committed source =
     bindE (decode_entry (cc_entry source)) (\<lambda>entry.
       Inr \<lparr>cm_slot = cc_slot source, cm_entry = entry\<rparr>)"

definition decode_request :: "c_request \<Rightarrow> exn + serve_range" where
  "decode_request source =
     Inr \<lparr>sr_peer = cq_peer source, sr_first = cq_first source, sr_count = cq_count source\<rparr>"

definition decode_state :: "c_state \<Rightarrow> exn + node_state" where
  "decode_state source =
     bindE (index_of all_roles (cst_role source)) (\<lambda>role.
       Inr \<lparr>ns_node_id = cst_node_id source, ns_configuration_id = cst_configuration_id source,
            ns_role = role, ns_ballot = cst_ballot source,
            ns_leader = (if cst_has_leader source \<noteq> 0 then Some (cst_leader source) else None),
            ns_decided_through = cst_decided_through source,
            ns_memory_floor = cst_memory_floor source, ns_leader_base = cst_leader_base source,
            ns_frontier = cst_frontier source, ns_stop_slot = cst_stop_slot source,
            ns_trim_id = cst_trim_id source, ns_trim_slot = cst_trim_slot source,
            ns_sealed = (cst_sealed source \<noteq> 0),
            ns_voting_member = (cst_voting_member source \<noteq> 0),
            ns_campaign_enabled = (cst_campaign_enabled source \<noteq> 0),
            ns_leader_caught_up = (cst_leader_caught_up source \<noteq> 0),
            ns_resubmits_dropped = cst_resubmits_dropped source\<rparr>)"

definition decode_profile :: "c_profile \<Rightarrow> profile" where
  "decode_profile source =
     \<lparr>pf_max_members = cpf_max_members source, pf_window_slots = cpf_window_slots source,
      pf_chunk_slots = cpf_chunk_slots source, pf_max_value_bytes = cpf_max_value_bytes source,
      pf_max_metadata_bytes = cpf_max_metadata_bytes source,
      pf_gate_enforced = (cpf_gate_enforced source \<noteq> 0), pf_node_bytes = cpf_node_bytes source,
      pf_effects_bytes = cpf_effects_bytes source,
      pf_max_writes_per_batch = cpf_max_writes_per_batch source,
      pf_max_messages_per_batch = cpf_max_messages_per_batch source,
      pf_max_committed_per_batch = cpf_max_committed_per_batch source,
      pf_max_requests_per_batch = cpf_max_requests_per_batch source,
      pf_capabilities = cpf_capabilities source, pf_fingerprint = cpf_fingerprint source\<rparr>"

subsection \<open>The flat message\<close>

record flat =
  fl_kind :: int
  fl_ballot :: int
  fl_slot :: int
  fl_vote :: int
  fl_first :: int
  fl_last :: int
  fl_rejected :: int
  fl_promised :: int
  fl_decided_through :: int
  fl_trim_id :: int
  fl_trim_slot :: int
  fl_range_count :: int
  fl_scope :: int
  fl_cell_state :: int
  fl_more :: int
  fl_entry :: log_entry

text \<open>\<^verbatim>\<open>Flat(kind)\<close>: every other field takes its default.\<close>

definition flat_of :: "message_kind \<Rightarrow> flat" where
  "flat_of kind = \<lparr>fl_kind = message_kind_value kind, fl_ballot = 0, fl_slot = 0, fl_vote = 0,
     fl_first = 0, fl_last = 0, fl_rejected = 0, fl_promised = 0, fl_decided_through = 0,
     fl_trim_id = 0, fl_trim_slot = 0, fl_range_count = 0, fl_scope = 0, fl_cell_state = 0,
     fl_more = 0, fl_entry = no_entry\<rparr>"

fun flatten :: "message \<Rightarrow> flat" where
  "flatten (Prepare b f l scope) =
     (flat_of MK_PREPARE)\<lparr>fl_ballot := b, fl_first := f, fl_last := l,
        fl_scope := prepare_scope_value scope\<rparr>"
| "flatten (Promise b s v state e) =
     (flat_of MK_PROMISE)\<lparr>fl_ballot := b, fl_slot := s, fl_vote := v,
        fl_cell_state := cell_state_value state, fl_entry := e\<rparr>"
| "flatten (PromiseRange b f l reported has_more d ti ts) =
     (flat_of MK_PROMISE_RANGE)\<lparr>fl_ballot := b, fl_first := f, fl_last := l,
        fl_range_count := reported, fl_more := (if has_more then 1 else 0), fl_decided_through := d,
        fl_trim_id := ti, fl_trim_slot := ts\<rparr>"
| "flatten (Accept b s e) = (flat_of MK_ACCEPT)\<lparr>fl_ballot := b, fl_slot := s, fl_entry := e\<rparr>"
| "flatten (Accepted b s d) =
     (flat_of MK_ACCEPTED)\<lparr>fl_ballot := b, fl_slot := s, fl_decided_through := d\<rparr>"
| "flatten (Commit s e) = (flat_of MK_COMMIT)\<lparr>fl_slot := s, fl_entry := e\<rparr>"
| "flatten (Learn f c) = (flat_of MK_LEARN)\<lparr>fl_first := f, fl_range_count := c\<rparr>"
| "flatten (Nack r p s d) =
     (flat_of MK_NACK)\<lparr>fl_rejected := r, fl_promised := p, fl_slot := s, fl_decided_through := d\<rparr>"
| "flatten (Heartbeat b d) = (flat_of MK_HEARTBEAT)\<lparr>fl_ballot := b, fl_decided_through := d\<rparr>"

definition unflatten :: "flat \<Rightarrow> exn + message" where
  "unflatten fl =
     bindE (index_of all_message_kinds (fl_kind fl)) (\<lambda>kind. case kind of
       MK_PREPARE \<Rightarrow>
         bindE (index_of all_prepare_scopes (fl_scope fl)) (\<lambda>scope.
           Inr (Prepare (fl_ballot fl) (fl_first fl) (fl_last fl) scope))
     | MK_PROMISE \<Rightarrow>
         bindE (index_of all_cell_states (fl_cell_state fl)) (\<lambda>state.
           Inr (Promise (fl_ballot fl) (fl_slot fl) (fl_vote fl) state (fl_entry fl)))
     | MK_PROMISE_RANGE \<Rightarrow>
         Inr (PromiseRange (fl_ballot fl) (fl_first fl) (fl_last fl) (fl_range_count fl)
                (fl_more fl \<noteq> 0) (fl_decided_through fl) (fl_trim_id fl) (fl_trim_slot fl))
     | MK_ACCEPT \<Rightarrow> Inr (Accept (fl_ballot fl) (fl_slot fl) (fl_entry fl))
     | MK_ACCEPTED \<Rightarrow> Inr (Accepted (fl_ballot fl) (fl_slot fl) (fl_decided_through fl))
     | MK_COMMIT \<Rightarrow> Inr (Commit (fl_slot fl) (fl_entry fl))
     | MK_LEARN \<Rightarrow> Inr (Learn (fl_first fl) (fl_range_count fl))
     | MK_NACK \<Rightarrow>
         Inr (Nack (fl_rejected fl) (fl_promised fl) (fl_slot fl) (fl_decided_through fl))
     | MK_HEARTBEAT \<Rightarrow> Inr (Heartbeat (fl_ballot fl) (fl_decided_through fl))
     | MK_NONE \<Rightarrow> Inl ValueErr)"

lemma flat_of_simps [simp]:
  "fl_kind (flat_of k) = message_kind_value k" "fl_ballot (flat_of k) = 0" "fl_slot (flat_of k) = 0"
  "fl_vote (flat_of k) = 0" "fl_first (flat_of k) = 0" "fl_last (flat_of k) = 0"
  "fl_rejected (flat_of k) = 0" "fl_promised (flat_of k) = 0" "fl_decided_through (flat_of k) = 0"
  "fl_trim_id (flat_of k) = 0" "fl_trim_slot (flat_of k) = 0" "fl_range_count (flat_of k) = 0"
  "fl_scope (flat_of k) = 0" "fl_cell_state (flat_of k) = 0" "fl_more (flat_of k) = 0"
  "fl_entry (flat_of k) = no_entry"
  by (simp_all add: flat_of_def)

lemma unflatten_flatten_law [simp]: "unflatten (flatten m) = Inr m"
  by (cases m) (simp_all add: unflatten_def del: message_kind_value.simps)

interpretation flat: round_trip "\<lambda>m. Inr (flatten m)" unflatten "\<lambda>_. True"
  by unfold_locales simp

text \<open>Flattening loses nothing: \<^verbatim>\<open>unflatten(flatten(m))\<close> is \<^verbatim>\<open>m\<close> for every one of the nine message
  classes and all field values.\<close>

lemma unflatten_flatten: "unflatten (flatten m) = Inr m"
  using flat.dec_enc [of m] by simp

end
