(* ===== verification/Marshal.thy ===== *)
theory Marshal
  imports Decode
begin

section \<open>Python values to C records: the helpers of \<^verbatim>\<open>node.py\<close>\<close>

text \<open>
  \<^verbatim>\<open>_fill_entry\<close>, \<^verbatim>\<open>_entry_for\<close>, \<^verbatim>\<open>_fill_write\<close>, \<^verbatim>\<open>_encode_envelope\<close> and \<^verbatim>\<open>_build_config\<close>, with the
  truncation of every \<^verbatim>\<open>ctypes\<close> assignment. \<^verbatim>\<open>PROFILE.max_value_bytes\<close> is the compiled constant
  \<open>MAX_VALUE_BYTES\<close>, to which \<^verbatim>\<open>bridge.odin\<close> sets it.
\<close>

definition fill_entry :: "c_entry \<Rightarrow> bytes \<Rightarrow> exn + c_entry" where
  "fill_entry entry value =
     (if MAX_VALUE_BYTES < length value
      then Inl (err ValueTooLarge [(''supplied'', PInt (int (length value))),
                                   (''limit'', PInt (int MAX_VALUE_BYTES))])
      else (let raw = entry\<lparr>ce_kind := c_u8 (entry_kind_value EK_COMMAND),
                            ce_length := c_u32 (int (length value))\<rparr>
            in copy_body raw value))"

definition entry_for :: "bytes \<Rightarrow> exn + c_entry" where
  "entry_for value = fill_entry zero_entry value"

definition fill_write :: "c_write \<Rightarrow> write_record \<Rightarrow> exn + c_write" where
  "fill_write raw rec =
     (let entry = (cw_entry raw)\<lparr>ce_kind := c_u8 (entry_kind_value (le_kind (wr_entry rec))),
                     ce_length := c_u32 (int (length (le_body (wr_entry rec)))),
                     ce_body := replicate MAX_VALUE_BYTES 0\<rparr>
      in bindE (copy_body entry (le_body (wr_entry rec))) (\<lambda>filled.
         Inr \<lparr>cw_kind = c_u8 (write_kind_value (wr_kind rec)),
              cw_flags = (if wr_requires_barrier rec then 1 else 0),
              cw_ballot = c_u64 (wr_ballot rec), cw_slot = c_u64 (wr_slot rec),
              cw_trim_id = c_u64 (wr_trim_id rec), cw_trim_slot = c_u64 (wr_trim_slot rec),
              cw_entry = filled\<rparr>))"

text \<open>The scratch structure \<^verbatim>\<open>_native.CWrite()\<close> of a replay, as allocated.\<close>

definition zero_write :: c_write where
  "zero_write = \<lparr>cw_kind = 0, cw_flags = 0, cw_ballot = 0, cw_slot = 0, cw_trim_id = 0,
     cw_trim_slot = 0, cw_entry = zero_entry\<rparr>"

definition encode_envelope :: "envelope \<Rightarrow> exn + c_envelope" where
  "encode_envelope env =
     (let fl = flatten (ev_message env);
          entry = zero_entry\<lparr>ce_kind := c_u8 (entry_kind_value (le_kind (fl_entry fl)))\<rparr>;
          body = le_body (fl_entry fl)
      in bindE (if le_kind (fl_entry fl) = EK_COMMAND \<or> le_kind (fl_entry fl) = EK_NOOP
                then (let sized = entry\<lparr>ce_length := c_u32 (int (length body))\<rparr>
                      in copy_body sized body)
                else Inr entry) (\<lambda>filled.
         Inr \<lparr>cv_configuration_id = c_u64 (ev_configuration_id env),
              cv_ballot = c_u64 (fl_ballot fl), cv_slot = c_u64 (fl_slot fl),
              cv_vote = c_u64 (fl_vote fl), cv_first = c_u64 (fl_first fl),
              cv_last = c_u64 (fl_last fl), cv_rejected = c_u64 (fl_rejected fl),
              cv_promised = c_u64 (fl_promised fl),
              cv_decided_through = c_u64 (fl_decided_through fl),
              cv_trim_id = c_u64 (fl_trim_id fl), cv_trim_slot = c_u64 (fl_trim_slot fl),
              cv_kind = c_u32 (fl_kind fl), cv_count = c_u32 (fl_range_count fl),
              cv_sender = c_u16 (ev_sender env), cv_recipient = c_u16 (ev_recipient env),
              cv_scope = c_u8 (fl_scope fl), cv_cell_state = c_u8 (fl_cell_state fl),
              cv_more = c_u8 (fl_more fl), cv_entry = filled\<rparr>))"

text \<open>The keyword arguments of \<^verbatim>\<open>Node.__init__\<close>, and the configuration record they become.\<close>

record node_config =
  nc_node_id :: node_id
  nc_members :: "node_id list"
  nc_configuration_id :: int
  nc_priority :: int
  nc_read_quorum :: int
  nc_write_quorum :: int
  nc_election_timeout_ticks :: int
  nc_heartbeat_interval_ticks :: int
  nc_resend_interval_ticks :: int
  nc_campaign_disabled :: bool
  nc_gate_proposals :: bool

definition build_config :: "node_config \<Rightarrow> exn + c_config" where
  "build_config nc =
     (if MAX_MEMBERS < length (nc_members nc)
      then Inl (err ValueTooLarge [(''supplied'', PInt (int (length (nc_members nc)))),
                                   (''limit'', PInt (int MAX_MEMBERS))])
      else Inr \<lparr>cf_configuration_id = c_u64 (nc_configuration_id nc),
                cf_members = map c_u16 (nc_members nc)
                  @ replicate (MAX_MEMBERS - length (nc_members nc)) 0,
                cf_member_count = int (length (nc_members nc)),
                cf_read_quorum = c_u32 (nc_read_quorum nc),
                cf_write_quorum = c_u32 (nc_write_quorum nc),
                cf_election_timeout_ticks = c_u32 (nc_election_timeout_ticks nc),
                cf_heartbeat_interval_ticks = c_u32 (nc_heartbeat_interval_ticks nc),
                cf_resend_interval_ticks = c_u32 (nc_resend_interval_ticks nc),
                cf_flags = (if nc_campaign_disabled nc then 1 else 0)
                         + (if nc_gate_proposals nc then 2 else 0),
                cf_node_id = c_u16 (nc_node_id nc),
                cf_priority = c_u8 (nc_priority nc)\<rparr>)"

subsection \<open>Values both sides of the boundary represent exactly\<close>

definition flat_in_range :: "flat \<Rightarrow> bool" where
  "flat_in_range fl =
     (is_u64 (fl_ballot fl) \<and> is_u64 (fl_slot fl) \<and> is_u64 (fl_vote fl) \<and> is_u64 (fl_first fl)
      \<and> is_u64 (fl_last fl) \<and> is_u64 (fl_rejected fl) \<and> is_u64 (fl_promised fl)
      \<and> is_u64 (fl_decided_through fl) \<and> is_u64 (fl_trim_id fl) \<and> is_u64 (fl_trim_slot fl)
      \<and> is_u32 (fl_range_count fl))"

text \<open>An entry the boundary can carry: a command or no-op of at most 1024 bytes, or no entry.\<close>

definition entry_carried :: "log_entry \<Rightarrow> bool" where
  "entry_carried e =
     (length (le_body e) \<le> MAX_VALUE_BYTES \<and> le_stop_sign e = None
      \<and> (case le_kind e of EK_NONE \<Rightarrow> le_body e = [] | EK_STOP_SIGN \<Rightarrow> False | _ \<Rightarrow> True))"

definition envelope_in_range :: "envelope \<Rightarrow> bool" where
  "envelope_in_range env =
     (is_u64 (ev_configuration_id env) \<and> is_u16 (ev_sender env) \<and> is_u16 (ev_recipient env)
      \<and> flat_in_range (flatten (ev_message env)) \<and> entry_carried (fl_entry (flatten (ev_message env))))"

lemma entry_carried_no_entry [simp]: "entry_carried no_entry"
  by (simp add: entry_carried_def no_entry_def)

lemma c_tag_entry [simp]: "c_u8 (entry_kind_value k) = entry_kind_value k"
  by (cases k) (simp_all add: c_u8_def)

lemma c_tag_write [simp]: "c_u8 (write_kind_value w) = write_kind_value w"
  by (cases w) (simp_all add: c_u8_def)

lemma c_tag_message [simp]: "c_u32 (message_kind_value m) = message_kind_value m"
  by (cases m) (simp_all add: c_u32_def)

lemma c_tag_scope [simp]: "c_u8 (prepare_scope_value p) = prepare_scope_value p"
  by (cases p) (simp_all add: c_u8_def)

lemma c_tag_cell [simp]: "c_u8 (cell_state_value c) = cell_state_value c"
  by (cases c) (simp_all add: c_u8_def)

lemma c_small [simp]: "c_u64 0 = 0" "c_u32 0 = 0" "c_u8 0 = 0" "c_u8 1 = 1"
  by (simp_all add: c_u64_def c_u32_def c_u8_def)

lemma c_u32_length [simp]: "length b \<le> MAX_VALUE_BYTES \<Longrightarrow> c_u32 (int (length b)) = int (length b)"
  by (simp add: c_u32_def MAX_VALUE_BYTES_def)

text \<open>The entry part of \<^verbatim>\<open>_encode_envelope\<close>, named for the proofs.\<close>

definition envelope_entry :: "log_entry \<Rightarrow> exn + c_entry" where
  "envelope_entry e =
     (let entry = zero_entry\<lparr>ce_kind := c_u8 (entry_kind_value (le_kind e))\<rparr>
      in if le_kind e = EK_COMMAND \<or> le_kind e = EK_NOOP
         then (let sized = entry\<lparr>ce_length := c_u32 (int (length (le_body e)))\<rparr>
               in copy_body sized (le_body e))
         else Inr entry)"

lemma decode_carried:
  assumes "entry_carried e" and "ce_kind raw = entry_kind_value (le_kind e)"
    and "le_kind e \<noteq> EK_NONE \<Longrightarrow> ce_length raw = int (length (le_body e))"
  shows "decode_entry (raw\<lparr>ce_body := le_body e @ rest\<rparr>) = Inr e"
proof (cases "le_kind e = EK_NONE")
  case True
  with assms(1) have "e = no_entry"
    by (cases e) (simp add: entry_carried_def no_entry_def mk_entry_def)
  with assms(2) show ?thesis
    by (simp add: decode_entry_def no_entry_def del: entry_kind_value.simps)
next
  case False
  with assms have "le_kind e \<noteq> EK_STOP_SIGN" and "le_stop_sign e = None"
    by (auto simp: entry_carried_def)
  with False assms(2,3) show ?thesis
    using mk_entry_eta [of e] by (simp add: decode_entry_def del: entry_kind_value.simps)
qed

lemma decode_envelope_entry:
  assumes "entry_carried e"
  shows "\<exists>raw. envelope_entry e = Inr raw \<and> decode_entry raw = Inr e"
proof (cases "le_kind e = EK_NONE")
  case True
  have "envelope_entry e = Inr (zero_entry\<lparr>ce_kind := entry_kind_value (le_kind e)\<rparr>)"
    using True by (simp add: envelope_entry_def Let_def del: entry_kind_value.simps)
  moreover have "decode_entry (zero_entry\<lparr>ce_kind := entry_kind_value (le_kind e)\<rparr>) = Inr e"
    using decode_carried [OF assms, of "zero_entry\<lparr>ce_kind := entry_kind_value (le_kind e)\<rparr>"
        "ce_body zero_entry"] True assms
    by (simp add: entry_carried_def del: entry_kind_value.simps)
  ultimately show ?thesis by blast
next
  case False
  with assms have k: "le_kind e = EK_COMMAND \<or> le_kind e = EK_NOOP"
    and len: "length (le_body e) \<le> MAX_VALUE_BYTES"
    by (cases "le_kind e"; simp add: entry_carried_def)+
  show ?thesis
    using k len decode_carried [OF assms]
    by (auto simp: envelope_entry_def Let_def copy_body_ok simp del: entry_kind_value.simps)
qed

lemma encode_envelope_entry:
  "encode_envelope env =
     (let fl = flatten (ev_message env)
      in bindE (envelope_entry (fl_entry fl)) (\<lambda>filled.
         Inr \<lparr>cv_configuration_id = c_u64 (ev_configuration_id env),
              cv_ballot = c_u64 (fl_ballot fl), cv_slot = c_u64 (fl_slot fl),
              cv_vote = c_u64 (fl_vote fl), cv_first = c_u64 (fl_first fl),
              cv_last = c_u64 (fl_last fl), cv_rejected = c_u64 (fl_rejected fl),
              cv_promised = c_u64 (fl_promised fl),
              cv_decided_through = c_u64 (fl_decided_through fl),
              cv_trim_id = c_u64 (fl_trim_id fl), cv_trim_slot = c_u64 (fl_trim_slot fl),
              cv_kind = c_u32 (fl_kind fl), cv_count = c_u32 (fl_range_count fl),
              cv_sender = c_u16 (ev_sender env), cv_recipient = c_u16 (ev_recipient env),
              cv_scope = c_u8 (fl_scope fl), cv_cell_state = c_u8 (fl_cell_state fl),
              cv_more = c_u8 (fl_more fl), cv_entry = filled\<rparr>))"
  by (simp add: encode_envelope_def envelope_entry_def Let_def)

lemma encode_envelope_law:
  assumes "envelope_in_range env"
  shows "\<exists>raw. encode_envelope env = Inr raw \<and> decode_envelope raw = Inr env"
proof -
  obtain raw where raw: "envelope_entry (fl_entry (flatten (ev_message env))) = Inr raw"
    and dec: "decode_entry raw = Inr (fl_entry (flatten (ev_message env)))"
    using decode_envelope_entry assms by (auto simp: envelope_in_range_def)
  have "ev_message env = m \<Longrightarrow> ?thesis" for m
    using assms raw dec
    by (cases m) (simp_all add: encode_envelope_entry decode_envelope_def decode_message_def Let_def
          envelope_in_range_def flat_in_range_def del: message_kind_value.simps
          prepare_scope_value.simps cell_state_value.simps)
  then show ?thesis by blast
qed

interpretation abi: round_trip encode_envelope decode_envelope envelope_in_range
  by unfold_locales (rule encode_envelope_law)

text \<open>C36: An envelope whose fields fit their C types crosses the native boundary unchanged:
  \<^verbatim>\<open>_encode_envelope\<close> builds a record, without a buffer overrun, and \<^verbatim>\<open>_decode.envelope\<close> of that record is
  the envelope. (Fields are at most 64, 32 and 16 bits wide, the entry is a command or no-op of at
  most 1024 bytes or no entry.)\<close>

theorem abi_envelope_round_trip:
  assumes "envelope_in_range env"
  shows "\<exists>raw. encode_envelope env = Inr raw \<and> decode_envelope raw = Inr env"
  using assms by (rule abi.dec_enc)

theorem abi_envelope_round_trip_witness:
  "\<exists>raw. encode_envelope \<lparr>ev_configuration_id = 1, ev_sender = 1, ev_recipient = 2,
       ev_message = Promise 16777217 5 16777216 CS_VOTED (mk_entry EK_COMMAND [7, 8])\<rparr> = Inr raw
     \<and> decode_envelope raw = Inr \<lparr>ev_configuration_id = 1, ev_sender = 1, ev_recipient = 2,
       ev_message = Promise 16777217 5 16777216 CS_VOTED (mk_entry EK_COMMAND [7, 8])\<rparr>"
  by (rule abi_envelope_round_trip)
     (simp add: envelope_in_range_def flat_in_range_def entry_carried_def is_width_defs
        MAX_VALUE_BYTES_def)

text \<open>A command crosses the boundary unchanged or is refused whole: what \<^verbatim>\<open>_entry_for\<close> builds decodes to
  a \<^verbatim>\<open>COMMAND\<close> entry with the same bytes (an empty command included), and a value of more than 1024
  bytes is \<^verbatim>\<open>ValueTooLarge\<close> with nothing written.\<close>

lemma command_crosses:
  "bindE (entry_for value) decode_entry =
     (if MAX_VALUE_BYTES < length value
      then Inl (err ValueTooLarge [(''supplied'', PInt (int (length value))),
                                   (''limit'', PInt (int MAX_VALUE_BYTES))])
      else Inr (mk_entry EK_COMMAND value))"
proof (cases "MAX_VALUE_BYTES < length value")
  case True
  then show ?thesis by (simp add: entry_for_def fill_entry_def)
next
  case False
  then have len: "length value \<le> MAX_VALUE_BYTES" by simp
  have "index_of all_entry_kinds 1 = Inr EK_COMMAND"
    using index_of_value(1) [of EK_COMMAND] by simp
  with len show ?thesis
    by (simp add: entry_for_def fill_entry_def Let_def copy_body_ok decode_entry_def c_u8_def)
qed

definition record_in_range :: "write_record \<Rightarrow> bool" where
  "record_in_range rec =
     (is_u64 (wr_ballot rec) \<and> is_u64 (wr_slot rec) \<and> is_u64 (wr_trim_id rec)
      \<and> is_u64 (wr_trim_slot rec) \<and> entry_carried (wr_entry rec))"

lemma fill_write_law:
  assumes "record_in_range rec"
  shows "\<exists>raw'. fill_write raw rec = Inr raw' \<and> decode_write raw' = Inr rec"
proof -
  have carried: "entry_carried (wr_entry rec)" and len: "length (le_body (wr_entry rec)) \<le> MAX_VALUE_BYTES"
    using assms by (auto simp: record_in_range_def entry_carried_def)
  show ?thesis
    using assms decode_carried [OF carried] len
    by (simp add: fill_write_def decode_write_def Let_def copy_body_ok record_in_range_def
          del: entry_kind_value.simps write_kind_value.simps)
qed

interpretation abi_write: round_trip "fill_write raw" decode_write record_in_range for raw
  by unfold_locales (rule fill_write_law)

text \<open>Journal records whose fields fit their C types are handed to the native replay unchanged: each
  \<^verbatim>\<open>_fill_write\<close> of \<^verbatim>\<open>Node.restore\<close>, whatever the previous record left in the scratch structure, decodes
  back to its record, and two different records never fill one structure alike.\<close>

lemma abi_write_round_trip:
  assumes "record_in_range rec" and "record_in_range rec'"
  shows "(\<exists>raw'. fill_write raw rec = Inr raw' \<and> decode_write raw' = Inr rec)
    \<and> (fill_write raw rec = fill_write raw rec' \<longleftrightarrow> rec = rec')"
  using abi_write.dec_enc [OF assms(1)] abi_write.enc_inj [OF assms] by blast

text \<open>\<^verbatim>\<open>_encode_envelope\<close> does not check the length of a command or no-op, unlike \<^verbatim>\<open>_fill_entry\<close>: an
  entry of more than 1024 bytes makes its \<^verbatim>\<open>memmove\<close> run past the body array.\<close>

lemma encode_envelope_overrun:
  assumes "message_entry (ev_message env) = Some e" and "le_kind e \<in> {EK_COMMAND, EK_NOOP}"
    and "MAX_VALUE_BYTES < length (le_body e)"
  shows "encode_envelope env = Inl BufferOverrun"
proof -
  have "fl_entry (flatten (ev_message env)) = e"
    using assms(1) by (cases "ev_message env") simp_all
  with assms(2,3) show ?thesis
    by (auto simp: encode_envelope_def Let_def copy_body_def memmove_body_def)
qed

text \<open>\<^verbatim>\<open>_build_config\<close> keeps the low 16 bits of an identity: a node id and the same id plus 65536
  give the same native configuration, so one member opens as another.\<close>

lemma build_config_alias:
  "build_config (nc\<lparr>nc_node_id := nc_node_id nc + 65536\<rparr>) = build_config nc"
  by (simp add: build_config_def c_u16_def)

end
