(* ===== verification/Codec.thy ===== *)
theory Codec
  imports Py_Struct Marshal
begin

section \<open>The wire codec of \<^verbatim>\<open>codec.py\<close>\<close>

text \<open>
  \<^verbatim>\<open>encode\<close>, \<^verbatim>\<open>_validate_frame\<close> and \<^verbatim>\<open>decode\<close> over byte strings. The profile fingerprint that
  \<^verbatim>\<open>_native.PROFILE\<close> holds is the argument \<open>fp\<close>. The lemmas show that a frame decodes to the envelope
  it encodes, that any byte string at all is either decoded or refused with one of the two documented
  exceptions, and that what is decoded is safe to hand to the native core.
\<close>

definition MAGIC :: bytes where "MAGIC = [0x50, 0x58, 0x44, 0x4E]"
definition WIRE_VERSION :: int where "WIRE_VERSION = 1"

text \<open>The format string of \<^verbatim>\<open>_HEADER\<close>, field by field.\<close>

definition HEADER :: "sfield list" where
  "HEADER = [FStr 4, fH, fQ, fQ, fH, fH, fB, fB, fB, fB,
             fQ, fQ, fQ, fQ, fQ, fQ, fQ, fQ, fQ, fQ, fI, fB, fI]"

definition HEADER_SIZE :: nat where "HEADER_SIZE = calcsize HEADER"

definition MAX_FRAME_SIZE :: nat where "MAX_FRAME_SIZE = HEADER_SIZE + MAX_VALUE_BYTES"

record wire_header =
  wh_magic :: bytes
  wh_version :: int
  wh_fingerprint :: int
  wh_configuration_id :: int
  wh_sender :: int
  wh_recipient :: int
  wh_kind :: int
  wh_scope :: int
  wh_cell_state :: int
  wh_more :: int
  wh_ballot :: int
  wh_slot :: int
  wh_vote :: int
  wh_first :: int
  wh_last :: int
  wh_rejected :: int
  wh_promised :: int
  wh_decided_through :: int
  wh_trim_id :: int
  wh_trim_slot :: int
  wh_range_count :: int
  wh_entry_kind :: int
  wh_entry_length :: int

text \<open>\<^verbatim>\<open>_Header._make\<close> on the 23 unpacked values.\<close>

definition header_make :: "sval list \<Rightarrow> wire_header" where
  "header_make vs =
     \<lparr>wh_magic = sbytes (vs ! 0), wh_version = sint (vs ! 1), wh_fingerprint = sint (vs ! 2),
      wh_configuration_id = sint (vs ! 3), wh_sender = sint (vs ! 4), wh_recipient = sint (vs ! 5),
      wh_kind = sint (vs ! 6), wh_scope = sint (vs ! 7), wh_cell_state = sint (vs ! 8),
      wh_more = sint (vs ! 9), wh_ballot = sint (vs ! 10), wh_slot = sint (vs ! 11),
      wh_vote = sint (vs ! 12), wh_first = sint (vs ! 13), wh_last = sint (vs ! 14),
      wh_rejected = sint (vs ! 15), wh_promised = sint (vs ! 16),
      wh_decided_through = sint (vs ! 17), wh_trim_id = sint (vs ! 18),
      wh_trim_slot = sint (vs ! 19), wh_range_count = sint (vs ! 20),
      wh_entry_kind = sint (vs ! 21), wh_entry_length = sint (vs ! 22)\<rparr>"

definition header_values :: "int \<Rightarrow> envelope \<Rightarrow> sval list" where
  "header_values fp env =
     (let fl = flatten (ev_message env)
      in [SBytes MAGIC, SInt WIRE_VERSION, SInt fp, SInt (ev_configuration_id env),
          SInt (ev_sender env), SInt (ev_recipient env), SInt (fl_kind fl), SInt (fl_scope fl),
          SInt (fl_cell_state fl), SInt (fl_more fl), SInt (fl_ballot fl), SInt (fl_slot fl),
          SInt (fl_vote fl), SInt (fl_first fl), SInt (fl_last fl), SInt (fl_rejected fl),
          SInt (fl_promised fl), SInt (fl_decided_through fl), SInt (fl_trim_id fl),
          SInt (fl_trim_slot fl), SInt (fl_range_count fl),
          SInt (entry_kind_value (le_kind (fl_entry fl))),
          SInt (int (length (le_body (fl_entry fl))))])"

definition encode :: "int \<Rightarrow> envelope \<Rightarrow> exn + bytes" where
  "encode fp env =
     (let body = le_body (fl_entry (flatten (ev_message env)))
      in if MAX_VALUE_BYTES < length body
         then Inl (err InvalidArgument [(''supplied'', PInt (int (length body))),
                                        (''limit'', PInt (int MAX_VALUE_BYTES))])
         else case pack HEADER (header_values fp env) of
                None \<Rightarrow> Inl StructError
              | Some header \<Rightarrow> Inr (header @ body))"

definition refuse :: "string \<Rightarrow> int \<Rightarrow> string \<Rightarrow> int \<Rightarrow> exn + 'a" where
  "refuse k1 v1 k2 v2 = Inl (err InvalidArgument [(k1, PInt v1), (k2, PInt v2)])"

definition validate_frame :: "int \<Rightarrow> bytes \<Rightarrow> exn + wire_header" where
  "validate_frame fp frame =
     (if length frame < HEADER_SIZE
      then refuse ''size'' (int (length frame)) ''minimum'' (int HEADER_SIZE)
      else if MAX_FRAME_SIZE < length frame
      then refuse ''size'' (int (length frame)) ''maximum'' (int MAX_FRAME_SIZE)
      else case unpack_from HEADER frame of
        None \<Rightarrow> Inl StructError
      | Some vs \<Rightarrow>
         (let h = header_make vs
          in if wh_magic h \<noteq> MAGIC then Inl (err InvalidArgument [(''magic'', PBytes (wh_magic h))])
             else if wh_version h \<noteq> WIRE_VERSION
             then refuse ''wire_version'' (wh_version h) ''supported'' WIRE_VERSION
             else if wh_fingerprint h \<noteq> fp
             then refuse ''peer_profile'' (wh_fingerprint h) ''local_profile'' fp
             else if wh_sender h = 0 \<or> wh_recipient h = 0
             then refuse ''sender'' (wh_sender h) ''recipient'' (wh_recipient h)
             else if enum_call message_kind_value all_message_kinds (wh_kind h) = None
                     \<or> wh_kind h = message_kind_value MK_NONE
             then Inl (err UnsupportedKind [(''message_kind'', PInt (wh_kind h))])
             else if enum_call entry_kind_value all_entry_kinds (wh_entry_kind h) = None
             then Inl (err UnsupportedKind [(''entry_kind'', PInt (wh_entry_kind h))])
             else if enum_call cell_state_value all_cell_states (wh_cell_state h) = None
             then Inl (err UnsupportedKind [(''cell_state'', PInt (wh_cell_state h))])
             else if 1 < wh_scope h
             then Inl (err UnsupportedKind [(''scope'', PInt (wh_scope h))])
             else if int MAX_VALUE_BYTES < wh_entry_length h
             then refuse ''entry_length'' (wh_entry_length h) ''limit'' (int MAX_VALUE_BYTES)
             else if int (length frame) \<noteq> int HEADER_SIZE + wh_entry_length h
             then refuse ''size'' (int (length frame))
                         ''declared'' (int HEADER_SIZE + wh_entry_length h)
             else Inr h))"

definition decode :: "int \<Rightarrow> bytes \<Rightarrow> exn + envelope" where
  "decode fp frame =
     bindE (validate_frame fp frame) (\<lambda>h.
       case enum_call entry_kind_value all_entry_kinds (wh_entry_kind h) of
         None \<Rightarrow> Inl ValueErr
       | Some kind \<Rightarrow>
         bindE (unflatten
           \<lparr>fl_kind = wh_kind h, fl_ballot = wh_ballot h, fl_slot = wh_slot h,
            fl_vote = wh_vote h, fl_first = wh_first h, fl_last = wh_last h,
            fl_rejected = wh_rejected h, fl_promised = wh_promised h,
            fl_decided_through = wh_decided_through h, fl_trim_id = wh_trim_id h,
            fl_trim_slot = wh_trim_slot h, fl_range_count = wh_range_count h,
            fl_scope = wh_scope h, fl_cell_state = wh_cell_state h, fl_more = wh_more h,
            fl_entry = mk_entry kind (drop HEADER_SIZE frame)\<rparr>) (\<lambda>message.
           Inr \<lparr>ev_configuration_id = wh_configuration_id h, ev_sender = wh_sender h,
                ev_recipient = wh_recipient h, ev_message = message\<rparr>))"

lemma HEADER_SIZE_value [simp]: "HEADER_SIZE = 119" "calcsize HEADER = 119"
  by (simp_all add: HEADER_SIZE_def HEADER_def)

subsection \<open>What the wire can carry\<close>

definition wire_in_range :: "envelope \<Rightarrow> bool" where
  "wire_in_range env =
     (is_u64 (ev_configuration_id env) \<and> is_u16 (ev_sender env) \<and> is_u16 (ev_recipient env)
      \<and> ev_sender env \<noteq> 0 \<and> ev_recipient env \<noteq> 0 \<and> flat_in_range (flatten (ev_message env))
      \<and> length (le_body (fl_entry (flatten (ev_message env)))) \<le> MAX_VALUE_BYTES
      \<and> le_stop_sign (fl_entry (flatten (ev_message env))) = None)"

lemma flatten_tags:
  "0 \<le> fl_kind (flatten m)" "fl_kind (flatten m) < 256"
  "0 \<le> fl_scope (flatten m)" "fl_scope (flatten m) \<le> 1"
  "0 \<le> fl_cell_state (flatten m)" "fl_cell_state (flatten m) < 256"
  "0 \<le> fl_more (flatten m)" "fl_more (flatten m) < 256"
  using prepare_scope_bounds cell_state_bounds
  by (cases m; simp add: order_le_less_trans [OF cell_state_bounds(2)])+

lemma header_fits:
  assumes "is_u64 fp" and "wire_in_range env"
  shows "list_all2 fits HEADER (header_values fp env)"
  using assms flatten_tags [of "ev_message env"] entry_kind_bounds [of "le_kind (fl_entry (flatten (ev_message env)))"]
  by (simp add: HEADER_def header_values_def Let_def MAGIC_def WIRE_VERSION_def wire_in_range_def
      flat_in_range_def is_width_defs MAX_VALUE_BYTES_def)

lemma message_kind_call_iff:
  "enum_call message_kind_value all_message_kinds v = Some k \<longleftrightarrow> message_kind_value k = v"
  using enum_call_SomeD message_kind_of_value(1) by metis

lemma cell_state_call [simp]:
  "enum_call cell_state_value all_cell_states (cell_state_value c) = Some c"
  by (cases c) (simp_all add: enum_call_def all_cell_states_def)

lemma flatten_kind: "\<exists>k. fl_kind (flatten m) = message_kind_value k \<and> k \<noteq> MK_NONE"
  by (cases m) (auto intro: exI [of _ MK_PREPARE] exI [of _ MK_PROMISE] exI [of _ MK_PROMISE_RANGE]
      exI [of _ MK_ACCEPT] exI [of _ MK_ACCEPTED] exI [of _ MK_COMMIT] exI [of _ MK_LEARN]
      exI [of _ MK_NACK] exI [of _ MK_HEARTBEAT])

lemma flatten_cell: "\<exists>c. fl_cell_state (flatten m) = cell_state_value c"
  by (cases m) (auto intro: exI [of _ CS_EMPTY])

lemma kind_not_none: "k \<noteq> MK_NONE \<Longrightarrow> message_kind_value k \<noteq> 0"
  by (cases k) simp_all

text \<open>The header an encoder writes, read back.\<close>

lemma header_make_values:
  "header_make (header_values fp env) =
     (let fl = flatten (ev_message env)
      in \<lparr>wh_magic = MAGIC, wh_version = WIRE_VERSION, wh_fingerprint = fp,
          wh_configuration_id = ev_configuration_id env, wh_sender = ev_sender env,
          wh_recipient = ev_recipient env, wh_kind = fl_kind fl, wh_scope = fl_scope fl,
          wh_cell_state = fl_cell_state fl, wh_more = fl_more fl, wh_ballot = fl_ballot fl,
          wh_slot = fl_slot fl, wh_vote = fl_vote fl, wh_first = fl_first fl,
          wh_last = fl_last fl, wh_rejected = fl_rejected fl, wh_promised = fl_promised fl,
          wh_decided_through = fl_decided_through fl, wh_trim_id = fl_trim_id fl,
          wh_trim_slot = fl_trim_slot fl, wh_range_count = fl_range_count fl,
          wh_entry_kind = entry_kind_value (le_kind (fl_entry fl)),
          wh_entry_length = int (length (le_body (fl_entry fl)))\<rparr>)"
  by (simp add: header_make_def header_values_def Let_def)

lemma encode_frame:
  assumes "is_u64 fp" and "wire_in_range env"
  shows "\<exists>header. encode fp env = Inr (header @ le_body (fl_entry (flatten (ev_message env))))
    \<and> length header = HEADER_SIZE
    \<and> (\<forall>rest. unpack_from HEADER (header @ rest) = Some (header_values fp env))"
proof -
  obtain header where h: "pack HEADER (header_values fp env) = Some header"
    using pack_fits [OF header_fits [OF assms]] by blast
  moreover have "length header = HEADER_SIZE"
    using pack_length [OF h] by (simp add: HEADER_SIZE_def)
  moreover have "unpack_from HEADER (header @ rest) = Some (header_values fp env)" for rest
    using header_fits [OF assms] h by (rule unpack_from_pack)
  ultimately show ?thesis
    using assms(2) by (auto simp: encode_def Let_def wire_in_range_def)
qed

lemma validate_encoded:
  assumes "is_u64 fp" and "wire_in_range env" and "encode fp env = Inr frame"
  shows "validate_frame fp frame = Inr (header_make (header_values fp env))"
proof -
  let ?fl = "flatten (ev_message env)"
  obtain header where f: "frame = header @ le_body (fl_entry ?fl)" and l: "length header = HEADER_SIZE"
    and u: "\<And>rest. unpack_from HEADER (header @ rest) = Some (header_values fp env)"
    using encode_frame [OF assms(1,2)] assms(3) by auto
  obtain k c where k: "fl_kind ?fl = message_kind_value k" "k \<noteq> MK_NONE"
    and c: "fl_cell_state ?fl = cell_state_value c"
    using flatten_kind flatten_cell by metis
  have "\<not> 1 < fl_scope ?fl" using flatten_tags(4) [of "ev_message env"] by simp
  with k c show ?thesis
    using assms(2) l kind_not_none [OF k(2)]
    by (simp add: validate_frame_def f u header_make_values Let_def wire_in_range_def
        MAX_FRAME_SIZE_def enum_simps)
qed

lemma flat_eta:
  "\<lparr>fl_kind = fl_kind f, fl_ballot = fl_ballot f, fl_slot = fl_slot f, fl_vote = fl_vote f,
    fl_first = fl_first f, fl_last = fl_last f, fl_rejected = fl_rejected f,
    fl_promised = fl_promised f, fl_decided_through = fl_decided_through f,
    fl_trim_id = fl_trim_id f, fl_trim_slot = fl_trim_slot f,
    fl_range_count = fl_range_count f, fl_scope = fl_scope f,
    fl_cell_state = fl_cell_state f, fl_more = fl_more f, fl_entry = fl_entry f\<rparr> = f"
  by (cases f) simp

lemma decode_encode_law:
  assumes "is_u64 fp" and "wire_in_range env"
  shows "\<exists>frame. encode fp env = Inr frame \<and> decode fp frame = Inr env"
proof -
  let ?fl = "flatten (ev_message env)"
  obtain header where f: "encode fp env = Inr (header @ le_body (fl_entry ?fl))"
    and l: "length header = HEADER_SIZE"
    using encode_frame [OF assms] by auto
  have "mk_entry (le_kind (fl_entry ?fl)) (le_body (fl_entry ?fl)) = fl_entry ?fl"
    using assms(2) by (intro mk_entry_eta) (simp add: wire_in_range_def)
  then show ?thesis
    using f l validate_encoded [OF assms f] unflatten_flatten_law
    by (simp add: decode_def header_make_values Let_def enum_simps flat_eta)
qed

interpretation wire: round_trip "encode (c_u64 fp)" "decode (c_u64 fp)" wire_in_range for fp
  by unfold_locales (rule decode_encode_law, simp_all)

text \<open>C28: A frame carries exactly one envelope: for every envelope whose fields fit the header,
  \<^verbatim>\<open>encode\<close> succeeds and \<^verbatim>\<open>decode\<close> of the frame is that envelope, all nine message kinds alike.
  (A sealing record does not fit: the header has no field for it.)\<close>

theorem wire_round_trip:
  assumes "is_u64 fp" and "wire_in_range env"
  shows "\<exists>frame. encode fp env = Inr frame \<and> decode fp frame = Inr env"
  using wire.dec_enc [of env fp] assms by simp

theorem wire_round_trip_witness:
  "\<exists>frame. encode 77 \<lparr>ev_configuration_id = 9, ev_sender = 1, ev_recipient = 2,
      ev_message = Accept 65537 4 (mk_entry EK_COMMAND [1, 2, 3])\<rparr> = Inr frame
    \<and> decode 77 frame = Inr \<lparr>ev_configuration_id = 9, ev_sender = 1, ev_recipient = 2,
      ev_message = Accept 65537 4 (mk_entry EK_COMMAND [1, 2, 3])\<rparr>"
  by (rule wire_round_trip)
     (simp_all add: wire_in_range_def flat_in_range_def is_width_defs MAX_VALUE_BYTES_def)

subsection \<open>What a hostile peer can do\<close>

text \<open>Every header an unpack produces has its integers within their field widths.\<close>

definition header_in_range :: "wire_header \<Rightarrow> bool" where
  "header_in_range h =
     (is_u64 (wh_configuration_id h) \<and> is_u16 (wh_sender h) \<and> is_u16 (wh_recipient h)
      \<and> is_u64 (wh_ballot h) \<and> is_u64 (wh_slot h) \<and> is_u64 (wh_vote h) \<and> is_u64 (wh_first h)
      \<and> is_u64 (wh_last h) \<and> is_u64 (wh_rejected h) \<and> is_u64 (wh_promised h)
      \<and> is_u64 (wh_decided_through h) \<and> is_u64 (wh_trim_id h) \<and> is_u64 (wh_trim_slot h)
      \<and> is_u32 (wh_range_count h) \<and> 0 \<le> wh_kind h \<and> 0 \<le> wh_cell_state h \<and> 0 \<le> wh_scope h)"

lemma fits_uint: "fits (FUInt n) v \<Longrightarrow> 0 \<le> sint v \<and> sint v < 256 ^ n"
  by (cases v) auto

lemma fits_nth: "list_all2 fits fmt vs \<Longrightarrow> i < length fmt \<Longrightarrow> fmt ! i = FUInt n
    \<Longrightarrow> 0 \<le> sint (vs ! i) \<and> sint (vs ! i) < 256 ^ n"
  by (metis fits_uint list_all2_nthD)

lemma unpacked_header_in_range:
  assumes "unpack_from HEADER frame = Some vs"
  shows "header_in_range (header_make vs)"
proof -
  have f: "list_all2 fits HEADER vs"
    using assms unpack_all_fits by (auto simp: unpack_from_def split: if_splits)
  show ?thesis
    using fits_nth [OF f, of 3 8] fits_nth [OF f, of 4 2] fits_nth [OF f, of 5 2]
      fits_nth [OF f, of 6 1] fits_nth [OF f, of 7 1] fits_nth [OF f, of 8 1]
      fits_nth [OF f, of 10 8] fits_nth [OF f, of 11 8] fits_nth [OF f, of 12 8]
      fits_nth [OF f, of 13 8] fits_nth [OF f, of 14 8] fits_nth [OF f, of 15 8]
      fits_nth [OF f, of 16 8] fits_nth [OF f, of 17 8] fits_nth [OF f, of 18 8]
      fits_nth [OF f, of 19 8] fits_nth [OF f, of 20 4]
    by (simp add: HEADER_def header_in_range_def header_make_def is_width_defs)
qed

lemma kind_foundI: "message_kind_value y = v \<Longrightarrow> v \<noteq> 0 \<Longrightarrow> \<exists>k. message_kind_value k = v \<and> k \<noteq> MK_NONE"
  by (metis message_kind_value.simps(1))

text \<open>The guards of \<^verbatim>\<open>_validate_frame\<close>, as the facts they leave on acceptance.\<close>

lemma validate_frame_InrD:
  assumes "validate_frame fp frame = Inr h"
  shows "header_in_range h" and "wh_sender h \<noteq> 0" and "wh_recipient h \<noteq> 0"
    and "\<exists>k. message_kind_value k = wh_kind h \<and> k \<noteq> MK_NONE"
    and "\<exists>k. entry_kind_value k = wh_entry_kind h" and "\<exists>c. cell_state_value c = wh_cell_state h"
    and "wh_scope h \<le> 1" and "wh_fingerprint h = fp"
    and "HEADER_SIZE \<le> length frame" and "length frame \<le> MAX_FRAME_SIZE"
    and "int (length frame) = int HEADER_SIZE + wh_entry_length h"
    and "wh_entry_length h \<le> int MAX_VALUE_BYTES"
proof -
  obtain vs where u: "unpack_from HEADER frame = Some vs" and h: "h = header_make vs"
    using assms by (auto simp: validate_frame_def refuse_def Let_def split: if_splits option.splits)
  show "header_in_range h" using unpacked_header_in_range [OF u] by (simp add: h)
qed (use assms in \<open>auto simp: validate_frame_def refuse_def Let_def dest!: enum_call_SomeD
      intro: kind_foundI split: if_splits option.splits\<close>)

lemma validate_frame_unpacks:
  assumes "validate_frame fp frame = Inr h"
  shows "\<exists>vs. unpack_from HEADER frame = Some vs \<and> h = header_make vs \<and> wh_magic h = MAGIC
    \<and> wh_version h = WIRE_VERSION"
  using assms by (auto simp: validate_frame_def refuse_def Let_def split: if_splits option.splits)

lemma validate_frame_InlD:
  assumes "validate_frame fp frame = Inl e"
  shows "(\<exists>c. e = err InvalidArgument c) \<or> (\<exists>c. e = err UnsupportedKind c)"
proof -
  have "HEADER_SIZE \<le> length frame \<Longrightarrow> \<exists>vs. unpack_from HEADER frame = Some vs"
    by (simp add: unpack_from_def)
  with assms show ?thesis
    by (auto simp: validate_frame_def refuse_def Let_def split: if_splits option.splits)
qed

lemma index_of_scope: "0 \<le> v \<Longrightarrow> v \<le> 1 \<Longrightarrow> \<exists>s. index_of all_prepare_scopes v = Inr s"
  by (auto simp: index_of_def all_prepare_scopes_def py_index_def)

lemma unflatten_ok:
  assumes "message_kind_value k = fl_kind fl" "k \<noteq> MK_NONE" "cell_state_value c = fl_cell_state fl"
    "0 \<le> fl_scope fl" "fl_scope fl \<le> 1"
  shows "\<exists>m. unflatten fl = Inr m"
  using assms(2) index_of_scope [OF assms(4,5)]
  by (cases k) (auto simp: unflatten_def assms(1,3) [symmetric]
      simp del: message_kind_value.simps cell_state_value.simps)

lemma zero_widths [simp]: "is_u64 0" "is_u32 0" "is_u16 0"
  by (simp_all add: is_width_defs)

lemma unflatten_in_range:
  assumes "unflatten fl = Inr m" and "flat_in_range fl"
  shows "flat_in_range (flatten m) \<and> (fl_entry (flatten m) = fl_entry fl \<or> fl_entry (flatten m) = no_entry)"
proof -
  obtain k where k: "index_of all_message_kinds (fl_kind fl) = Inr k"
    using assms(1) by (auto simp: unflatten_def bindE_eq_Inr)
  show ?thesis
    using assms by (cases k) (auto simp: unflatten_def k bindE_eq_Inr flat_in_range_def)
qed

text \<open>What \<^verbatim>\<open>decode\<close> builds from a header that passed the guards.\<close>

lemma decode_accepts:
  assumes "validate_frame fp frame = Inr h"
  shows "\<exists>env. decode fp frame = Inr env \<and> wire_in_range env"
proof -
  obtain k where k: "entry_kind_value k = wh_entry_kind h"
    and ek: "enum_call entry_kind_value all_entry_kinds (wh_entry_kind h) = Some k"
    using validate_frame_InrD(5) [OF assms] by (metis entry_kind_call_iff)
  let ?e = "mk_entry k (drop HEADER_SIZE frame)"
  let ?fl = "\<lparr>fl_kind = wh_kind h, fl_ballot = wh_ballot h, fl_slot = wh_slot h,
            fl_vote = wh_vote h, fl_first = wh_first h, fl_last = wh_last h,
            fl_rejected = wh_rejected h, fl_promised = wh_promised h,
            fl_decided_through = wh_decided_through h, fl_trim_id = wh_trim_id h,
            fl_trim_slot = wh_trim_slot h, fl_range_count = wh_range_count h,
            fl_scope = wh_scope h, fl_cell_state = wh_cell_state h, fl_more = wh_more h,
            fl_entry = ?e\<rparr>"
  obtain mk c where mk: "message_kind_value mk = fl_kind ?fl" "mk \<noteq> MK_NONE"
    and c: "cell_state_value c = fl_cell_state ?fl"
    using validate_frame_InrD(4,6) [OF assms] by auto
  have r: "header_in_range h" by (rule validate_frame_InrD(1) [OF assms])
  obtain m where m: "unflatten ?fl = Inr m"
    using unflatten_ok [OF mk c] r validate_frame_InrD(7) [OF assms]
    by (auto simp: header_in_range_def)
  have "flat_in_range ?fl" using r by (simp add: header_in_range_def flat_in_range_def)
  from unflatten_in_range [OF m this]
  have fm: "flat_in_range (flatten m)"
    and fe: "fl_entry (flatten m) = ?e \<or> fl_entry (flatten m) = no_entry" by simp_all
  have len: "length (drop HEADER_SIZE frame) \<le> MAX_VALUE_BYTES"
    using validate_frame_InrD(11,12) [OF assms] by simp
  have "decode fp frame = Inr \<lparr>ev_configuration_id = wh_configuration_id h,
      ev_sender = wh_sender h, ev_recipient = wh_recipient h, ev_message = m\<rparr>"
    using assms ek m by (simp add: decode_def)
  moreover have "wire_in_range \<lparr>ev_configuration_id = wh_configuration_id h,
      ev_sender = wh_sender h, ev_recipient = wh_recipient h, ev_message = m\<rparr>"
    using fm fe len r validate_frame_InrD(2,3) [OF assms]
    by (auto simp: wire_in_range_def header_in_range_def no_entry_def)
  ultimately show ?thesis by blast
qed

text \<open>C5: Decoding is total on untrusted input. Any byte string at all is either refused with
  \<^verbatim>\<open>InvalidArgument\<close> or \<^verbatim>\<open>UnsupportedKind\<close>, the two exceptions \<^verbatim>\<open>decode\<close> documents (never \<^verbatim>\<open>struct.error\<close>,
  \<^verbatim>\<open>ValueError\<close> or \<^verbatim>\<open>IndexError\<close>), or decodes to an envelope that could have been encoded: its ids are
  non-zero, every field is within its wire width and its payload within the profile.\<close>

theorem decode_total:
  "case decode fp frame of
     Inl e \<Rightarrow> (\<exists>c. e = err InvalidArgument c) \<or> (\<exists>c. e = err UnsupportedKind c)
   | Inr env \<Rightarrow> wire_in_range env"
proof (cases "validate_frame fp frame")
  case (Inl e)
  then show ?thesis using validate_frame_InlD [OF Inl] by (simp add: decode_def)
next
  case (Inr h)
  then show ?thesis using decode_accepts [OF Inr] by auto
qed

lemma decode_InrD:
  assumes "decode fp frame = Inr env"
  shows "\<exists>h. validate_frame fp frame = Inr h" and "wire_in_range env"
proof -
  show v: "\<exists>h. validate_frame fp frame = Inr h"
    using assms by (auto simp: decode_def bindE_eq_Inr)
  then show "wire_in_range env" using decode_accepts assms by fastforce
qed

lemma encode_envelope_small:
  assumes "length (le_body (fl_entry (flatten (ev_message env)))) \<le> MAX_VALUE_BYTES"
  shows "\<exists>raw. encode_envelope env = Inr raw"
  using assms by (auto simp: encode_envelope_entry envelope_entry_def Let_def copy_body_ok)

text \<open>C35: The codec protects the native boundary: whatever bytes a peer sends, an envelope that
  \<^verbatim>\<open>decode\<close> returns is marshalled by \<^verbatim>\<open>_encode_envelope\<close> without overrunning the fixed 1024-byte body,
  the overrun that an unchecked envelope can cause.\<close>

theorem decoded_never_overruns:
  assumes "decode fp frame = Inr env"
  shows "\<exists>raw. encode_envelope env = Inr raw"
  using decode_InrD(2) [OF assms] by (intro encode_envelope_small) (simp add: wire_in_range_def)

text \<open>A frame with no payload, for the witnesses.\<close>

definition sample_envelope :: envelope where
  "sample_envelope = \<lparr>ev_configuration_id = 1, ev_sender = 2, ev_recipient = 3,
     ev_message = Heartbeat 65537 4\<rparr>"

definition sample_frame :: bytes where
  "sample_frame = [80, 88, 68, 78, 0, 1, 0, 0, 0, 0, 0, 0, 0, 5, 0, 0, 0, 0, 0, 0, 0, 1, 0, 2, 0, 3,
     9, 0, 0, 0, 0, 0, 0, 0, 0, 1, 0, 1] @ replicate 55 0 @ [4] @ replicate 25 0"

lemma sample_encoded: "encode 5 sample_envelope = Inr sample_frame"
  by code_simp

lemma sample_in_range: "wire_in_range sample_envelope"
  by (simp add: sample_envelope_def wire_in_range_def flat_in_range_def is_width_defs
      MAX_VALUE_BYTES_def no_entry_def)

lemma sample_decoded: "decode 5 sample_frame = Inr sample_envelope"
  using decode_encode_law [OF _ sample_in_range, of 5] sample_encoded by (simp add: is_width_defs)

theorem decoded_never_overruns_witness: "\<exists>raw. encode_envelope sample_envelope = Inr raw"
  by (rule decoded_never_overruns [OF sample_decoded])

text \<open>A frame accepted by one profile is refused by another, before any other field is looked at.\<close>

lemma validate_frame_other_profile:
  assumes "validate_frame fp frame = Inr h" and "fp' \<noteq> fp"
  shows "validate_frame fp' frame = refuse ''peer_profile'' fp ''local_profile'' fp'"
proof -
  obtain vs where "unpack_from HEADER frame = Some vs" "h = header_make vs" "wh_magic h = MAGIC"
    "wh_version h = WIRE_VERSION"
    using validate_frame_unpacks [OF assms(1)] by blast
  moreover have "\<not> length frame < HEADER_SIZE" "\<not> MAX_FRAME_SIZE < length frame"
    "wh_fingerprint h = fp"
    using validate_frame_InrD(8-10) [OF assms(1)] by simp_all
  ultimately show ?thesis using assms(2) by (simp add: validate_frame_def Let_def)
qed

text \<open>Peers of different capacity profiles never exchange a message: a frame that one build
  encodes is refused by every build with another fingerprint, naming both fingerprints.\<close>

lemma profile_mismatch_refused:
  assumes "is_u64 fp" and "wire_in_range env" and "encode fp env = Inr frame" and "fp' \<noteq> fp"
  shows "decode fp' frame =
    Inl (err InvalidArgument [(''peer_profile'', PInt fp), (''local_profile'', PInt fp')])"
  using validate_frame_other_profile [OF validate_encoded [OF assms(1-3)] assms(4)]
  by (simp add: decode_def refuse_def)

text \<open>The declared length fixes the length of a frame, so no two acceptable frames are one a proper
  prefix of the other.\<close>

lemma unpack_all_append:
  "calcsize fmt \<le> length b \<Longrightarrow> unpack_all fmt (b @ rest) = unpack_all fmt b"
  by (induction fmt arbitrary: b) auto

lemma unpack_from_append:
  "calcsize fmt \<le> length b \<Longrightarrow> unpack_from fmt (b @ rest) = unpack_from fmt b"
  by (simp add: unpack_from_def unpack_all_append)

lemma validate_frame_length:
  assumes "validate_frame fp frame = Inr h" and "length part \<noteq> length frame"
    and "HEADER_SIZE \<le> length part \<Longrightarrow> unpack_from HEADER part = unpack_from HEADER frame"
  shows "\<exists>c. validate_frame fp part = Inl (err InvalidArgument c)"
proof (cases "HEADER_SIZE \<le> length part \<and> length part \<le> MAX_FRAME_SIZE")
  case True
  obtain vs where vs: "unpack_from HEADER frame = Some vs" "h = header_make vs"
    "wh_magic h = MAGIC" "wh_version h = WIRE_VERSION"
    using validate_frame_unpacks [OF assms(1)] by blast
  have part: "unpack_from HEADER part = Some vs" using assms(3) True vs(1) by simp
  obtain k e c where "enum_call message_kind_value all_message_kinds (wh_kind h) = Some k"
    "wh_kind h \<noteq> 0" "enum_call entry_kind_value all_entry_kinds (wh_entry_kind h) = Some e"
    "enum_call cell_state_value all_cell_states (wh_cell_state h) = Some c"
    using validate_frame_InrD(4-6) [OF assms(1)] kind_not_none
    by (metis message_kind_call_iff entry_kind_call_iff cell_state_call)
  moreover have "int (length part) \<noteq> int HEADER_SIZE + wh_entry_length h"
    using assms(2) validate_frame_InrD(11) [OF assms(1)] by simp
  ultimately show ?thesis
    using True part vs validate_frame_InrD(2,3,7,8,12) [OF assms(1)]
    by (simp add: validate_frame_def refuse_def Let_def) blast
next
  case False
  then show ?thesis by (auto simp: validate_frame_def refuse_def)
qed

text \<open>A stream of frames cannot be mis-framed: cutting an accepted frame short by any number of
  bytes, or appending anything to it, makes it a frame that \<^verbatim>\<open>decode\<close> refuses with
  \<^verbatim>\<open>InvalidArgument\<close>.\<close>

lemma no_partial_frame:
  assumes "decode fp frame = Inr env" and "frame = part @ rest \<or> part = frame @ rest" and "rest \<noteq> []"
  shows "\<exists>c. decode fp part = Inl (err InvalidArgument c)"
proof -
  obtain h where h: "validate_frame fp frame = Inr h" using decode_InrD(1) [OF assms(1)] by blast
  have "unpack_from HEADER part = unpack_from HEADER frame" if "HEADER_SIZE \<le> length part"
    using assms(2) that validate_frame_InrD(9) [OF h] unpack_from_append by fastforce
  moreover have "length part \<noteq> length frame" using assms(2,3) by auto
  ultimately have "\<exists>c. validate_frame fp part = Inl (err InvalidArgument c)"
    using validate_frame_length [OF h] by blast
  then show ?thesis by (auto simp: decode_def)
qed

end
