(* ===== verification/Crc32.thy ===== *)
theory Crc32
  imports Prelude
begin

unbundle bit_operations_syntax

section \<open>\<^verbatim>\<open>zlib.crc32\<close>\<close>

text \<open>
  The checksum the journal stores beside every record: the reflected CRC-32 with polynomial
  \<^verbatim>\<open>0xEDB88320\<close>, initial and final complement, one bit at a time. The register update is injective, so
  two strings that differ in one byte never share a checksum.
\<close>

definition crc_bit :: "32 word \<Rightarrow> 32 word" where
  "crc_bit c = (if bit c 0 then drop_bit 1 c XOR 0xEDB88320 else drop_bit 1 c)"

definition crc_byte :: "32 word \<Rightarrow> byte \<Rightarrow> 32 word" where
  "crc_byte c b = (crc_bit ^^ 8) (c XOR ucast b)"

definition crc32 :: "bytes \<Rightarrow> int" where
  "crc32 bs = uint (NOT (foldl crc_byte (NOT 0) bs))"

lemma crc32_bounds [simp]: "0 \<le> crc32 bs" "crc32 bs < 4294967296"
  using uint_bounded [of "NOT (foldl crc_byte (NOT 0) bs)"] by (simp_all add: crc32_def)

definition crc_unbit :: "32 word \<Rightarrow> 32 word" where
  "crc_unbit t = (if bit t 31 then 2 * (t XOR 0xEDB88320) OR 1 else 2 * t)"

lemma xor_back: "((x :: 32 word) XOR z) XOR z = x"
  by (rule bit_word_eqI) (auto simp: bit_xor_iff)

lemma shift_back: "2 * drop_bit (Suc 0) (c :: 32 word) = (if bit c 0 then c XOR 1 else c)"
proof (rule bit_word_eqI)
  fix n assume "n < LENGTH(32)"
  then show "bit (2 * drop_bit (Suc 0) c) n = bit (if bit c 0 then c XOR 1 else c) n"
    by (cases n) (auto simp: bit_double_iff bit_drop_bit_eq bit_xor_iff bit_1_iff)
qed

lemma xor_one_or_one: "bit (c :: 32 word) 0 \<Longrightarrow> (c XOR 1) OR 1 = c"
  by (rule bit_word_eqI) (auto simp: bit_or_iff bit_xor_iff bit_1_iff)

lemma crc_unbit_bit: "crc_unbit (crc_bit c) = c"
proof -
  have "\<not> bit (drop_bit (Suc 0) c) 31"
    using bit_imp_le_length [of c 32] by (auto simp: bit_drop_bit_eq)
  moreover have "bit (drop_bit (Suc 0) c XOR 0xEDB88320) 31"
    using calculation by (simp add: bit_xor_iff)
  ultimately show ?thesis
    by (simp add: crc_unbit_def crc_bit_def shift_back xor_one_or_one xor_back)
qed

lemma inj_crc_bit: "inj crc_bit"
  by (rule inj_on_inverseI) (rule crc_unbit_bit)

lemma xor_cancel: "(x :: 32 word) XOR z = y XOR z \<longleftrightarrow> x = y"
  by (metis xor_back)

lemma crc_bits_inj: "(crc_bit ^^ 8) x = (crc_bit ^^ 8) y \<longleftrightarrow> x = y"
  using inj_fn [OF inj_crc_bit, of 8] by (simp add: inj_eq)

lemma crc_byte_eq_state: "crc_byte c b = crc_byte c' b \<longleftrightarrow> c = c'"
  by (simp add: crc_byte_def crc_bits_inj xor_cancel)

lemma ucast_byte_eq: "(ucast (b :: byte) :: 32 word) = ucast b' \<longleftrightarrow> b = b'"
proof -
  have "uint (ucast a :: 32 word) = uint a" for a :: byte
    by (rule uint_up_ucast) (simp add: is_up)
  then show ?thesis by (metis word_uint_eq_iff)
qed

lemma crc_byte_eq_byte: "crc_byte c b = crc_byte c b' \<longleftrightarrow> b = b'"
proof -
  have "crc_byte c b = crc_byte c b' \<longleftrightarrow> (ucast b :: 32 word) XOR c = ucast b' XOR c"
    by (simp add: crc_byte_def crc_bits_inj xor.commute)
  also have "\<dots> \<longleftrightarrow> (ucast b :: 32 word) = ucast b'" by (rule xor_cancel)
  also have "\<dots> \<longleftrightarrow> b = b'"
    by (rule ucast_byte_eq)
  finally show ?thesis .
qed

lemma crc_state_inj: "foldl crc_byte c bs = foldl crc_byte c' bs \<longleftrightarrow> c = c'"
  by (induction bs arbitrary: c c') (simp_all add: crc_byte_eq_state)

lemma crc32_one_byte: "crc32 (xs @ b # ys) = crc32 (xs @ b' # ys) \<longleftrightarrow> b = b'"
  by (simp add: crc32_def crc_state_inj crc_byte_eq_byte flip: word_uint_eq_iff)

text \<open>The checksums of the empty string and of \<^verbatim>\<open>b"a"\<close>.\<close>

lemma crc32_check: "crc32 [] = 0" "crc32 [0x61] = 0xE8B7BE43"
  by code_simp+

end
