(* ===== verification/Record_Stream.thy ===== *)
theory Record_Stream
  imports Errors
begin

section \<open>Files of records read back by an offset loop\<close>

text \<open>
  The interface of the two append-only files of \<^verbatim>\<open>storage.py\<close>, the journal and the retained history.
  A record is encoded to bytes; a loop walks the file from an offset and folds the records it finds
  into an accumulator. The laws: the loop steps over one encoded record, ignores a final record cut
  short, and stops at the end. The client lemmas read back any sequence of records, and say what a
  file cut at any byte still holds.
\<close>

locale record_stream =
  fixes enc :: "'a \<Rightarrow> 'e + bytes" and loop :: "bytes \<Rightarrow> nat \<Rightarrow> 'acc \<Rightarrow> 'e + 'acc"
    and add :: "'acc \<Rightarrow> 'a \<Rightarrow> 'acc" and ok :: "'a \<Rightarrow> bool"
  assumes encodes: "ok x \<Longrightarrow> \<exists>b. enc x = Inr b"
    and item: "ok x \<Longrightarrow> enc x = Inr b \<Longrightarrow>
      loop (pre @ b @ rest) (length pre) acc = loop (pre @ b @ rest) (length pre + length b) (add acc x)"
    and torn: "ok x \<Longrightarrow> enc x = Inr b \<Longrightarrow> strict_prefix part b \<Longrightarrow> loop (pre @ part) (length pre) acc = Inr acc"
    and stop: "loop pre (length pre) acc = Inr acc"
begin

lemma encodes_all: "list_all ok xs \<Longrightarrow> \<exists>bs. mapE enc xs = Inr bs"
proof (induction xs)
  case Nil
  then show ?case by simp
next
  case (Cons x xs)
  then show ?case using encodes [of x] by auto
qed

lemma items:
  assumes "list_all ok xs" and "mapE enc xs = Inr bs"
  shows "loop (pre @ concat bs @ rest) (length pre) acc
    = loop (pre @ concat bs @ rest) (length pre + length (concat bs)) (foldl add acc xs)"
  using assms
proof (induction xs arbitrary: bs pre acc)
  case Nil
  then show ?case by simp
next
  case (Cons x xs)
  then obtain b bs' where b: "enc x = Inr b" and bs': "mapE enc xs = Inr bs'" and bs: "bs = b # bs'"
    by (auto simp: bindE_eq_Inr)
  have "loop ((pre @ b) @ concat bs' @ rest) (length (pre @ b)) (add acc x)
      = loop ((pre @ b) @ concat bs' @ rest) (length (pre @ b) + length (concat bs'))
          (foldl add (add acc x) xs)"
    using Cons.prems(1) by (intro Cons.IH bs') simp
  then show ?case
    using item [of x b pre "concat bs' @ rest" acc] b Cons.prems(1) by (simp add: bs add.assoc)
qed

lemma whole:
  assumes "list_all ok xs" and "mapE enc xs = Inr bs"
  shows "loop (pre @ concat bs) (length pre) acc = Inr (foldl add acc xs)"
  using items [OF assms, of pre "[]"] stop [of "pre @ concat bs"] by simp

lemma torn_tail:
  assumes "list_all ok xs" and "mapE enc xs = Inr bs" and "ok x" and "enc x = Inr b"
    and "strict_prefix part b"
  shows "loop (pre @ concat bs @ part) (length pre) acc = Inr (foldl add acc xs)"
  using items [OF assms(1,2), of pre part] torn [OF assms(3-5), of "pre @ concat bs"] by simp

lemma cut:
  assumes "list_all ok xs" and "mapE enc xs = Inr bs"
  shows "\<exists>m \<le> length xs. loop (pre @ take n (concat bs)) (length pre) acc = Inr (foldl add acc (take m xs))
    \<and> length (concat (take m bs)) \<le> n \<and> (\<forall>k \<le> length xs. length (concat (take k bs)) \<le> n \<longrightarrow> k \<le> m)"
  using assms
proof (induction xs arbitrary: bs pre acc n)
  case Nil
  then show ?case using stop by simp
next
  case (Cons x xs)
  then obtain b bs' where b: "enc x = Inr b" and bs': "mapE enc xs = Inr bs'" and bs: "bs = b # bs'"
    by (auto simp: bindE_eq_Inr)
  show ?case
  proof (cases "length b \<le> n")
    case True
    obtain m where m: "m \<le> length xs"
      "loop ((pre @ b) @ take (n - length b) (concat bs')) (length (pre @ b)) (add acc x)
        = Inr (foldl add (add acc x) (take m xs))"
      "length (concat (take m bs')) \<le> n - length b"
      "\<forall>k \<le> length xs. length (concat (take k bs')) \<le> n - length b \<longrightarrow> k \<le> m"
      using Cons.IH [OF _ bs', of "pre @ b" "n - length b" "add acc x"] Cons.prems(1) by auto
    have "k \<le> Suc m" if "k \<le> length (x # xs)" "length (concat (take k bs)) \<le> n" for k
      using that m(4) by (cases k) (auto simp: bs)
    with m(1-3) True show ?thesis
      using item [of x b pre "take (n - length b) (concat bs')" acc] b Cons.prems(1)
      by (intro exI [of _ "Suc m"]) (simp add: bs)
  next
    case False
    then have "strict_prefix (take n b) b"
      by (metis append_take_drop_id length_take less_irrefl min.absorb_iff2 min_def nle_le prefixI
          strict_prefix_def)
    then have "loop (pre @ take n (concat bs)) (length pre) acc = Inr acc"
      using torn [of x b "take n b"] b Cons.prems(1) False by (simp add: bs)
    moreover have "k = 0" if "length (concat (take k bs)) \<le> n" for k
      using that False by (cases k) (simp_all add: bs)
    ultimately show ?thesis using False by (intro exI [of _ 0]) auto
  qed
qed

end

end
