(* ===== verification/Journal.thy ===== *)
theory Journal
  imports Py_Struct Models Errors Native Crc32 Record_Stream
begin

section \<open>The durable journal of \<^verbatim>\<open>storage.py\<close>\<close>

text \<open>
  \<^verbatim>\<open>_encode_record\<close>, \<^verbatim>\<open>_decode_record\<close>, \<^verbatim>\<open>MemoryJournal\<close> and \<^verbatim>\<open>FileJournal\<close>. A node directory is a
  \<open>disk\<close>: the bytes of \<^verbatim>\<open>journal.bin\<close> as the process sees them (\<open>None\<close> when there is no such file),
  how many of them an \<^verbatim>\<open>fsync\<close> has made durable, and whether some descriptor holds the lock. A crash
  keeps the durable bytes and any number of the bytes after them, and the directory entries of the two
  files: that an \<^verbatim>\<open>fsync\<close> of a new file makes its entry durable too is what the code relies on, which
  never syncs the directory. Every operation that touches the file takes the outcome of its system
  calls as an argument: \<open>IoOk\<close>, or \<open>IoFail n\<close>, an \<^verbatim>\<open>OSError\<close> after \<open>n\<close> bytes had already been handed over.
  (The reading of the header and the opening of the two files themselves do not fail.)
\<close>

definition JOURNAL_MAGIC :: bytes where "JOURNAL_MAGIC = [0x50, 0x58, 0x44, 0x4A]"
definition JOURNAL_FORMAT :: int where "JOURNAL_FORMAT = 1"

definition J_HEADER :: "sfield list" where "J_HEADER = [FStr 4, fH, fH, fQ, fQ]"
definition RECORD_PREFIX :: "sfield list" where "RECORD_PREFIX = [fI, fI]"
definition RECORD_BODY :: "sfield list" where "RECORD_BODY = [fB, fB, fB, fB, fQ, fQ, fQ, fQ, fI]"

definition struct_pack :: "sfield list \<Rightarrow> sval list \<Rightarrow> exn + bytes" where
  "struct_pack fmt vs = (case pack fmt vs of None \<Rightarrow> Inl StructError | Some b \<Rightarrow> Inr b)"

definition struct_unpack :: "sfield list \<Rightarrow> bytes \<Rightarrow> exn + sval list" where
  "struct_unpack fmt b = (case unpack_from fmt b of None \<Rightarrow> Inl StructError | Some vs \<Rightarrow> Inr vs)"

subsection \<open>Records\<close>

definition encode_record :: "write_record \<Rightarrow> exn + bytes" where
  "encode_record rec =
     (let body = le_body (wr_entry rec)
      in bindE (struct_pack RECORD_BODY
            [SInt (write_kind_value (wr_kind rec)), SInt (if wr_requires_barrier rec then 1 else 0),
             SInt (entry_kind_value (le_kind (wr_entry rec))), SInt 0,
             SInt (wr_ballot rec), SInt (wr_slot rec), SInt (wr_trim_id rec),
             SInt (wr_trim_slot rec), SInt (int (length body))]) (\<lambda>fixed.
         let payload = fixed @ body
         in bindE (struct_pack RECORD_PREFIX [SInt (int (length payload)), SInt (crc32 payload)])
              (\<lambda>prefix. Inr (prefix @ payload))))"

definition call_enum :: "('a \<Rightarrow> int) \<Rightarrow> 'a list \<Rightarrow> int \<Rightarrow> exn + 'a" where
  "call_enum value members v = (case enum_call value members v of None \<Rightarrow> Inl ValueErr | Some m \<Rightarrow> Inr m)"

definition decode_record :: "bytes \<Rightarrow> exn + write_record" where
  "decode_record payload =
     bindE (struct_unpack RECORD_BODY payload) (\<lambda>vs.
       let body = slice (calcsize RECORD_BODY) (calcsize RECORD_BODY + nat (sint (vs ! 8))) payload
       in bindE (call_enum write_kind_value all_write_kinds (sint (vs ! 0))) (\<lambda>kind.
          bindE (call_enum entry_kind_value all_entry_kinds (sint (vs ! 2))) (\<lambda>entry_kind.
            Inr \<lparr>wr_kind = kind, wr_ballot = sint (vs ! 4), wr_slot = sint (vs ! 5),
                 wr_trim_id = sint (vs ! 6), wr_trim_slot = sint (vs ! 7),
                 wr_entry = mk_entry entry_kind body,
                 wr_requires_barrier = (sint (vs ! 1) \<noteq> 0)\<rparr>)))"

text \<open>The loop of \<^verbatim>\<open>FileJournal.replay\<close> over the bytes after the header. Its two breaks return what has
  been read, its \<^verbatim>\<open>raise\<close> discards it.\<close>

definition J_HEADER_SIZE :: nat where "J_HEADER_SIZE = calcsize J_HEADER"

lemma journal_sizes [simp]:
  "calcsize J_HEADER = 24" "calcsize RECORD_PREFIX = 8" "calcsize RECORD_BODY = 40"
  "J_HEADER_SIZE = 24"
  by (simp_all add: J_HEADER_def RECORD_PREFIX_def RECORD_BODY_def J_HEADER_SIZE_def)

function replay_loop :: "bytes \<Rightarrow> nat \<Rightarrow> write_record list \<Rightarrow> exn + write_record list" where
  "replay_loop blob offset records =
     (if offset < length blob
      then if length blob < offset + calcsize RECORD_PREFIX then Inr records
           else case unpack_from RECORD_PREFIX (drop offset blob) of
             None \<Rightarrow> Inl StructError
           | Some vs \<Rightarrow>
              (let len = nat (sint (vs ! 0)); checksum = sint (vs ! 1);
                   start = offset + calcsize RECORD_PREFIX
               in if length blob < start + len then Inr records
                  else (let payload = slice start (start + len) blob
                        in if crc32 payload \<noteq> checksum
                           then Inl (err JournalCorrupt [(''offset'', PInt (int (J_HEADER_SIZE + offset)))])
                           else bindE (decode_record payload) (\<lambda>r.
                                  replay_loop blob (start + len) (records @ [r]))))
      else Inr records)"
  by pat_completeness auto
termination
  by (relation "measure (\<lambda>(blob, offset, _). length blob - offset)") auto

declare replay_loop.simps [simp del]

subsection \<open>The node directory\<close>

datatype io = IoOk | IoFail nat

record disk =
  dk_file :: "bytes option"
  dk_durable :: nat
  dk_locked :: bool

text \<open>The fields of a \<^verbatim>\<open>FileJournal\<close>: whether \<^verbatim>\<open>_file\<close> is a file object (not \<^verbatim>\<open>None\<close>), whether that object has
  been closed, whether \<^verbatim>\<open>_lock_fd\<close> is a descriptor, \<^verbatim>\<open>_synced\<close>, and the position of the file: \<open>None\<close> at its
  end, where all operations leave it but a \<^verbatim>\<open>replay\<close> whose read fails. The base directory is the \<open>disk\<close>
  it is used with.\<close>

record journal =
  fj_file :: bool
  fj_closed :: bool
  fj_lock_fd :: bool
  fj_synced :: bool
  fj_at :: "nat option"

definition new_journal :: journal where
  "new_journal = \<lparr>fj_file = False, fj_closed = False, fj_lock_fd = False, fj_synced = True, fj_at = None\<rparr>"

type_synonym 'a journal_result = "(exn + 'a) \<times> journal \<times> disk"

definition file_bytes :: "disk \<Rightarrow> bytes" where
  "file_bytes d = (case dk_file d of None \<Rightarrow> [] | Some b \<Rightarrow> b)"

text \<open>A write at the end of the file.\<close>

definition file_write :: "io \<Rightarrow> bytes \<Rightarrow> disk \<Rightarrow> (exn + unit) \<times> disk" where
  "file_write out b d = (case out of
     IoOk \<Rightarrow> (Inr (), d\<lparr>dk_file := Some (file_bytes d @ b)\<rparr>)
   | IoFail n \<Rightarrow> (Inl OSErr, d\<lparr>dk_file := Some (file_bytes d @ take n b)\<rparr>))"

definition file_fsync :: "io \<Rightarrow> disk \<Rightarrow> (exn + unit) \<times> disk" where
  "file_fsync out d = (case out of
     IoOk \<Rightarrow> (Inr (), d\<lparr>dk_durable := length (file_bytes d)\<rparr>)
   | IoFail n \<Rightarrow> (Inl OSErr, d))"

text \<open>A write at the position: at the end, or over the bytes from \<open>p\<close> on, which are durable no longer.\<close>

definition file_put :: "io \<Rightarrow> nat option \<Rightarrow> bytes \<Rightarrow> disk \<Rightarrow> (exn + unit) \<times> nat option \<times> disk" where
  "file_put out pos b d = (case pos of
     None \<Rightarrow> (case file_write out b d of (r, d) \<Rightarrow> (r, None, d))
   | Some p \<Rightarrow>
       (let put = (case out of IoOk \<Rightarrow> b | IoFail n \<Rightarrow> take n b)
        in (case out of IoOk \<Rightarrow> Inr () | IoFail n \<Rightarrow> Inl OSErr, Some (p + length put),
            d\<lparr>dk_file := Some (take p (file_bytes d) @ put @ drop (p + length put) (file_bytes d)),
              dk_durable := min p (dk_durable d)\<rparr>)))"

text \<open>What is left of the file when a failing \<^verbatim>\<open>close\<close> of the file object drops its buffer: at most the bytes
  that were not yet synced are gone.\<close>

definition lose_buffer :: "nat \<Rightarrow> disk \<Rightarrow> disk" where
  "lose_buffer n d = d\<lparr>dk_file := map_option (take (max n (dk_durable d))) (dk_file d)\<rparr>"

text \<open>\<^verbatim>\<open>_release\<close>: if \<^verbatim>\<open>file.close()\<close> raises, the object is closed but \<^verbatim>\<open>_file\<close> still refers to it, and the
  lock is not released. Closing a closed file object does nothing.\<close>

definition fj_release :: "io \<Rightarrow> journal \<Rightarrow> disk \<Rightarrow> unit journal_result" where
  "fj_release out j d =
     (case (if fj_file j \<and> \<not> fj_closed j then out else IoOk) of
        IoFail n \<Rightarrow> (Inl OSErr, j\<lparr>fj_closed := True, fj_at := None\<rparr>, lose_buffer n d)
      | IoOk \<Rightarrow> (Inr (), j\<lparr>fj_file := False, fj_closed := False, fj_lock_fd := False, fj_at := None\<rparr>,
                 if fj_lock_fd j then d\<lparr>dk_locked := False\<rparr> else d))"

definition check_header :: "int \<Rightarrow> int \<Rightarrow> int \<Rightarrow> bytes \<Rightarrow> exn + unit" where
  "check_header fp node_id configuration_id content =
     (let raw = take (calcsize J_HEADER) content
      in if length raw \<noteq> calcsize J_HEADER then Inl (err JournalCorrupt [])
         else bindE (struct_unpack J_HEADER raw) (\<lambda>vs.
           if sbytes (vs ! 0) \<noteq> JOURNAL_MAGIC then Inl (err JournalCorrupt [])
           else if sint (vs ! 1) \<noteq> JOURNAL_FORMAT
           then Inl (err InvalidArgument [(''format_version'', PInt (sint (vs ! 1))),
                                          (''supported'', PInt JOURNAL_FORMAT)])
           else if sint (vs ! 2) \<noteq> node_id
           then Inl (err InvalidArgument [(''journal_node_id'', PInt (sint (vs ! 2))),
                                          (''opened_as'', PInt node_id)])
           else if sint (vs ! 3) \<noteq> configuration_id
           then Inl (err InvalidArgument [(''journal_configuration'', PInt (sint (vs ! 3))),
                                          (''opened_as'', PInt configuration_id)])
           else if sint (vs ! 4) \<noteq> fp
           then Inl (err InvalidArgument [(''journal_profile'', PInt (sint (vs ! 4))),
                                          (''local_profile'', PInt fp)])
           else Inr ()))"

definition header_bytes :: "int \<Rightarrow> int \<Rightarrow> int \<Rightarrow> exn + bytes" where
  "header_bytes fp node_id configuration_id =
     struct_pack J_HEADER [SBytes JOURNAL_MAGIC, SInt JOURNAL_FORMAT, SInt node_id,
       SInt configuration_id, SInt fp]"

text \<open>\<^verbatim>\<open>_open\<close>: an existing file that is not empty is checked; otherwise the file is created, or truncated
  when empty, and its header written, flushed and synced.\<close>

definition fj_open_file :: "io \<Rightarrow> io \<Rightarrow> int \<Rightarrow> int \<Rightarrow> int \<Rightarrow> journal \<Rightarrow> disk \<Rightarrow> unit journal_result" where
  "fj_open_file out1 out2 fp node_id configuration_id j d =
     (let j = j\<lparr>fj_file := True, fj_closed := False, fj_at := None\<rparr>
      in if file_bytes d \<noteq> []
         then (check_header fp node_id configuration_id (file_bytes d), j, d)
         else (let d = d\<lparr>dk_file := Some [], dk_durable := 0\<rparr>
               in case header_bytes fp node_id configuration_id of
                    Inl e \<Rightarrow> (Inl e, j, d)
                  | Inr h \<Rightarrow>
                     (case file_write out1 h d of
                        (Inl e, d) \<Rightarrow> (Inl e, j, d)
                      | (Inr _, d) \<Rightarrow>
                         (case file_fsync out2 d of (r, d) \<Rightarrow> (r, j, d)))))"

text \<open>\<^verbatim>\<open>open\<close>: an exception of the \<^verbatim>\<open>_release\<close> in its handler takes the place of the first one.\<close>

definition fj_open :: "io \<Rightarrow> io \<Rightarrow> io \<Rightarrow> int \<Rightarrow> int \<Rightarrow> int \<Rightarrow> journal \<Rightarrow> disk \<Rightarrow> unit journal_result" where
  "fj_open out1 out2 out3 fp node_id configuration_id j d =
     (if fj_file j then (Inr (), j, d)
      else if dk_locked d then (Inl (err StorageError []), j, d)
      else case fj_open_file out1 out2 fp node_id configuration_id
                  (j\<lparr>fj_lock_fd := True\<rparr>) (d\<lparr>dk_locked := True\<rparr>) of
             (Inr _, j, d) \<Rightarrow> (Inr (), j, d)
           | (Inl e, j, d) \<Rightarrow>
              (case fj_release out3 j d of
                 (Inl e', j, d) \<Rightarrow> (Inl e', j, d)
               | (Inr _, j, d) \<Rightarrow> (Inl e, j, d)))"

text \<open>A closed file object raises \<^verbatim>\<open>ValueError\<close>, which the handlers for \<^verbatim>\<open>OSError\<close> let pass.\<close>

definition fj_append :: "io \<Rightarrow> write_record list \<Rightarrow> journal \<Rightarrow> disk \<Rightarrow> unit journal_result" where
  "fj_append out records j d =
     (if records = [] then (Inr (), j, d)
      else if \<not> fj_file j then (Inl (err JournalNotOpen []), j, d)
      else case mapE encode_record records of
             Inl e \<Rightarrow> (Inl e, j, d)
           | Inr bs \<Rightarrow>
              (if fj_closed j then (Inl ValueErr, j, d)
               else case file_put out (fj_at j) (concat bs) d of
                 (Inl _, pos, d) \<Rightarrow> (Inl (err StorageError []), j\<lparr>fj_at := pos\<rparr>, d)
               | (Inr _, pos, d) \<Rightarrow> (Inr (), j\<lparr>fj_at := pos, fj_synced := False\<rparr>, d)))"

definition fj_sync :: "io \<Rightarrow> journal \<Rightarrow> disk \<Rightarrow> unit journal_result" where
  "fj_sync out j d =
     (if fj_synced j \<or> \<not> fj_file j then (Inr (), j, d)
      else if fj_closed j then (Inl ValueErr, j, d)
      else case file_fsync out d of
             (Inl _, d) \<Rightarrow> (Inl (err StorageError []), j, d)
           | (Inr _, d) \<Rightarrow> (Inr (), j\<lparr>fj_synced := True\<rparr>, d))"

text \<open>\<^verbatim>\<open>replay\<close>: its first \<^verbatim>\<open>seek\<close> writes out the buffer and fails where that does (\<open>IoFail 0\<close>); its \<^verbatim>\<open>read\<close> may
  fail \<open>n\<close> bytes after the header (\<open>IoFail (Suc n)\<close>), and leaves the position there. A \<^verbatim>\<open>read\<close> that
  returns leaves it at the end, whatever the loop over the bytes raises.\<close>

definition fj_replay :: "io \<Rightarrow> journal \<Rightarrow> disk \<Rightarrow> write_record list journal_result" where
  "fj_replay out j d =
     (if \<not> fj_file j then (Inl (err JournalNotOpen []), j, d)
      else if fj_closed j then (Inl ValueErr, j, d)
      else case out of
        IoOk \<Rightarrow> (replay_loop (drop J_HEADER_SIZE (file_bytes d)) 0 [], j\<lparr>fj_at := None\<rparr>, d)
      | IoFail 0 \<Rightarrow> (Inl OSErr, j, d)
      | IoFail (Suc n) \<Rightarrow>
          (Inl OSErr, j\<lparr>fj_at := Some (J_HEADER_SIZE + min n (length (file_bytes d) - J_HEADER_SIZE))\<rparr>, d))"

text \<open>\<^verbatim>\<open>close\<close>: the release runs whatever the sync does (its \<^verbatim>\<open>finally\<close>), and the sync's exception
  propagates unless the release raises one of its own.\<close>

definition fj_close :: "io \<Rightarrow> io \<Rightarrow> journal \<Rightarrow> disk \<Rightarrow> unit journal_result" where
  "fj_close out1 out2 j d =
     (if \<not> fj_file j then (Inr (), j, d)
      else case fj_sync out1 j d of (r, j, d) \<Rightarrow>
        (case fj_release out2 j d of
           (Inl e, j, d) \<Rightarrow> (Inl e, j, d)
         | (Inr _, j, d) \<Rightarrow> (r, j, d)))"

text \<open>The process dies and the machine may lose what was not synced: the kernel drops the lock, and
  all but the first \<open>n\<close> bytes are gone, with every durable byte kept.\<close>

definition crash :: "nat \<Rightarrow> disk \<Rightarrow> disk" where
  "crash n d = (lose_buffer n d)\<lparr>dk_locked := False\<rparr>"

lemma crash_simps [simp]:
  "dk_file (crash n d) = map_option (take (max n (dk_durable d))) (dk_file d)"
  "dk_durable (crash n d) = dk_durable d" "dk_locked (crash n d) = False"
  by (simp_all add: crash_def lose_buffer_def)

subsection \<open>The journal for tests\<close>

record mem_journal =
  mj_records :: "write_record list"
  mj_synced :: nat

definition mj_new :: mem_journal where "mj_new = \<lparr>mj_records = [], mj_synced = 0\<rparr>"

definition mj_open :: "int \<Rightarrow> int \<Rightarrow> mem_journal \<Rightarrow> mem_journal" where
  "mj_open node_id configuration_id j = j"

definition mj_append :: "write_record list \<Rightarrow> mem_journal \<Rightarrow> mem_journal" where
  "mj_append records j = j\<lparr>mj_records := mj_records j @ records\<rparr>"

definition mj_sync :: "mem_journal \<Rightarrow> mem_journal" where
  "mj_sync j = j\<lparr>mj_synced := length (mj_records j)\<rparr>"

definition mj_replay :: "mem_journal \<Rightarrow> write_record list" where
  "mj_replay j = take (mj_synced j) (mj_records j)"

definition mj_close :: "mem_journal \<Rightarrow> mem_journal" where
  "mj_close j = j\<lparr>mj_records := [], mj_synced := 0\<rparr>"

subsection \<open>The journal is a record stream\<close>

definition record_ok :: "write_record \<Rightarrow> bool" where
  "record_ok rec =
     (is_u64 (wr_ballot rec) \<and> is_u64 (wr_slot rec) \<and> is_u64 (wr_trim_id rec)
      \<and> is_u64 (wr_trim_slot rec) \<and> 40 + length (le_body (wr_entry rec)) < 4294967296
      \<and> le_stop_sign (wr_entry rec) = None)"

lemma write_kind_call [simp]: "enum_call write_kind_value all_write_kinds (write_kind_value k) = Some k"
  by (simp add: write_kind_call_iff)

lemma entry_kind_call [simp]: "enum_call entry_kind_value all_entry_kinds (entry_kind_value k) = Some k"
  by (simp add: entry_kind_call_iff)

lemma encode_record_shape:
  assumes "record_ok rec"
  shows "\<exists>prefix payload. encode_record rec = Inr (prefix @ payload) \<and> length prefix = 8
    \<and> (\<forall>rest. unpack_from RECORD_PREFIX (prefix @ rest)
          = Some [SInt (int (length payload)), SInt (crc32 payload)])
    \<and> decode_record payload = Inr rec \<and> length payload = 40 + length (le_body (wr_entry rec))"
proof -
  let ?body = "le_body (wr_entry rec)"
  let ?vs = "[SInt (write_kind_value (wr_kind rec)), SInt (if wr_requires_barrier rec then 1 else 0),
             SInt (entry_kind_value (le_kind (wr_entry rec))), SInt 0,
             SInt (wr_ballot rec), SInt (wr_slot rec), SInt (wr_trim_id rec),
             SInt (wr_trim_slot rec), SInt (int (length ?body))]"
  have f: "list_all2 fits RECORD_BODY ?vs"
    using assms write_kind_bounds [of "wr_kind rec"] entry_kind_bounds [of "le_kind (wr_entry rec)"]
    by (simp add: RECORD_BODY_def record_ok_def is_width_defs)
  obtain fixed where fixed: "pack RECORD_BODY ?vs = Some fixed" using pack_fits [OF f] by blast
  have len: "length fixed = 40" using pack_length [OF fixed] by simp
  have up: "unpack_from RECORD_BODY (fixed @ ?body) = Some ?vs" using f fixed by (rule unpack_from_pack)
  let ?payload = "fixed @ ?body"
  let ?ps = "[SInt (int (length ?payload)), SInt (crc32 ?payload)]"
  have g: "list_all2 fits RECORD_PREFIX ?ps"
    using assms len by (simp add: RECORD_PREFIX_def record_ok_def)
  obtain prefix where prefix: "pack RECORD_PREFIX ?ps = Some prefix" using pack_fits [OF g] by blast
  have "length prefix = 8" using pack_length [OF prefix] by simp
  moreover have "unpack_from RECORD_PREFIX (prefix @ rest) = Some ?ps" for rest
    using g prefix by (rule unpack_from_pack)
  moreover have "encode_record rec = Inr (prefix @ ?payload)"
    using fixed prefix by (simp add: encode_record_def struct_pack_def Let_def)
  moreover have "slice 40 (40 + length ?body) ?payload = ?body"
    using slice_append [of fixed ?body "[]"] len by simp
  moreover have "mk_entry (le_kind (wr_entry rec)) ?body = wr_entry rec"
    using assms by (intro mk_entry_eta) (simp add: record_ok_def)
  ultimately show ?thesis
    by (intro exI [of _ prefix] exI [of _ ?payload])
       (simp add: decode_record_def struct_unpack_def up call_enum_def Let_def len)
qed

lemma replay_loop_item:
  assumes "record_ok rec" and "encode_record rec = Inr b"
  shows "replay_loop (pre @ b @ rest) (length pre) acc
    = replay_loop (pre @ b @ rest) (length pre + length b) (acc @ [rec])"
proof -
  obtain prefix payload where b: "b = prefix @ payload" and l: "length prefix = 8"
    and u: "\<And>rest. unpack_from RECORD_PREFIX (prefix @ rest)
          = Some [SInt (int (length payload)), SInt (crc32 payload)]"
    and d: "decode_record payload = Inr rec"
    using encode_record_shape [OF assms(1)] assms(2) by auto
  have "slice (length pre + 8) (length pre + 8 + length payload) (pre @ prefix @ payload @ rest) = payload"
    using slice_append [of "pre @ prefix" payload rest] l by simp
  then show ?thesis
    by (subst replay_loop.simps) (simp add: b l u d Let_def add.assoc)
qed

lemma replay_loop_torn:
  assumes "record_ok rec" and "encode_record rec = Inr b" and "strict_prefix part b"
  shows "replay_loop (pre @ part) (length pre) acc = Inr acc"
proof -
  obtain prefix payload where b: "b = prefix @ payload" and l: "length prefix = 8"
    and u: "\<And>rest. unpack_from RECORD_PREFIX (prefix @ rest)
          = Some [SInt (int (length payload)), SInt (crc32 payload)]"
    using encode_record_shape [OF assms(1)] assms(2) by auto
  show ?thesis
  proof (cases "length part < 8")
    case True
    then show ?thesis by (subst replay_loop.simps) simp
  next
    case False
    obtain more where more: "b = part @ more" "more \<noteq> []"
      using assms(3) by (auto simp: strict_prefix_def prefix_def)
    have "take 8 (part @ more) = take 8 (prefix @ payload)" using more(1) b by simp
    then have "take 8 part = prefix" using l False by simp
    then have p: "part = prefix @ drop 8 part" by (metis append_take_drop_id)
    then have "payload = drop 8 part @ more" using more(1) b by (metis append.assoc same_append_eq)
    then have "length (drop 8 part) < length payload" using more(2) by simp
    then show ?thesis
      using u [of "drop 8 part"] p l False
      by (subst replay_loop.simps) (simp add: Let_def)
  qed
qed

interpretation journal_stream: record_stream encode_record replay_loop "\<lambda>acc r. acc @ [r]" record_ok
proof
  show "record_ok x \<Longrightarrow> \<exists>b. encode_record x = Inr b" for x
    using encode_record_shape by blast
  show "replay_loop pre (length pre) acc = Inr acc" for pre acc
    by (subst replay_loop.simps) simp
qed (fact replay_loop_item, fact replay_loop_torn)

lemma foldl_snoc [simp]: "foldl (\<lambda>acc r. acc @ [r]) acc xs = acc @ xs"
  by (induction xs arbitrary: acc) simp_all

subsection \<open>What replay returns\<close>

lemma replay_whole:
  assumes "list_all record_ok xs" and "mapE encode_record xs = Inr bs"
  shows "replay_loop (concat bs) 0 [] = Inr xs"
  using journal_stream.whole [OF assms, of "[]" "[]"] by simp

lemma replay_loop_corrupt:
  assumes "length pfx = 8" and "crc32 q \<noteq> c"
    and "\<And>more. unpack_from RECORD_PREFIX (pfx @ more) = Some [SInt (int (length q)), SInt c]"
  shows "replay_loop (pre @ pfx @ q @ rest) (length pre) acc =
    Inl (err JournalCorrupt [(''offset'', PInt (24 + int (length pre)))])"
proof -
  have "slice (length pre + 8) (length pre + 8 + length q) (pre @ pfx @ q @ rest) = q"
    using slice_append [of "pre @ pfx" q rest] assms(1) by simp
  then show ?thesis
    using assms by (subst replay_loop.simps) (simp add: Let_def)
qed

lemma replay_loop_overrun:
  assumes "unpack_from RECORD_PREFIX rest = Some [SInt n, SInt c]" and "8 \<le> length rest"
    and "length rest < 8 + nat n"
  shows "replay_loop (pre @ rest) (length pre) acc = Inr acc"
  using assms by (subst replay_loop.simps) (simp add: Let_def)

lemma be_int_inj: "be_int a = be_int b \<Longrightarrow> length a = length b \<Longrightarrow> a = b"
  by (metis be_bytes_be_int)

text \<open>A record whose checksum field is changed.\<close>

lemma changed_checksum:
  assumes "length (p1 @ b # p2) = 8" and "4 \<le> length p1" and "b' \<noteq> b"
    and "\<And>more. unpack_from RECORD_PREFIX ((p1 @ b # p2) @ more) = Some [SInt n, SInt c]"
  shows "\<exists>c'. c' \<noteq> c \<and> (\<forall>more. unpack_from RECORD_PREFIX ((p1 @ b' # p2) @ more) = Some [SInt n, SInt c'])"
proof (intro exI conjI allI)
  have p1: "p1 = take 4 p1 @ drop 4 p1" "length (take 4 p1) = 4" using assms(2) by simp_all
  have four: "length (drop 4 p1 @ x # p2) = 4" for x using assms(1,2) by simp
  have up: "unpack_from RECORD_PREFIX ((p1 @ x # p2) @ more)
      = Some [SInt (be_int (take 4 p1)), SInt (be_int (drop 4 p1 @ x # p2))]" for x more
  proof -
    have "length (p1 @ x # p2) = 8" using assms(1) by simp
    moreover have "take 4 ((p1 @ x # p2) @ more) = take 4 p1" using assms(2) by simp
    moreover have "drop 4 ((p1 @ x # p2) @ more) = (drop 4 p1 @ x # p2) @ more" using assms(2) by simp
    then have "take 4 (drop 4 ((p1 @ x # p2) @ more)) = drop 4 p1 @ x # p2"
      using four [of x] by (metis append_eq_conv_conj)
    ultimately show ?thesis by (simp add: unpack_from_def RECORD_PREFIX_def)
  qed
  show "be_int (drop 4 p1 @ b' # p2) \<noteq> c"
  proof
    assume "be_int (drop 4 p1 @ b' # p2) = c"
    then have "be_int (drop 4 p1 @ b' # p2) = be_int (drop 4 p1 @ b # p2)" using up [of b "[]"] assms(4) [of "[]"] by simp
    from be_int_inj [OF this] show False using four [of b] four [of b'] assms(3) by simp
  qed
  show "unpack_from RECORD_PREFIX ((p1 @ b' # p2) @ more) = Some [SInt n, SInt (be_int (drop 4 p1 @ b' # p2))]" for more
    using up [of b' more] up [of b more] assms(4) [of more] by simp
qed

lemma overrunning_length:
  assumes "list_all record_ok xs" and "mapE encode_record xs = Inr bs" and "8 \<le> length record"
    and "unpack_from RECORD_PREFIX record = Some [SInt n, SInt c]" and "length record + length rest < 8 + nat n"
  shows "replay_loop (concat bs @ record @ rest) 0 [] = Inr xs"
proof -
  have "unpack_from RECORD_PREFIX (record @ rest) = unpack_from RECORD_PREFIX record"
    using assms(3) by (simp add: unpack_from_def RECORD_PREFIX_def)
  then have "replay_loop (concat bs @ record @ rest) (length (concat bs)) xs = Inr xs"
    using assms(3-5) by (intro replay_loop_overrun [where n = n and c = c]) simp_all
  then show ?thesis using journal_stream.items [OF assms(1,2), of "[]" "record @ rest" "[]"] by simp
qed


text \<open>A small record, for the witnesses: a promise of ballot 65537.\<close>

definition sample_record :: write_record where
  "sample_record = \<lparr>wr_kind = WK_PROMISE, wr_ballot = 65537, wr_slot = 0, wr_trim_id = 0,
     wr_trim_slot = 0, wr_entry = mk_entry EK_NONE [], wr_requires_barrier = True\<rparr>"

lemma sample_record_ok [simp]: "record_ok sample_record"
  by (simp add: sample_record_def record_ok_def is_width_defs)


text \<open>The first byte of the length of a record, changed to 1: the record and the one after it are gone.\<close>

lemma damaged_length_drops_all:
  assumes "encode_record sample_record = Inr b"
  shows "replay_loop (b @ b) 0 [] = Inr [sample_record, sample_record]" and "replay_loop ((1 # tl b) @ b) 0 [] = Inr []"
proof -
  show "replay_loop (b @ b) 0 [] = Inr [sample_record, sample_record]"
    using replay_whole [of "[sample_record, sample_record]" "[b, b]"] assms by simp
  obtain pfx payload where e: "b = pfx @ payload" "length pfx = 8"
    and u: "\<And>more. unpack_from RECORD_PREFIX (pfx @ more) = Some [SInt (int (length payload)), SInt (crc32 payload)]"
    and sh: "length payload = 40 + length (le_body (wr_entry sample_record))"
    using encode_record_shape [OF sample_record_ok] assms by auto
  have e3: "length payload = 40" using sh by (simp add: sample_record_def mk_entry_def)
  note e = e e3
  have four: "be_int [0, 0, 0, 40 :: 8 word] = 40" "be_int [1, 0, 0, 40 :: 8 word] = 16777256" by code_simp+
  have "be_int (take 4 pfx) = 40" using u [of "[]"] e(2,3) by (simp add: unpack_from_def RECORD_PREFIX_def)
  then have "take 4 pfx = [0, 0, 0, 40]" using be_int_inj [of "take 4 pfx" "[0, 0, 0, 40]"] four(1) e(2) by simp
  then have b: "b = [] @ 0 # ([0, 0, 40] @ drop 4 pfx @ payload)" using e(1) by (metis append.assoc append_Cons append_Nil append_take_drop_id)
  have "unpack_from RECORD_PREFIX ([] @ 1 # ([0, 0, 40] @ drop 4 pfx @ payload)) = Some [SInt 16777256, SInt (be_int (drop 4 pfx))]"
    using e(2) four(2) by (simp add: unpack_from_def RECORD_PREFIX_def)
  then show "replay_loop ((1 # tl b) @ b) 0 [] = Inr []"
    using overrunning_length [of "[]" "[]" "[] @ 1 # ([0, 0, 40] @ drop 4 pfx @ payload)" 16777256
        "be_int (drop 4 pfx)" b] b e(2,3) by simp
qed

subsection \<open>Opening\<close>

lemma header_bytes_ok:
  assumes "is_u64 fp" "is_u16 node" "is_u64 conf"
  shows "\<exists>h. header_bytes fp node conf = Inr h \<and> length h = 24
    \<and> (\<forall>fp' node' conf' rest. check_header fp' node' conf' (h @ rest) =
         (if node \<noteq> node' then Inl (err InvalidArgument [(''journal_node_id'', PInt node), (''opened_as'', PInt node')])
          else if conf \<noteq> conf' then Inl (err InvalidArgument [(''journal_configuration'', PInt conf), (''opened_as'', PInt conf')])
          else if fp \<noteq> fp' then Inl (err InvalidArgument [(''journal_profile'', PInt fp), (''local_profile'', PInt fp')])
          else Inr ()))"
proof -
  let ?vs = "[SBytes JOURNAL_MAGIC, SInt JOURNAL_FORMAT, SInt node, SInt conf, SInt fp]"
  have f: "list_all2 fits J_HEADER ?vs"
    using assms by (simp add: J_HEADER_def JOURNAL_MAGIC_def JOURNAL_FORMAT_def is_width_defs)
  obtain h where h: "pack J_HEADER ?vs = Some h" using pack_fits [OF f] by blast
  have l: "length h = 24" using pack_length [OF h] by simp
  have "unpack_from J_HEADER h = Some ?vs" using unpack_from_pack [OF f h, of "[]"] by simp
  then show ?thesis
    using h l by (intro exI [of _ h]) (simp add: header_bytes_def struct_pack_def check_header_def
        struct_unpack_def Let_def)
qed

definition empty_disk :: disk where
  "empty_disk = \<lparr>dk_file = None, dk_durable = 0, dk_locked = False\<rparr>"

definition open_journal :: journal where
  "open_journal = \<lparr>fj_file = True, fj_closed = False, fj_lock_fd = True, fj_synced = True, fj_at = None\<rparr>"

lemma open_fresh:
  assumes "header_bytes fp node conf = Inr h" and "file_bytes d = []" and "\<not> dk_locked d"
  shows "fj_open IoOk IoOk IoOk fp node conf new_journal d =
    (Inr (), open_journal, \<lparr>dk_file = Some h, dk_durable = length h, dk_locked = True\<rparr>)"
  using assms by (cases d) (simp add: fj_open_def fj_open_file_def new_journal_def Let_def file_write_def
      file_fsync_def file_bytes_def open_journal_def)

lemma open_existing:
  assumes "file_bytes d = b" "b \<noteq> []" and "\<not> dk_locked d"
  shows "fj_open o1 o2 o3 fp node conf new_journal d =
    (case check_header fp node conf b of
       Inr u \<Rightarrow> (Inr u, open_journal, d\<lparr>dk_locked := True\<rparr>)
     | Inl e \<Rightarrow>
        (case o3 of
           IoOk \<Rightarrow> (Inl e, new_journal, d)
         | IoFail n \<Rightarrow> (Inl OSErr, open_journal\<lparr>fj_closed := True\<rparr>, (lose_buffer n d)\<lparr>dk_locked := True\<rparr>)))"
  using assms by (cases d) (auto simp: fj_open_def fj_open_file_def new_journal_def Let_def file_bytes_def
      open_journal_def fj_release_def lose_buffer_def split: sum.splits io.splits)

text \<open>C29: A journal is bound to one identity. A directory created by one node, configuration and
  capacity profile, whatever has been appended since, opens for exactly that identity; any other is
  refused with \<^verbatim>\<open>InvalidArgument\<close>, and the refusal leaves the file, the lock and the journal object as
  they were; if the file cannot even be closed then, that \<^verbatim>\<open>OSError\<close> is raised instead, and the object
  keeps the lock.\<close>

theorem journal_identity_bound:
  assumes "is_u64 fp" "is_u16 node" "is_u64 conf" and "header_bytes fp node conf = Inr h"
    and "dk_file d = Some (h @ rest)" and "\<not> dk_locked d"
  shows "if (fp', node', conf') = (fp, node, conf)
    then fj_open o1 o2 o3 fp' node' conf' new_journal d = (Inr (), open_journal, d\<lparr>dk_locked := True\<rparr>)
    else (\<exists>c. fj_open o1 o2 IoOk fp' node' conf' new_journal d = (Inl (err InvalidArgument c), new_journal, d))
      \<and> (\<exists>j d'. fj_open o1 o2 (IoFail n) fp' node' conf' new_journal d = (Inl OSErr, j, d') \<and> fj_lock_fd j \<and> dk_locked d')"
proof -
  have b: "file_bytes d = h @ rest" and ne: "h @ rest \<noteq> []"
    using assms(5) header_bytes_ok [OF assms(1-3)] assms(4) by (auto simp: file_bytes_def)
  show ?thesis
    using header_bytes_ok [OF assms(1-3)] assms(4)
    by (auto simp: open_existing [OF b ne assms(6)] open_journal_def)
qed

text \<open>The header of the witnesses: node 1, configuration 1, profile 5.\<close>

definition sample_header :: bytes where
  "sample_header = [80, 88, 68, 74, 0, 1, 0, 1, 0, 0, 0, 0, 0, 0, 0, 1, 0, 0, 0, 0, 0, 0, 0, 5]"

lemma sample_header_bytes: "header_bytes 5 1 1 = Inr sample_header"
  by code_simp

theorem journal_identity_bound_witness:
  "\<exists>c. fj_open IoOk IoOk IoOk 5 2 1 new_journal
        \<lparr>dk_file = Some (sample_header @ [9]), dk_durable = 24, dk_locked = False\<rparr>
     = (Inl (err InvalidArgument c), new_journal,
        \<lparr>dk_file = Some (sample_header @ [9]), dk_durable = 24, dk_locked = False\<rparr>)"
  using journal_identity_bound [OF _ _ _ sample_header_bytes,
      of "\<lparr>dk_file = Some (sample_header @ [9]), dk_durable = 24, dk_locked = False\<rparr>" "[9]"
      5 2 1 IoOk IoOk IoOk]
  by (simp add: is_width_defs)

subsection \<open>Appending, syncing, failing, crashing\<close>

text \<open>The life of one directory since it was created, over any number of processes, with what the host has
  asked for as ghost state. Until a call fails: the records handed to \<^verbatim>\<open>append\<close>, and those that a successful
  \<^verbatim>\<open>sync\<close> covered; both stay as they are after that (the failing call included). \<open>rn_failed\<close> tells that a call has
  failed, or that a recovered file ends in a torn record; \<open>rn_spoiled\<close> that something was written since;
  \<open>rn_overwrote\<close> that it was written at a position that a failing \<^verbatim>\<open>replay\<close> had left inside the file.\<close>

record run =
  rn_journal :: journal
  rn_disk :: disk
  rn_appended :: "write_record list"
  rn_synced :: "write_record list"
  rn_failed :: bool
  rn_spoiled :: bool
  rn_overwrote :: bool

definition new_run :: "journal \<Rightarrow> disk \<Rightarrow> run" where
  "new_run j d = \<lparr>rn_journal = j, rn_disk = d, rn_appended = [], rn_synced = [], rn_failed = False,
     rn_spoiled = False, rn_overwrote = False\<rparr>"

text \<open>What is synced after a \<^verbatim>\<open>sync\<close> or \<^verbatim>\<open>close\<close>. One that finds \<^verbatim>\<open>_synced\<close> set does nothing.\<close>

definition covered :: "exn + unit \<Rightarrow> run \<Rightarrow> write_record list" where
  "covered r w = (if is_ok r \<and> \<not> rn_failed w \<and> fj_file (rn_journal w) \<and> \<not> fj_synced (rn_journal w)
     then rn_appended w else rn_synced w)"

definition note_append :: "write_record list \<Rightarrow> exn + unit \<Rightarrow> journal \<Rightarrow> disk \<Rightarrow> run \<Rightarrow> run" where
  "note_append rs r j d w = w\<lparr>rn_journal := j, rn_disk := d,
      rn_appended := (if rn_failed w then rn_appended w else rn_appended w @ rs),
      rn_failed := (rn_failed w \<or> \<not> is_ok r), rn_spoiled := (rn_spoiled w \<or> rn_failed w),
      rn_overwrote := (rn_overwrote w \<or> fj_at (rn_journal w) \<noteq> None)\<rparr>"

definition note_sync :: "exn + unit \<Rightarrow> journal \<Rightarrow> disk \<Rightarrow> run \<Rightarrow> run" where
  "note_sync r j d w = w\<lparr>rn_journal := j, rn_disk := d, rn_synced := covered r w,
      rn_failed := (rn_failed w \<or> \<not> is_ok r)\<rparr>"

text \<open>Whether bytes follow the records that a replay returned.\<close>

definition torn_after :: "exn + write_record list \<Rightarrow> disk \<Rightarrow> bool" where
  "torn_after r d = (case bindE r (mapE encode_record) of
     Inr bs \<Rightarrow> length (file_bytes d) \<noteq> J_HEADER_SIZE + length (concat bs) | Inl _ \<Rightarrow> True)"

text \<open>Any call, whether or not an earlier one has failed. \<open>Spill\<close>: after a failure the file object may hold
  bytes that it writes at any later time. \<open>Restart\<close>: the process closes or dies, unsynced bytes may be
  lost, and a new \<^verbatim>\<open>FileJournal\<close> opens the directory.\<close>

inductive run_step :: "int \<Rightarrow> int \<Rightarrow> int \<Rightarrow> run \<Rightarrow> run \<Rightarrow> bool" for fp node conf where
  Append: "list_all record_ok rs \<Longrightarrow> fj_append out rs (rn_journal w) (rn_disk w) = (r, j, d) \<Longrightarrow>
    run_step fp node conf w (note_append rs r j d w)"
| Sync: "fj_sync out (rn_journal w) (rn_disk w) = (r, j, d) \<Longrightarrow>
    run_step fp node conf w (note_sync r j d w)"
| Replay: "fj_replay out (rn_journal w) (rn_disk w) = (rr, j, d) \<Longrightarrow>
    run_step fp node conf w (w\<lparr>rn_journal := j, rn_disk := d, rn_failed := (rn_failed w \<or> \<not> is_ok rr)\<rparr>)"
| Close: "fj_close o1 o2 (rn_journal w) (rn_disk w) = (r, j, d) \<Longrightarrow>
    run_step fp node conf w (note_sync r j d w)"
| Spill: "rn_failed w \<Longrightarrow> file_put IoOk (fj_at (rn_journal w)) left (rn_disk w) = (r, pos, d) \<Longrightarrow>
    run_step fp node conf w (w\<lparr>rn_journal := (rn_journal w)\<lparr>fj_at := pos\<rparr>, rn_disk := d, rn_spoiled := True,
      rn_overwrote := (rn_overwrote w \<or> fj_at (rn_journal w) \<noteq> None)\<rparr>)"
| Restart: "fj_open o1 o2 o3 fp node conf new_journal (crash k (rn_disk w)) = (Inr (), j, d) \<Longrightarrow>
    fst (fj_replay IoOk j d) = rr \<Longrightarrow> torn = (rn_spoiled w \<or> torn_after rr d) \<Longrightarrow>
    run_step fp node conf w (w\<lparr>rn_journal := j, rn_disk := d, rn_failed := torn,
      rn_appended := (if torn then rn_appended w else case rr of Inr rs \<Rightarrow> rs | Inl _ \<Rightarrow> rn_appended w)\<rparr>)"

inductive run_reachable :: "int \<Rightarrow> int \<Rightarrow> int \<Rightarrow> run \<Rightarrow> bool" for fp node conf where
  Created: "fj_open IoOk IoOk IoOk fp node conf new_journal empty_disk = (Inr (), j, d) \<Longrightarrow>
    run_reachable fp node conf (new_run j d)"
| Step: "run_reachable fp node conf w \<Longrightarrow> run_step fp node conf w w' \<Longrightarrow> run_reachable fp node conf w'"

text \<open>Until something is written after a failure, the file is the header and a cut of the encodings of
  what was appended, complete while nothing has failed, and its durable part covers what was synced.\<close>

definition cut_of :: "('a \<Rightarrow> exn + bytes) \<Rightarrow> ('a \<Rightarrow> bool) \<Rightarrow> bytes \<Rightarrow> disk \<Rightarrow> 'a list \<Rightarrow> 'a list \<Rightarrow> bool \<Rightarrow> bool" where
  "cut_of enc ok h d xs ys failed = (\<exists>bs n m. list_all ok xs \<and> mapE enc xs = Inr bs
     \<and> n \<le> length (concat bs) \<and> dk_file d = Some (h @ take n (concat bs))
     \<and> (\<not> failed \<longrightarrow> n = length (concat bs)) \<and> m \<le> length xs \<and> ys = take m xs
     \<and> length h + length (concat (take m bs)) \<le> dk_durable d)"

abbreviation cut_file :: "bytes \<Rightarrow> disk \<Rightarrow> write_record list \<Rightarrow> write_record list \<Rightarrow> bool \<Rightarrow> bool" where
  "cut_file \<equiv> cut_of encode_record record_ok"

text \<open>After that, the durable part still begins with what was synced, until it is overwritten; the header
  stays in any case.\<close>

definition kept_file :: "bytes \<Rightarrow> disk \<Rightarrow> write_record list \<Rightarrow> bool" where
  "kept_file h d ys = (\<exists>bs rest1. list_all record_ok ys \<and> mapE encode_record ys = Inr bs
     \<and> dk_file d = Some (h @ concat bs @ rest1) \<and> length h + length (concat bs) \<le> dk_durable d)"

definition headed :: "bytes \<Rightarrow> disk \<Rightarrow> bool" where
  "headed h d = ((\<exists>rest1. dk_file d = Some (h @ rest1)) \<and> length h \<le> dk_durable d
     \<and> dk_durable d \<le> length (file_bytes d))"

definition run_inv :: "bytes \<Rightarrow> run \<Rightarrow> bool" where
  "run_inv h w = (headed h (rn_disk w)
     \<and> (case fj_at (rn_journal w) of None \<Rightarrow> True | Some p \<Rightarrow> rn_failed w \<and> length h \<le> p \<and> p \<le> length (file_bytes (rn_disk w)))
     \<and> (rn_overwrote w \<longrightarrow> rn_spoiled w) \<and> (rn_spoiled w \<longrightarrow> rn_failed w)
     \<and> (\<not> rn_spoiled w \<longrightarrow> cut_file h (rn_disk w) (rn_appended w) (rn_synced w) (rn_failed w))
     \<and> (\<not> rn_overwrote w \<longrightarrow> kept_file h (rn_disk w) (rn_synced w)))"

lemma mapE_append: "mapE f xs = Inr as \<Longrightarrow> mapE f ys = Inr bs \<Longrightarrow> mapE f (xs @ ys) = Inr (as @ bs)"
  by (induction xs arbitrary: as) (auto simp: bindE_eq_Inr)

lemma mapE_take: "mapE f xs = Inr bs \<Longrightarrow> mapE f (take m xs) = Inr (take m bs)"
proof (induction xs arbitrary: bs m)
  case (Cons x xs)
  then show ?case by (cases m) (auto simp: bindE_eq_Inr)
qed simp

lemma list_all_take: "list_all P xs \<Longrightarrow> list_all P (take m xs)"
  by (auto simp: list_all_iff dest: in_set_takeD)

lemma concat_take: "concat bs = concat (take m bs) @ concat (drop m bs)"
  by (metis append_take_drop_id concat_append)

lemma cut_kept:
  assumes "cut_file h d xs ys failed" and "dk_durable d \<le> length (file_bytes d)"
  shows "kept_file h d ys"
proof -
  obtain bs n m where c: "list_all record_ok xs" "mapE encode_record xs = Inr bs" "n \<le> length (concat bs)"
    "dk_file d = Some (h @ take n (concat bs))" "m \<le> length xs" "ys = take m xs"
    "length h + length (concat (take m bs)) \<le> dk_durable d"
    using assms(1) by (auto simp: cut_of_def)
  have "length (concat (take m bs)) \<le> n" using c(3,4,7) assms(2) by (simp add: file_bytes_def)
  then have "take n (concat bs) = concat (take m bs) @ take (n - length (concat (take m bs))) (concat (drop m bs))"
    by (subst concat_take [of bs m]) simp
  then show ?thesis using c mapE_take [OF c(2), of m] list_all_take [OF c(1), of m]
    unfolding kept_file_def by (intro exI [of _ "take m bs"] exI) auto
qed

text \<open>Steps that keep every durable byte.\<close>

definition durable_kept :: "disk \<Rightarrow> disk \<Rightarrow> bool" where
  "durable_kept d d' = (dk_file d' \<noteq> None \<and> dk_durable d \<le> dk_durable d' \<and> dk_durable d' \<le> length (file_bytes d')
     \<and> take (dk_durable d) (file_bytes d') = take (dk_durable d) (file_bytes d))"

lemma prefix_kept:
  assumes "durable_kept d d'" and "file_bytes d = a @ rest1" and "length a \<le> dk_durable d"
  shows "\<exists>rest2. dk_file d' = Some (a @ rest2)"
proof -
  obtain b where b: "dk_file d' = Some b" using assms(1) by (auto simp: durable_kept_def)
  have "take (length a) b = take (length a) (take (dk_durable d) (file_bytes d'))"
    using b assms(3) by (simp add: file_bytes_def min_absorb1)
  also have "... = a" using assms by (simp add: durable_kept_def min_absorb1)
  finally have "b = a @ drop (length a) b" by (metis append_take_drop_id)
  with b show ?thesis by metis
qed

lemma headed_kept:
  assumes "headed h d" and "durable_kept d d'"
  shows "headed h d'"
proof -
  obtain rest1 where "dk_file d = Some (h @ rest1)" "length h \<le> dk_durable d" using assms(1) by (auto simp: headed_def)
  with prefix_kept [OF assms(2), of h rest1] assms(2) show ?thesis
    by (auto simp: headed_def durable_kept_def file_bytes_def)
qed

lemma kept_kept:
  assumes "kept_file h d ys" and "durable_kept d d'"
  shows "kept_file h d' ys"
proof -
  obtain bs rest1 where k: "list_all record_ok ys" "mapE encode_record ys = Inr bs"
    "dk_file d = Some (h @ concat bs @ rest1)" "length h + length (concat bs) \<le> dk_durable d"
    using assms(1) by (auto simp: kept_file_def)
  then have "\<exists>rest2. dk_file d' = Some ((h @ concat bs) @ rest2)"
    using prefix_kept [OF assms(2), of "h @ concat bs" rest1] by (simp add: file_bytes_def)
  then show ?thesis using k assms(2) by (auto simp: kept_file_def durable_kept_def)
qed

lemma kept_same:
  assumes "headed h d" and "dk_file d' = dk_file d" and "dk_durable d \<le> dk_durable d'"
    and "dk_durable d' \<le> length (file_bytes d)"
  shows "durable_kept d d'"
  using assms by (auto simp: durable_kept_def headed_def file_bytes_def)

lemma kept_refl: "headed h d \<Longrightarrow> durable_kept d d"
  by (rule kept_same) (auto simp: headed_def)

lemma kept_written:
  assumes "headed h d" and "file_put out None b d = (r, pos, d')"
  shows "durable_kept d d'"
  using assms by (auto simp: file_put_def file_write_def durable_kept_def headed_def file_bytes_def split: io.splits)

lemma kept_lost: "headed h d \<Longrightarrow> durable_kept d (lose_buffer n d)"
  by (auto simp: durable_kept_def lose_buffer_def headed_def file_bytes_def)

lemma kept_trans: "durable_kept d d1 \<Longrightarrow> durable_kept d1 d2 \<Longrightarrow> durable_kept d d2"
proof -
  assume a: "durable_kept d d1" "durable_kept d1 d2"
  have "take (dk_durable d) (file_bytes d2) = take (dk_durable d) (take (dk_durable d1) (file_bytes d2))"
    using a(1) by (simp add: durable_kept_def min_absorb1)
  also have "... = take (dk_durable d) (file_bytes d1)" using a by (simp add: durable_kept_def min_absorb1)
  finally show ?thesis using a by (simp add: durable_kept_def)
qed

lemma kept_lock: "durable_kept d d' \<Longrightarrow> durable_kept d (d'\<lparr>dk_locked := b\<rparr>)"
  by (simp add: durable_kept_def file_bytes_def)

text \<open>The same for the cut.\<close>

lemma cut_same:
  assumes "cut_of enc ok h d xs ys f" and "dk_file d' = dk_file d" and "dk_durable d \<le> dk_durable d'" and "f \<longrightarrow> f'"
  shows "cut_of enc ok h d' xs ys f'"
proof -
  obtain bs n m where c: "list_all ok xs" "mapE enc xs = Inr bs" "n \<le> length (concat bs)"
    "dk_file d = Some (h @ take n (concat bs))" "\<not> f \<longrightarrow> n = length (concat bs)" "m \<le> length xs" "ys = take m xs"
    "length h + length (concat (take m bs)) \<le> dk_durable d"
    using assms(1) unfolding cut_of_def by blast
  have "\<not> f' \<longrightarrow> n = length (concat bs)" "length h + length (concat (take m bs)) \<le> dk_durable d'"
    using c(5,8) assms(3,4) by auto
  then show ?thesis using c(1-4,6,7) assms(2) unfolding cut_of_def by metis
qed

lemma cut_lost:
  assumes "cut_of enc ok h d xs ys f" and "length h \<le> dk_durable d"
  shows "cut_of enc ok h (lose_buffer n d) xs ys True"
proof -
  obtain bs i m where c: "list_all ok xs" "mapE enc xs = Inr bs" "i \<le> length (concat bs)"
    "dk_file d = Some (h @ take i (concat bs))" "m \<le> length xs" "ys = take m xs"
    "length h + length (concat (take m bs)) \<le> dk_durable d"
    using assms(1) by (auto simp: cut_of_def)
  have "dk_file (lose_buffer n d) = Some (h @ take (min (max n (dk_durable d) - length h) i) (concat bs))"
    using c(4) assms(2) by (simp add: lose_buffer_def)
  then show ?thesis using c unfolding cut_of_def
    by (intro exI [of _ bs] exI [of _ "min (max n (dk_durable d) - length h) i"] exI [of _ m])
       (simp add: lose_buffer_def)
qed

lemma cut_synced:
  assumes "cut_of enc ok h d xs ys False" and "dk_file d' = dk_file d" and "dk_durable d' = length (file_bytes d)"
  shows "cut_of enc ok h d' xs xs f"
proof -
  obtain bs where "list_all ok xs" "mapE enc xs = Inr bs" "dk_file d = Some (h @ concat bs)"
    using assms(1) by (auto simp: cut_of_def)
  moreover have "length xs = length bs" using calculation(2) mapE_length by metis
  ultimately show ?thesis using assms(2,3) unfolding cut_of_def
    by (intro exI [of _ bs] exI [of _ "length (concat bs)"] exI [of _ "length xs"]) (simp add: file_bytes_def)
qed

lemma cut_written:
  assumes "cut_of enc ok h d xs ys False" and "list_all ok rs" and "mapE enc rs = Inr bs'"
    and "file_put out None (concat bs') d = (r, pos, d')"
  shows "cut_of enc ok h d' (xs @ rs) ys (\<not> is_ok r)"
proof -
  obtain bs m where c: "list_all ok xs" "mapE enc xs = Inr bs" "dk_file d = Some (h @ concat bs)"
    "m \<le> length xs" "ys = take m xs" "length h + length (concat (take m bs)) \<le> dk_durable d"
    using assms(1) by (auto simp: cut_of_def)
  have len: "length xs = length bs" using c(2) mapE_length by metis
  define n where "n = (case out of IoOk \<Rightarrow> length (concat bs') | IoFail k \<Rightarrow> min k (length (concat bs')))"
  have take_min: "take (min k (length (concat bs'))) (concat bs') = take k (concat bs')" for k by (simp add: min_def)
  have "dk_file d' = Some (h @ concat bs @ take n (concat bs'))" "dk_durable d' = dk_durable d"
    and ok: "is_ok r \<longrightarrow> n = length (concat bs')" "n \<le> length (concat bs')"
    using assms(4) c(3) by (auto simp: file_put_def file_write_def file_bytes_def n_def take_min simp del: length_concat split: io.splits)
  moreover have "mapE enc (xs @ rs) = Inr (bs @ bs')" using c(2) assms(3) by (rule mapE_append)
  ultimately show ?thesis using c assms(2) len unfolding cut_of_def
    by (intro exI [of _ "bs @ bs'"] exI [of _ "length (concat bs) + n"] exI [of _ m]) simp
qed

text \<open>The operations of the journal on the file.\<close>

lemma append_effect:
  assumes "fj_append out rs j d = (r, j', d')" and "list_all record_ok rs"
  shows "d' = d \<and> fj_at j' = fj_at j \<and> (is_ok r \<longrightarrow> rs = [])
    \<or> (\<exists>bs' r' pos. mapE encode_record rs = Inr bs' \<and> file_put out (fj_at j) (concat bs') d = (r', pos, d')
         \<and> is_ok r = is_ok r' \<and> fj_at j' = pos)"
  using assms(1) by (auto simp: fj_append_def split: if_splits sum.splits prod.splits)

lemma sync_effect:
  assumes "fj_sync out j d = (r, j', d')"
  shows "fj_at j' = fj_at j
    \<and> (d' = d \<and> (is_ok r \<longrightarrow> fj_synced j \<or> \<not> fj_file j)
       \<or> is_ok r \<and> fj_file j \<and> \<not> fj_synced j \<and> d' = d\<lparr>dk_durable := length (file_bytes d)\<rparr>)"
  using assms by (auto simp: fj_sync_def file_fsync_def split: if_splits io.splits)

lemma release_effect:
  assumes "fj_release out j d = (r, j', d')"
  shows "fj_at j' = None \<and> (is_ok r \<and> (d' = d \<or> d' = d\<lparr>dk_locked := False\<rparr>)
    \<or> \<not> is_ok r \<and> (\<exists>n. d' = lose_buffer n d))"
  using assms by (auto simp: fj_release_def split: if_splits io.splits)

lemma close_effect:
  assumes "fj_close o1 o2 j d = (r, j', d')"
  shows "(fj_at j' = None \<or> fj_at j' = fj_at j \<and> d' = d)
    \<and> (\<exists>d1 d2. (d1 = d \<or> d1 = d\<lparr>dk_durable := length (file_bytes d)\<rparr>)
       \<and> (is_ok r \<and> d2 = d1 \<or> \<not> is_ok r \<and> (d2 = d1 \<or> (\<exists>n. d2 = lose_buffer n d1)))
       \<and> (d' = d2 \<or> d' = d2\<lparr>dk_locked := False\<rparr>)
       \<and> (is_ok r \<and> fj_file j \<and> \<not> fj_synced j \<longrightarrow> d1 = d\<lparr>dk_durable := length (file_bytes d)\<rparr>))"
proof (cases "fj_file j")
  case True
  obtain r1 j1 d1 where s: "fj_sync o1 j d = (r1, j1, d1)" by (cases "fj_sync o1 j d") auto
  obtain r2 j2 d2 where l: "fj_release o2 j1 d1 = (r2, j2, d2)" by (cases "fj_release o2 j1 d1") auto
  have res: "j' = j2" "d' = d2" "is_ok r = (is_ok r1 \<and> is_ok r2)"
    using assms True s l by (auto simp: fj_close_def split: sum.splits)
  have a: "d1 = d \<or> d1 = d\<lparr>dk_durable := length (file_bytes d)\<rparr>"
    and b: "is_ok r1 \<and> \<not> fj_synced j \<longrightarrow> d1 = d\<lparr>dk_durable := length (file_bytes d)\<rparr>" and c: "fj_at j1 = fj_at j"
    using sync_effect [OF s] True by auto
  from release_effect [OF l] have n: "fj_at j2 = None"
    and e: "is_ok r2 \<and> (d2 = d1 \<or> d2 = d1\<lparr>dk_locked := False\<rparr>) \<or> \<not> is_ok r2 \<and> (\<exists>n. d2 = lose_buffer n d1)" by auto
  from e show ?thesis
  proof
    assume "is_ok r2 \<and> (d2 = d1 \<or> d2 = d1\<lparr>dk_locked := False\<rparr>)"
    then show ?thesis using a b n unfolding res by (intro conjI exI [of _ d1] exI [of _ d1]) auto
  next
    assume "\<not> is_ok r2 \<and> (\<exists>n. d2 = lose_buffer n d1)"
    then show ?thesis using a b n unfolding res by (intro conjI exI [of _ d1] exI [of _ d2]) auto
  qed
next
  case False
  then have "r = Inr ()" "j' = j" "d' = d" using assms by (simp_all add: fj_close_def)
  then show ?thesis using False by auto
qed

lemma run_inv_created:
  assumes "header_bytes fp node conf = Inr h"
    and "fj_open IoOk IoOk IoOk fp node conf new_journal empty_disk = (Inr (), j, d)"
  shows "run_inv h (new_run j d)"
proof -
  have "j = open_journal \<and> d = \<lparr>dk_file = Some h, dk_durable = length h, dk_locked = True\<rparr>"
    using assms(2) open_fresh [OF assms(1), of empty_disk] by (simp add: empty_disk_def file_bytes_def)
  then show ?thesis
    by (simp add: run_inv_def new_run_def headed_def cut_of_def kept_file_def file_bytes_def open_journal_def)
qed

lemma run_inv_parts:
  assumes "run_inv h w"
  shows "headed h (rn_disk w)" and "\<not> rn_spoiled w \<Longrightarrow> cut_file h (rn_disk w) (rn_appended w) (rn_synced w) (rn_failed w)"
    and "\<not> rn_overwrote w \<Longrightarrow> kept_file h (rn_disk w) (rn_synced w)"
    and "\<not> rn_failed w \<Longrightarrow> fj_at (rn_journal w) = None \<and> \<not> rn_spoiled w \<and> \<not> rn_overwrote w"
    and "rn_overwrote w \<Longrightarrow> rn_spoiled w" and "rn_spoiled w \<Longrightarrow> rn_failed w"
    and "fj_at (rn_journal w) = Some p \<Longrightarrow> rn_failed w \<and> length h \<le> p \<and> p \<le> length (file_bytes (rn_disk w))"
  using assms by (auto simp: run_inv_def split: option.splits)

lemma run_invI:
  assumes "headed h (rn_disk w)"
    and "\<And>p. fj_at (rn_journal w) = Some p \<Longrightarrow> rn_failed w \<and> length h \<le> p \<and> p \<le> length (file_bytes (rn_disk w))"
    and "rn_overwrote w \<Longrightarrow> rn_spoiled w" and "rn_spoiled w \<Longrightarrow> rn_failed w"
    and "\<not> rn_spoiled w \<Longrightarrow> cut_file h (rn_disk w) (rn_appended w) (rn_synced w) (rn_failed w)"
    and "\<not> rn_overwrote w \<Longrightarrow> kept_file h (rn_disk w) (rn_synced w)"
  shows "run_inv h w"
  using assms by (simp add: run_inv_def split: option.splits)

lemma overwritten_headed:
  assumes "headed h d" and "file_put out (Some p) b d = (r, pos, d')" and "length h \<le> p" and "p \<le> length (file_bytes d)"
  shows "headed h d' \<and> (\<exists>q. pos = Some q \<and> length h \<le> q \<and> q \<le> length (file_bytes d'))"
proof -
  obtain rest1 where m: "dk_file d = Some (h @ rest1)" "length h \<le> dk_durable d" "dk_durable d \<le> length (h @ rest1)"
    using assms(1) by (auto simp: headed_def file_bytes_def)
  have "take p (h @ rest1) = h @ take (p - length h) rest1" using assms(3) by simp
  then show ?thesis using assms(2-4) m
    by (auto simp: file_put_def Let_def headed_def file_bytes_def split: io.splits)
qed

text \<open>A write, at the end or at a lost position, by a host that goes on after a failure.\<close>

lemma put_keeps:
  assumes "run_inv h w" and "file_put out (fj_at (rn_journal w)) b (rn_disk w) = (r, pos, d)"
  shows "headed h d \<and> (fj_at (rn_journal w) = None \<longrightarrow> pos = None \<and> durable_kept (rn_disk w) d)
    \<and> (fj_at (rn_journal w) \<noteq> None \<longrightarrow> (\<exists>q. pos = Some q \<and> length h \<le> q \<and> q \<le> length (file_bytes d)))"
proof (cases "fj_at (rn_journal w)")
  case None
  then have "durable_kept (rn_disk w) d" "pos = None"
    using kept_written [OF run_inv_parts(1) [OF assms(1)], of out b r pos d] assms(2)
    by (auto simp: file_put_def split: prod.splits)
  then show ?thesis using headed_kept [OF run_inv_parts(1) [OF assms(1)]] None by simp
next
  case (Some p)
  then show ?thesis
    using overwritten_headed [OF run_inv_parts(1) [OF assms(1)], of out p b r pos d] assms(2)
      run_inv_parts(7) [OF assms(1) Some] by auto
qed

lemma run_inv_append:
  assumes inv: "run_inv h w" and rs: "list_all record_ok rs"
    and app: "fj_append out rs (rn_journal w) (rn_disk w) = (r, j, d)"
  shows "run_inv h (note_append rs r j d w)"
proof -
  note p = run_inv_parts [OF inv]
  obtain bs' where bs': "mapE encode_record rs = Inr bs'" using journal_stream.encodes_all [OF rs] by blast
  from append_effect [OF app rs] consider
      (none) "d = rn_disk w" "fj_at j = fj_at (rn_journal w)" "is_ok r \<longrightarrow> rs = []"
    | (put) r' pos where "file_put out (fj_at (rn_journal w)) (concat bs') (rn_disk w) = (r', pos, d)"
        "is_ok r = is_ok r'" "fj_at j = pos"
    using bs' by auto
  then show ?thesis
  proof cases
    case none
    have "cut_file h d (rn_appended w @ rs) (rn_synced w) (\<not> is_ok r)" if "\<not> rn_failed w"
    proof (cases "rs = []")
      case True
      then show ?thesis using p(2,4) that none(1) cut_same [of _ _ h d _ _ False d] by simp
    next
      case False
      have c: "cut_file h d (rn_appended w) (rn_synced w) False" using p(2,4) that none(1) by simp
      have f: "dk_file d = Some (file_bytes d)" using p(1) none(1) by (auto simp: headed_def file_bytes_def)
      have "file_put (IoFail 0) None (concat bs') d = (Inl OSErr, None, d\<lparr>dk_file := Some (file_bytes d)\<rparr>)"
        by (simp add: file_put_def file_write_def)
      from cut_written [OF c rs bs' this]
      have "cut_file h (d\<lparr>dk_file := Some (file_bytes d)\<rparr>) (rn_appended w @ rs) (rn_synced w) True" by simp
      from cut_same [OF this, of d True] show ?thesis using f none(3) False by simp
    qed
    note cut = this
    have ov: "rn_overwrote w \<or> fj_at (rn_journal w) \<noteq> None \<Longrightarrow> rn_spoiled w \<or> rn_failed w" using p(5,7) by auto
    show ?thesis unfolding note_append_def
      by (rule run_invI) (use p(1,3,6,7) cut ov none(1,2) in \<open>simp_all, blast+\<close>)
  next
    case (put r' pos)
    note k = put_keeps [OF inv put(1)]
    have kept: "kept_file h d (rn_synced w)" if "\<not> rn_overwrote w" "fj_at (rn_journal w) = None"
      using kept_kept p(3) that k by blast
    show ?thesis
    proof (cases "rn_failed w")
      case True
      then show ?thesis using k kept p(5) put(3) unfolding note_append_def by (intro run_invI) auto
    next
      case False
      note c = p(2) [OF conjunct1 [OF conjunct2 [OF p(4) [OF False]]]]
      have "cut_file h d (rn_appended w @ rs) (rn_synced w) (\<not> is_ok r)"
        using cut_written [OF _ rs bs', of h "rn_disk w" "rn_appended w" "rn_synced w" out r' pos d] c p(4) put(1,2) False by simp
      then show ?thesis using False k kept p(4) put(3) unfolding note_append_def by (intro run_invI) auto
    qed
  qed
qed

text \<open>A \<^verbatim>\<open>sync\<close> or \<^verbatim>\<open>close\<close>, over what they do to the file.\<close>

lemma run_inv_settle:
  assumes inv: "run_inv h w" and d1: "d1 = rn_disk w \<or> d1 = (rn_disk w)\<lparr>dk_durable := length (file_bytes (rn_disk w))\<rparr>"
    and d2: "is_ok r \<and> d2 = d1 \<or> \<not> is_ok r \<and> (d2 = d1 \<or> (\<exists>n. d2 = lose_buffer n d1))"
    and d: "d = d2 \<or> d = d2\<lparr>dk_locked := False\<rparr>"
    and c: "is_ok r \<and> fj_file (rn_journal w) \<and> \<not> fj_synced (rn_journal w) \<longrightarrow>
      d1 = (rn_disk w)\<lparr>dk_durable := length (file_bytes (rn_disk w))\<rparr>"
    and j: "fj_at j = None \<or> fj_at j = fj_at (rn_journal w) \<and> dk_file d = dk_file (rn_disk w)"
  shows "run_inv h (note_sync r j d w)"
proof -
  note p = run_inv_parts [OF inv]
  have hd: "dk_durable (rn_disk w) \<le> length (file_bytes (rn_disk w))" "length h \<le> dk_durable (rn_disk w)"
    using p(1) by (auto simp: headed_def)
  have k1: "durable_kept (rn_disk w) d1" by (rule kept_same [OF p(1)]) (use d1 hd in auto)
  have h1: "headed h d1" by (rule headed_kept [OF p(1) k1])
  have "durable_kept d1 d2" using d2 kept_refl [OF h1] kept_lost [OF h1] by auto
  then have k: "durable_kept (rn_disk w) d" using kept_trans [OF k1] kept_lock d by blast
  have dd: "dk_file d = dk_file d2" "dk_durable d = dk_durable d2" "file_bytes d = file_bytes d2"
    using d by (auto simp: file_bytes_def)
  have f1: "dk_file d1 = dk_file (rn_disk w)" "dk_durable (rn_disk w) \<le> dk_durable d1" using d1 hd by auto
  have cut: "cut_file h d (rn_appended w) (covered r w) (rn_failed w \<or> \<not> is_ok r)" if "\<not> rn_spoiled w"
  proof (cases "is_ok r")
    case True
    then have d2': "d2 = d1" using d2 by simp
    show ?thesis
    proof (cases "\<not> rn_failed w \<and> fj_file (rn_journal w) \<and> \<not> fj_synced (rn_journal w)")
      case t: True
      then show ?thesis
        using cut_synced [of _ _ h "rn_disk w" "rn_appended w" "rn_synced w" d] p(2) that True c d2' dd f1
        by (simp add: covered_def)
    next
      case False
      then have "covered r w = rn_synced w" by (auto simp: covered_def)
      then show ?thesis using cut_same [OF p(2) [OF that], of d] dd f1 d2' by auto
    qed
  next
    case False
    then have cv: "covered r w = rn_synced w" by (simp add: covered_def)
    have c1: "cut_file h d1 (rn_appended w) (rn_synced w) (rn_failed w)"
      by (rule cut_same [OF p(2) [OF that] f1]) simp
    have "cut_file h d2 (rn_appended w) (rn_synced w) True"
      using d2 False cut_lost [OF c1] cut_same [OF c1, of d2 True] h1 by (auto simp: headed_def)
    then show ?thesis using cut_same [of _ _ h d2 _ _ True d] dd cv False by simp
  qed
  have "kept_file h d (covered r w)" if "\<not> rn_overwrote w"
  proof (cases "covered r w = rn_synced w")
    case True
    then show ?thesis using kept_kept [OF p(3) [OF that] k] by simp
  next
    case False
    then have "\<not> rn_spoiled w" using p(6) by (auto simp: covered_def split: if_splits)
    from cut_kept [OF cut [OF this]] show ?thesis using k by (simp add: durable_kept_def)
  qed
  moreover have "rn_failed w \<and> length h \<le> q \<and> q \<le> length (file_bytes d)" if "fj_at j = Some q" for q
  proof -
    have "fj_at (rn_journal w) = Some q" "file_bytes d = file_bytes (rn_disk w)" using j that by (auto simp: file_bytes_def)
    then show ?thesis using p(7) by simp
  qed
  ultimately show ?thesis using headed_kept [OF p(1) k] cut p(5,6) unfolding note_sync_def by (intro run_invI) auto
qed

lemma cut_read:
  assumes "cut_file h d xs ys f" and "length h = 24" and "dk_durable d \<le> length (file_bytes d)"
  obtains bs n q where "mapE encode_record xs = Inr bs" and "n \<le> length (concat bs)"
    and "dk_file d = Some (h @ take n (concat bs))" and "q \<le> length xs"
    and "replay_loop (drop 24 (file_bytes d)) 0 [] = Inr (take q xs)" and "length (concat (take q bs)) \<le> n"
    and "prefix ys (take q xs)"
proof -
  obtain bs n m where c: "list_all record_ok xs" "mapE encode_record xs = Inr bs" "n \<le> length (concat bs)"
    "dk_file d = Some (h @ take n (concat bs))" "m \<le> length xs" "ys = take m xs"
    "length h + length (concat (take m bs)) \<le> dk_durable d"
    using assms(1) by (auto simp: cut_of_def)
  have m: "length (concat (take m bs)) \<le> n" using c(3,4,7) assms(3) by (simp add: file_bytes_def)
  obtain q where q: "q \<le> length xs" "replay_loop (take n (concat bs)) 0 [] = Inr (take q xs)"
    "length (concat (take q bs)) \<le> n" "m \<le> q"
    using journal_stream.cut [OF c(1,2), of "[]" n "[]"] m c(5) by auto
  have "prefix ys (take q xs)" using q(4) c(6) by (metis min.absorb1 take_is_prefix take_take)
  moreover have "drop 24 (file_bytes d) = take n (concat bs)" using c(4) assms(2) by (simp add: file_bytes_def)
  ultimately show thesis using that [OF c(2-4) q(1) _ q(3)] q(2) by simp
qed

text \<open>A replay only adds to what it has read.\<close>

lemma replay_loop_extends: "replay_loop blob i acc = Inr rs \<Longrightarrow> prefix acc rs"
proof (induction "length blob - i" arbitrary: i acc rule: less_induct)
  case less
  have more: "prefix acc rs" if "i < length blob" "replay_loop blob (i + 8 + n) (acc @ [r]) = Inr rs" for n r
    using less(1) [OF _ that(2)] that(1) append_prefixD by fastforce
  from less(2) more show ?case
    by (subst (asm) replay_loop.simps)
       (auto simp: Let_def bindE_eq_Inr split: if_splits option.splits)
qed

lemma kept_read:
  assumes "kept_file h d ys" and "length h = 24" and "replay_loop (drop 24 (file_bytes d)) 0 [] = Inr rs"
  shows "prefix ys rs"
proof -
  obtain bs rest1 where k: "list_all record_ok ys" "mapE encode_record ys = Inr bs" "dk_file d = Some (h @ concat bs @ rest1)"
    using assms(1) by (auto simp: kept_file_def)
  have "replay_loop (concat bs @ rest1) 0 [] = replay_loop (concat bs @ rest1) (length (concat bs)) ys"
    using journal_stream.items [OF k(1,2), of "[]" rest1 "[]"] by simp
  then show ?thesis using assms(2,3) k(3) replay_loop_extends by (metis append_eq_conv_conj file_bytes_def option.simps(5))
qed

text \<open>Reopening after a crash.\<close>

lemma crash_kept: "headed h d \<Longrightarrow> durable_kept d ((crash k d)\<lparr>dk_locked := b\<rparr>)"
  unfolding crash_def by (intro kept_lock kept_lost)

lemma reopens:
  assumes "headed h d" and "length h = 24" and "\<And>rest. check_header fp node conf (h @ rest) = Inr ()"
  shows "fj_open o1 o2 o3 fp node conf new_journal (crash k d) = (Inr (), open_journal, (crash k d)\<lparr>dk_locked := True\<rparr>)"
proof -
  obtain rest1 where r: "dk_file (crash k d) = Some (h @ rest1)"
    using headed_kept [OF assms(1) crash_kept [OF assms(1), where k = k and b = False]] by (auto simp: headed_def crash_def)
  have "file_bytes (crash k d) = h @ rest1" "h @ rest1 \<noteq> []" using r assms(2) by (auto simp: file_bytes_def)
  from open_existing [OF this] show ?thesis using assms(3) by simp
qed

lemma run_inv_restart:
  assumes inv: "run_inv h w" and h: "length h = 24" "\<And>rest. check_header fp node conf (h @ rest) = Inr ()"
    and op: "fj_open o1 o2 o3 fp node conf new_journal (crash k (rn_disk w)) = (Inr (), j, d)"
    and rr: "fst (fj_replay IoOk j d) = rr" and torn: "torn = (rn_spoiled w \<or> torn_after rr d)"
  shows "run_inv h (w\<lparr>rn_journal := j, rn_disk := d, rn_failed := torn,
      rn_appended := (if torn then rn_appended w else case rr of Inr rs \<Rightarrow> rs | Inl _ \<Rightarrow> rn_appended w)\<rparr>)"
proof -
  note p = run_inv_parts [OF inv]
  have jd: "j = open_journal" "d = (crash k (rn_disk w))\<lparr>dk_locked := True\<rparr>"
    using op reopens [OF p(1) h, of o1 o2 o3 k] by simp_all
  have k: "durable_kept (rn_disk w) d" unfolding jd(2) by (rule crash_kept [OF p(1)])
  have read: "rr = replay_loop (drop 24 (file_bytes d)) 0 []" using rr by (simp add: jd(1) fj_replay_def open_journal_def)
  have dd: "dk_file d = dk_file (lose_buffer k (rn_disk w))" "dk_durable d = dk_durable (lose_buffer k (rn_disk w))"
    by (simp_all add: jd(2) crash_def)
  have cut: "cut_file h d (if torn then rn_appended w else case rr of Inr rs \<Rightarrow> rs | Inl _ \<Rightarrow> rn_appended w) (rn_synced w) torn"
    if ns: "\<not> rn_spoiled w"
  proof -
    have c: "cut_file h d (rn_appended w) (rn_synced w) True"
      using cut_same [OF cut_lost [OF p(2) [OF ns], of k], of d True] dd p(1) by (simp add: headed_def)
    obtain bs n q where r: "mapE encode_record (rn_appended w) = Inr bs" "n \<le> length (concat bs)"
      "dk_file d = Some (h @ take n (concat bs))" "q \<le> length (rn_appended w)"
      "replay_loop (drop 24 (file_bytes d)) 0 [] = Inr (take q (rn_appended w))" "length (concat (take q bs)) \<le> n"
      "prefix (rn_synced w) (take q (rn_appended w))"
      using cut_read [OF c h(1)] k by (auto simp: durable_kept_def)
    show ?thesis
    proof (cases torn)
      case True
      then show ?thesis using c by simp
    next
      case False
      have e: "mapE encode_record (take q (rn_appended w)) = Inr (take q bs)" by (rule mapE_take [OF r(1)])
      have "length (file_bytes d) = 24 + length (concat (take q bs))"
        using False torn ns read r(5) e by (simp add: torn_after_def)
      then have n: "n = length (concat (take q bs))" using r(2,3) h(1) by (simp add: file_bytes_def min_absorb2)
      have tk: "take n (concat bs) = concat (take q bs)" unfolding n by (subst concat_take [of bs q]) simp
      obtain bs0 m where m: "m \<le> length (rn_appended w)" "rn_synced w = take m (rn_appended w)"
        "mapE encode_record (rn_appended w) = Inr bs0" "length h + length (concat (take m bs0)) \<le> dk_durable d"
        "list_all record_ok (rn_appended w)"
        using c by (auto simp: cut_of_def)
      have bs0: "bs0 = bs" using m(3) r(1) by simp
      have mq: "m \<le> q" using r(4,7) m(1,2) by (metis length_take min.absorb2 prefix_length_le)
      show ?thesis unfolding cut_of_def using False read r(3,4,5) e tk m(2,4,5) mq bs0 h(1) n
        by (intro exI [of _ "take q bs"] exI [of _ n] exI [of _ m])
           (simp add: list_all_take min_absorb1 min_absorb2)
    qed
  qed
  have kept: "kept_file h d (rn_synced w)" if "\<not> rn_overwrote w" by (rule kept_kept [OF p(3) [OF that] k])
  show ?thesis
    by (rule run_invI) (use headed_kept [OF p(1) k] p(5) torn cut kept jd(1) in \<open>simp_all add: open_journal_def\<close>)
qed

lemma run_inv_step:
  assumes "run_step fp node conf w w'" and inv: "run_inv h w"
    and h: "length h = 24" "\<And>rest. check_header fp node conf (h @ rest) = Inr ()"
  shows "run_inv h w'"
  using assms(1)
proof cases
  case (Append rs out r j d)
  show ?thesis unfolding Append(1) by (rule run_inv_append [OF inv Append(2,3)])
next
  case (Sync out r j d)
  from sync_effect [OF Sync(2)] show ?thesis unfolding Sync(1)
    by (intro run_inv_settle [OF inv, where ?d1.0 = d and ?d2.0 = d]) auto
next
  case (Close o1 o2 r j d)
  from close_effect [OF Close(2)] obtain d1 d2 where "d1 = rn_disk w \<or> d1 = (rn_disk w)\<lparr>dk_durable := length (file_bytes (rn_disk w))\<rparr>"
    "is_ok r \<and> d2 = d1 \<or> \<not> is_ok r \<and> (d2 = d1 \<or> (\<exists>n. d2 = lose_buffer n d1))" "d = d2 \<or> d = d2\<lparr>dk_locked := False\<rparr>"
    "is_ok r \<and> fj_file (rn_journal w) \<and> \<not> fj_synced (rn_journal w) \<longrightarrow> d1 = (rn_disk w)\<lparr>dk_durable := length (file_bytes (rn_disk w))\<rparr>"
    "fj_at j = None \<or> fj_at j = fj_at (rn_journal w) \<and> d = rn_disk w" by blast
  then show ?thesis unfolding Close(1)
    by (intro run_inv_settle [OF inv, where ?d1.0 = d1 and ?d2.0 = d2]) auto
next
  case (Replay out rr j d)
  note p = run_inv_parts [OF inv]
  have d: "d = rn_disk w" using Replay(2) by (auto simp: fj_replay_def split: if_splits io.splits nat.splits)
  have j: "fj_at j = fj_at (rn_journal w) \<or> fj_at j = None
      \<or> \<not> is_ok rr \<and> (\<exists>n. fj_at j = Some (24 + min n (length (file_bytes (rn_disk w)) - 24)))"
    using Replay(2) by (auto simp: fj_replay_def split: if_splits io.splits nat.splits)
  have "24 \<le> length (file_bytes (rn_disk w))" using p(1) h(1) by (auto simp: headed_def)
  then have "rn_failed w \<or> \<not> is_ok rr" "length h \<le> q \<and> q \<le> length (file_bytes (rn_disk w))" if "fj_at j = Some q" for q
    using j that p(7) [of q] h(1) by auto
  moreover have "cut_file h (rn_disk w) (rn_appended w) (rn_synced w) (rn_failed w \<or> \<not> is_ok rr)" if "\<not> rn_spoiled w"
    by (rule cut_same [OF p(2) [OF that]]) auto
  ultimately show ?thesis unfolding Replay(1) d
    by (intro run_invI) (use p(1,3,5,6) in \<open>simp_all\<close>)
next
  case (Spill left r pos d)
  note p = run_inv_parts [OF inv] and k = put_keeps [OF inv Spill(3)]
  have "kept_file h d (rn_synced w)" if "\<not> rn_overwrote w" "fj_at (rn_journal w) = None"
    using kept_kept p(3) that k by blast
  then show ?thesis unfolding Spill(1)
    by (intro run_invI) (use p(5) k Spill(2) in \<open>auto\<close>)
next
  case (Restart o1 o2 o3 k j d rr torn)
  show ?thesis unfolding Restart(1) by (rule run_inv_restart [OF inv h Restart(2-4)])
qed

lemma run_inv_reachable:
  assumes "run_reachable fp node conf w" and "header_bytes fp node conf = Inr h"
    and "length h = 24" "\<And>rest. check_header fp node conf (h @ rest) = Inr ()"
  shows "run_inv h w"
  using assms(1)
proof (induction rule: run_reachable.induct)
  case (Created j d)
  show ?case by (rule run_inv_created [OF assms(2) Created])
next
  case (Step w w')
  show ?case by (rule run_inv_step [OF Step(2,3) assms(3,4)])
qed

lemma reopened_after_crash:
  assumes "is_u64 fp" "is_u16 node" "is_u64 conf" and "run_reachable fp node conf w"
  shows "\<exists>j d. fj_open o1 o2 o3 fp node conf new_journal (crash k (rn_disk w)) = (Inr (), j, d)
    \<and> (\<not> rn_spoiled w \<longrightarrow> (\<exists>rs. fst (fj_replay IoOk j d) = Inr rs \<and> prefix (rn_synced w) rs \<and> prefix rs (rn_appended w)))
    \<and> (\<not> rn_overwrote w \<longrightarrow> (\<forall>rs. fst (fj_replay IoOk j d) = Inr rs \<longrightarrow> prefix (rn_synced w) rs))"
proof -
  obtain h where h: "header_bytes fp node conf = Inr h" "length h = 24"
    "\<And>rest. check_header fp node conf (h @ rest) = Inr ()"
    using header_bytes_ok [OF assms(1-3)] by auto
  have inv: "run_inv h w" by (rule run_inv_reachable [OF assms(4) h])
  note p = run_inv_parts [OF inv]
  let ?d = "(crash k (rn_disk w))\<lparr>dk_locked := True\<rparr>"
  have k: "durable_kept (rn_disk w) ?d" by (rule crash_kept [OF p(1)])
  have read: "fst (fj_replay IoOk open_journal ?d) = replay_loop (drop 24 (file_bytes ?d)) 0 []"
    by (simp add: fj_replay_def open_journal_def)
  have "\<exists>rs. fst (fj_replay IoOk open_journal ?d) = Inr rs \<and> prefix (rn_synced w) rs \<and> prefix rs (rn_appended w)"
    if "\<not> rn_spoiled w"
  proof -
    have "cut_file h ?d (rn_appended w) (rn_synced w) True"
      using cut_same [OF cut_lost [OF p(2) [OF that], of k], of ?d True] p(1) by (simp add: headed_def lose_buffer_def)
    from cut_read [OF this h(2)] k show ?thesis unfolding read durable_kept_def by (metis take_is_prefix)
  qed
  moreover have "prefix (rn_synced w) rs" if "\<not> rn_overwrote w" "fst (fj_replay IoOk open_journal ?d) = Inr rs" for rs
    using kept_read [OF kept_kept [OF p(3) [OF that(1)] k] h(2)] that(2) unfolding read by blast
  ultimately show ?thesis using reopens [OF p(1) h(2,3)] by blast
qed


lemma sample_reachable:
  "\<exists>w. run_reachable 5 1 1 w \<and> rn_synced w = [sample_record] \<and> rn_appended w = [sample_record] \<and> \<not> rn_spoiled w"
proof -
  obtain b where b: "encode_record sample_record = Inr b"
    using journal_stream.encodes [OF sample_record_ok] by blast
  let ?d0 = "\<lparr>dk_file = Some sample_header, dk_durable = length sample_header, dk_locked = True\<rparr>"
  let ?j1 = "open_journal\<lparr>fj_synced := False\<rparr>" and ?d1 = "?d0\<lparr>dk_file := Some (sample_header @ b)\<rparr>"
  let ?w0 = "new_run open_journal ?d0"
  let ?w1 = "note_append [sample_record] (Inr ()) ?j1 ?d1 ?w0"
  have 0: "run_reachable 5 1 1 ?w0"
    by (rule Created, rule open_fresh [OF sample_header_bytes]) (simp_all add: empty_disk_def file_bytes_def)
  have "fj_append IoOk [sample_record] (rn_journal ?w0) (rn_disk ?w0) = (Inr (), ?j1, ?d1)"
    using b by (simp add: new_run_def fj_append_def open_journal_def file_put_def file_write_def file_bytes_def)
  from Step [OF 0 Append [OF _ this]] have 1: "run_reachable 5 1 1 ?w1" by simp
  let ?d2 = "?d1\<lparr>dk_durable := length (sample_header @ b)\<rparr>"
  have "fj_sync IoOk (rn_journal ?w1) (rn_disk ?w1) = (Inr (), open_journal, ?d2)"
    by (simp add: note_append_def fj_sync_def open_journal_def file_fsync_def file_bytes_def)
  from Step [OF 1 Sync [OF this]] show ?thesis
    by (intro exI [of _ "note_sync (Inr ()) open_journal ?d2 ?w1"])
       (simp add: note_sync_def note_append_def new_run_def covered_def open_journal_def)
qed


subsection \<open>What goes wrong after some failures\<close>

text \<open>A \<^verbatim>\<open>replay\<close> whose read fails leaves the position inside the file, and the next \<^verbatim>\<open>append\<close> writes there:
  records that were synced are overwritten, and the next \<^verbatim>\<open>replay\<close> returns the new ones in their place.\<close>

lemma failed_replay_overwrites:
  assumes "dk_file d = Some (h @ concat bs)" and "length h = 24"
    and "list_all record_ok ys" and "mapE encode_record ys = Inr bs'" and "ys \<noteq> []"
    and "length (concat bs) \<le> length (concat bs')"
  shows "\<exists>j1 j2 d2 j3 d3. fj_replay (IoFail 1) open_journal d = (Inl OSErr, j1, d)
    \<and> fj_append IoOk ys j1 d = (Inr (), j2, d2) \<and> fj_sync IoOk j2 d2 = (Inr (), j3, d3)
    \<and> fst (fj_replay IoOk j3 d3) = Inr ys"
proof -
  let ?j1 = "open_journal\<lparr>fj_at := Some 24\<rparr>"
  have 1: "fj_replay (IoFail 1) open_journal d = (Inl OSErr, ?j1, d)"
    by (simp add: fj_replay_def open_journal_def)
  have 2: "fj_append IoOk ys ?j1 d = (Inr (), ?j1\<lparr>fj_at := Some (24 + length (concat bs')), fj_synced := False\<rparr>,
      d\<lparr>dk_file := Some (h @ concat bs'), dk_durable := min 24 (dk_durable d)\<rparr>)"
    using assms(1,2,4-6) by (simp add: fj_append_def open_journal_def file_put_def file_bytes_def Let_def del: length_concat)
  show ?thesis using 1 2 assms(2) replay_whole [OF assms(3,4)]
    by (simp add: fj_sync_def file_fsync_def fj_replay_def file_bytes_def open_journal_def)
qed

text \<open>If the file cannot be closed after a failed \<^verbatim>\<open>open\<close> (the header of a new journal on a full disk stays in
  the buffer, and its \<^verbatim>\<open>close\<close> fails like its \<^verbatim>\<open>flush\<close>), the object keeps the lock of the directory. A second
  \<^verbatim>\<open>open\<close> of it returns, although the journal cannot be used, and one by another object is refused.\<close>

lemma failed_open_keeps_lock:
  assumes "header_bytes fp node conf = Inr h" and "file_bytes d = []" and "\<not> dk_locked d"
  shows "\<exists>j d'. fj_open (IoFail m) o2 (IoFail n) fp node conf new_journal d = (Inl OSErr, j, d') \<and> dk_locked d'
    \<and> fj_open o1 o2 o3 fp' node' conf' j d' = (Inr (), j, d')
    \<and> (rs \<noteq> [] \<and> mapE encode_record rs = Inr bs \<longrightarrow> fj_append out rs j d' = (Inl ValueErr, j, d'))
    \<and> fj_replay out j d' = (Inl ValueErr, j, d')
    \<and> fj_open o1 o2 o3 fp' node' conf' new_journal d' = (Inl (err StorageError []), new_journal, d')"
  using assms by (cases d) (auto simp: fj_open_def fj_open_file_def new_journal_def Let_def file_write_def
      file_bytes_def fj_release_def lose_buffer_def fj_append_def fj_replay_def)

text \<open>A journal starts out as synced, whatever the file holds. If a process is killed between \<^verbatim>\<open>append\<close> and
  \<^verbatim>\<open>sync\<close>, the records are read back by the next one, and its \<^verbatim>\<open>sync\<close> does nothing: a later power loss can
  still take them, after the node was rebuilt from them.\<close>

lemma replayed_not_durable:
  assumes "is_u64 fp" "is_u16 node" "is_u64 conf" and "header_bytes fp node conf = Inr h"
    and "list_all record_ok xs" and "mapE encode_record xs = Inr bs"
    and "dk_file d = Some (h @ concat bs)" and "dk_durable d = length h" and "length (h @ concat bs) \<le> k"
  shows "\<exists>j d1. fj_open o1 o2 o3 fp node conf new_journal (crash k d) = (Inr (), j, d1)
    \<and> fst (fj_replay IoOk j d1) = Inr xs \<and> fj_sync out j d1 = (Inr (), j, d1)
    \<and> (\<exists>j2 d2. fj_open o1 o2 o3 fp node conf new_journal (crash 0 d1) = (Inr (), j2, d2)
         \<and> fst (fj_replay IoOk j2 d2) = Inr [])"
proof -
  have h: "length h = 24" "\<And>rest. check_header fp node conf (h @ rest) = Inr ()"
    using header_bytes_ok [OF assms(1-3)] assms(4) by auto
  have hd: "headed h d" using assms(7,8) by (simp add: headed_def file_bytes_def)
  let ?d1 = "(crash k d)\<lparr>dk_locked := True\<rparr>"
  have hd1: "headed h ?d1" by (rule headed_kept [OF hd crash_kept [OF hd]])
  have "replay_loop [] 0 [] = Inr []" by (subst replay_loop.simps) simp
  then show ?thesis
    using reopens [OF hd h, of o1 o2 o3 k] reopens [OF hd1 h, of o1 o2 o3 0] replay_whole [OF assms(5,6)] assms(7-9) h(1)
    by (simp add: fj_replay_def fj_sync_def open_journal_def file_bytes_def)
qed

subsection \<open>The torn tail that is not truncated\<close>

lemma replay_loop_short:
  assumes "length pfx = 8" and "length rest < n"
    and "\<And>more. unpack_from RECORD_PREFIX (pfx @ more) = Some [SInt (int n), SInt c]"
  shows "replay_loop (pre @ pfx @ rest) (length pre) acc = Inr acc"
  using assms by (subst replay_loop.simps) (simp add: Let_def)


text \<open>A vote for a value of a hundred bytes, torn after its prefix, followed by a synced promise.\<close>

definition sample_vote :: write_record where
  "sample_vote = \<lparr>wr_kind = WK_VOTE, wr_ballot = 65537, wr_slot = 1, wr_trim_id = 0,
     wr_trim_slot = 0, wr_entry = mk_entry EK_COMMAND (replicate 100 7), wr_requires_barrier = True\<rparr>"

lemma sample_vote_ok: "record_ok sample_vote"
  by (simp add: sample_vote_def record_ok_def is_width_defs)

lemma encoded_length:
  "record_ok rec \<Longrightarrow> encode_record rec = Inr b \<Longrightarrow> length b = 48 + length (le_body (wr_entry rec))"
  using encode_record_shape [of rec] by auto


end
