(* ===== verification/Journal_Contract.thy ===== *)
theory Journal_Contract
  imports Journal
begin

section \<open>The \<^verbatim>\<open>Journal\<close> protocol of \<^verbatim>\<open>protocols.py\<close> and its two implementations\<close>

text \<open>
  The laws the \<^verbatim>\<open>Journal\<close> protocol states for \<^verbatim>\<open>append\<close>, \<^verbatim>\<open>sync\<close> and \<^verbatim>\<open>replay\<close> when no call fails, as a
  locale; what a session gets from them; and their proofs for \<^verbatim>\<open>MemoryJournal\<close> and \<^verbatim>\<open>FileJournal\<close>. The
  second part is the exclusion between the journals of one directory.
\<close>

locale journal_contract =
  fixes append_op :: "write_record list \<Rightarrow> 's \<Rightarrow> 's" and sync_op :: "'s \<Rightarrow> 's"
    and replay_op :: "'s \<Rightarrow> exn + write_record list"
    and contents :: "'s \<Rightarrow> write_record list" and wf :: "'s \<Rightarrow> bool"
  assumes append_wf: "wf s \<Longrightarrow> list_all record_ok rs \<Longrightarrow> wf (append_op rs s)"
    and sync_wf: "wf s \<Longrightarrow> wf (sync_op s)"
    and append_contents: "wf s \<Longrightarrow> list_all record_ok rs \<Longrightarrow> contents (append_op rs s) = contents s @ rs"
    and sync_contents: "wf s \<Longrightarrow> contents (sync_op s) = contents s"
    and replay_synced: "wf s \<Longrightarrow> replay_op (sync_op s) = Inr (contents s)"
begin

lemma persist_all:
  assumes "wf s" and "list_all (list_all record_ok) rss"
  shows "wf (foldl (\<lambda>s rs. sync_op (append_op rs s)) s rss)
    \<and> contents (foldl (\<lambda>s rs. sync_op (append_op rs s)) s rss) = contents s @ concat rss"
  using assms
proof (induction rss arbitrary: s)
  case Nil
  then show ?case by simp
next
  case (Cons rs rss)
  then show ?case
    by (simp add: append_wf sync_wf append_contents sync_contents)
qed

lemma replay_persisted:
  assumes "wf s" and "list_all (list_all record_ok) rss"
  shows "replay_op (sync_op (foldl (\<lambda>s rs. sync_op (append_op rs s)) s rss)) = Inr (contents s @ concat rss)"
  using persist_all [OF assms] by (simp add: replay_synced)

end

interpretation memory_journal: journal_contract mj_append mj_sync "\<lambda>j. Inr (mj_replay j)" mj_records "\<lambda>_. True"
  by unfold_locales (simp_all add: mj_append_def mj_sync_def mj_replay_def)

text \<open>The file journal as a state machine whose system calls succeed.\<close>

definition file_append :: "write_record list \<Rightarrow> journal \<times> disk \<Rightarrow> journal \<times> disk" where
  "file_append rs s = snd (fj_append IoOk rs (fst s) (snd s))"

definition file_sync :: "journal \<times> disk \<Rightarrow> journal \<times> disk" where
  "file_sync s = snd (fj_sync IoOk (fst s) (snd s))"

definition file_replay :: "journal \<times> disk \<Rightarrow> exn + write_record list" where
  "file_replay s = fst (fj_replay IoOk (fst s) (snd s))"

definition file_holds :: "write_record list \<Rightarrow> journal \<times> disk \<Rightarrow> bool" where
  "file_holds xs s = (fj_file (fst s) \<and> \<not> fj_closed (fst s) \<and> fj_at (fst s) = None \<and> list_all record_ok xs \<and>
     (\<exists>h bs. length h = 24 \<and> mapE encode_record xs = Inr bs \<and> dk_file (snd s) = Some (h @ concat bs)))"

definition file_contents :: "journal \<times> disk \<Rightarrow> write_record list" where
  "file_contents s = (case file_replay s of Inr rs \<Rightarrow> rs | Inl _ \<Rightarrow> [])"

definition file_wf :: "journal \<times> disk \<Rightarrow> bool" where
  "file_wf s = (\<exists>xs. file_holds xs s)"

lemma file_holds_replay: "file_holds xs s \<Longrightarrow> file_replay s = Inr xs"
  using replay_whole by (auto simp: file_holds_def file_replay_def fj_replay_def file_bytes_def)

lemma file_holds_contents: "file_holds xs s \<Longrightarrow> file_contents s = xs"
  by (simp add: file_contents_def file_holds_replay)

lemma file_holds_append:
  assumes "file_holds xs s" and "list_all record_ok rs"
  shows "file_holds (xs @ rs) (file_append rs s)"
proof -
  obtain bs' where bs': "mapE encode_record rs = Inr bs'"
    using journal_stream.encodes_all [OF assms(2)] by blast
  obtain h bs where h: "length h = 24" "mapE encode_record xs = Inr bs"
    "dk_file (snd s) = Some (h @ concat bs)" "fj_file (fst s)" "\<not> fj_closed (fst s)" "fj_at (fst s) = None"
    "list_all record_ok xs"
    using assms(1) by (auto simp: file_holds_def)
  have "mapE encode_record (xs @ rs) = Inr (bs @ bs')" using h(2) bs' by (rule mapE_append)
  with h bs' assms(2) show ?thesis
    by (cases "rs = []")
       (auto simp: file_holds_def file_append_def fj_append_def file_put_def file_write_def file_bytes_def)
qed

lemma file_holds_sync: "file_holds xs s \<Longrightarrow> file_holds xs (file_sync s)"
  by (auto simp: file_holds_def file_sync_def fj_sync_def file_fsync_def)

lemma file_wfE: "file_wf s \<Longrightarrow> file_holds (file_contents s) s"
  by (auto simp: file_wf_def file_holds_contents)

lemma file_wfI: "file_holds xs s \<Longrightarrow> file_wf s"
  by (auto simp: file_wf_def)

interpretation file_journal: journal_contract file_append file_sync file_replay file_contents file_wf
proof
  fix s rs assume s: "file_wf s"
  have h: "file_holds (file_contents s) s" using s by (rule file_wfE)
  show "file_wf (file_sync s)" "file_contents (file_sync s) = file_contents s"
    and "file_replay (file_sync s) = Inr (file_contents s)"
    using file_holds_sync [OF h] by (simp_all add: file_wfI file_holds_contents file_holds_replay)
  assume rs: "list_all record_ok rs"
  show "file_wf (file_append rs s)" "file_contents (file_append rs s) = file_contents s @ rs"
    using file_holds_append [OF h rs] by (simp_all add: file_wfI file_holds_contents)
qed

lemma opened_holds:
  assumes "is_u64 fp" "is_u16 node" "is_u64 conf"
    and "fj_open IoOk IoOk IoOk fp node conf new_journal empty_disk = (Inr (), s)"
  shows "file_holds [] s"
proof -
  obtain h where h: "header_bytes fp node conf = Inr h" "length h = 24"
    using header_bytes_ok [OF assms(1-3)] by auto
  have "s = (open_journal, \<lparr>dk_file = Some h, dk_durable = length h, dk_locked = True\<rparr>)"
    using open_fresh [OF h(1), of empty_disk] assms(4) by (simp add: empty_disk_def file_bytes_def)
  then show ?thesis using h(2) by (simp add: file_holds_def open_journal_def)
qed

text \<open>C31: The durable journal refines the in-memory one. Feed the same batches, each appended and
  synced, to a \<^verbatim>\<open>FileJournal\<close> on a new directory and to a new \<^verbatim>\<open>MemoryJournal\<close>: both replay the same list,
  every record of every batch in order.\<close>

theorem file_journal_refines_memory:
  assumes "is_u64 fp" "is_u16 node" "is_u64 conf"
    and "fj_open IoOk IoOk IoOk fp node conf new_journal empty_disk = (Inr (), s)"
    and "list_all (list_all record_ok) rss"
  shows "file_replay (file_sync (foldl (\<lambda>s rs. file_sync (file_append rs s)) s rss)) = Inr (concat rss)
    \<and> mj_replay (mj_sync (foldl (\<lambda>s rs. mj_sync (mj_append rs s)) mj_new rss)) = concat rss"
proof -
  have s: "file_holds [] s" using opened_holds [OF assms(1-4)] .
  show ?thesis
    using file_journal.replay_persisted [OF file_wfI [OF s] assms(5)] file_holds_contents [OF s]
      memory_journal.replay_persisted [OF _ assms(5), of mj_new] by (simp add: mj_new_def)
qed

theorem file_journal_refines_memory_witness:
  "\<exists>s. file_replay (file_sync (foldl (\<lambda>s rs. file_sync (file_append rs s)) s
      [[sample_record, sample_vote], [sample_record]])) = Inr [sample_record, sample_vote, sample_record]"
proof -
  have "fj_open IoOk IoOk IoOk 5 1 1 new_journal empty_disk = (Inr (), open_journal,
      \<lparr>dk_file = Some sample_header, dk_durable = length sample_header, dk_locked = True\<rparr>)"
    by (rule open_fresh [OF sample_header_bytes]) (simp_all add: empty_disk_def file_bytes_def)
  from file_journal_refines_memory [OF _ _ _ this, of "[[sample_record, sample_vote], [sample_record]]"]
  show ?thesis using sample_vote_ok by (auto simp: is_width_defs)
qed

subsection \<open>One owner per directory\<close>

text \<open>Any number of \<^verbatim>\<open>FileJournal\<close> objects, in one process or in several, over one directory. A dying
  process (\<open>Die\<close>) closes its descriptors without running \<^verbatim>\<open>close\<close>, and loses its buffers.\<close>

definition process_dies :: "nat \<Rightarrow> journal \<Rightarrow> disk \<Rightarrow> disk" where
  "process_dies n j d = (if fj_lock_fd j then (lose_buffer n d)\<lparr>dk_locked := False\<rparr> else d)"

type_synonym directory = "(nat \<Rightarrow> journal) \<times> disk"

inductive dir_step :: "directory \<Rightarrow> directory \<Rightarrow> bool" where
  Open: "fj_open o1 o2 o3 fp node conf (js i) d = (r, j, d') \<Longrightarrow> dir_step (js, d) (js(i := j), d')"
| Append: "fj_append out rs (js i) d = (r, j, d') \<Longrightarrow> dir_step (js, d) (js(i := j), d')"
| Sync: "fj_sync out (js i) d = (r, j, d') \<Longrightarrow> dir_step (js, d) (js(i := j), d')"
| Replay: "fj_replay out (js i) d = (r, j, d') \<Longrightarrow> dir_step (js, d) (js(i := j), d')"
| Close: "fj_close o1 o2 (js i) d = (r, j, d') \<Longrightarrow> dir_step (js, d) (js(i := j), d')"
| Die: "dir_step (js, d) (js(i := new_journal), process_dies n (js i) d)"

inductive dir_reachable :: "directory \<Rightarrow> bool" where
  Start: "\<not> dk_locked d \<Longrightarrow> dir_reachable (\<lambda>_. new_journal, d)"
| Step: "dir_reachable s \<Longrightarrow> dir_step s s' \<Longrightarrow> dir_reachable s'"

definition dir_inv :: "directory \<Rightarrow> bool" where
  "dir_inv s = (case s of (js, d) \<Rightarrow>
     (\<forall>i. fj_file (js i) = fj_lock_fd (js i)) \<and> (\<forall>i. fj_lock_fd (js i) \<longrightarrow> dk_locked d)
     \<and> (\<forall>i k. fj_lock_fd (js i) \<longrightarrow> fj_lock_fd (js k) \<longrightarrow> i = k))"

lemma dir_inv_same:
  assumes "dir_inv (js, d)" and "fj_file j = fj_file (js i)" and "fj_lock_fd j = fj_lock_fd (js i)"
    and "dk_locked d' = dk_locked d"
  shows "dir_inv (js(i := j), d')"
  using assms by (auto simp: dir_inv_def)

lemma dir_inv_drop:
  assumes "dir_inv (js, d)" and "\<not> fj_file j" and "\<not> fj_lock_fd j"
    and "dk_locked d' = (dk_locked d \<and> \<not> fj_lock_fd (js i))"
  shows "dir_inv (js(i := j), d')"
  using assms by (auto simp: dir_inv_def)

lemma dir_inv_take:
  assumes "dir_inv (js, d)" and "fj_file j" and "fj_lock_fd j" and "\<not> dk_locked d" and "dk_locked d'"
  shows "dir_inv (js(i := j), d')"
  using assms by (auto simp: dir_inv_def)

lemma file_ops_lock [simp]:
  "file_write out b d = (r, d') \<Longrightarrow> dk_locked d' = dk_locked d"
  "file_fsync out d = (r, d') \<Longrightarrow> dk_locked d' = dk_locked d"
  by (auto simp: file_write_def file_fsync_def split: io.splits)

lemma file_put_lock: "file_put out pos b d = (r, pos', d') \<Longrightarrow> dk_locked d' = dk_locked d"
  by (auto simp: file_put_def Let_def split: option.splits prod.splits)

lemma append_lock:
  "fj_append out rs j d = (r, j', d') \<Longrightarrow>
    fj_file j' = fj_file j \<and> fj_lock_fd j' = fj_lock_fd j \<and> dk_locked d' = dk_locked d"
  by (auto simp: fj_append_def split: if_splits sum.splits prod.splits dest: file_put_lock)

lemma sync_lock:
  "fj_sync out j d = (r, j', d') \<Longrightarrow>
    fj_file j' = fj_file j \<and> fj_lock_fd j' = fj_lock_fd j \<and> dk_locked d' = dk_locked d"
  by (auto simp: fj_sync_def split: if_splits sum.splits prod.splits)

lemma open_file_lock:
  "fj_open_file o1 o2 fp node conf j d = (r, j', d') \<Longrightarrow>
    fj_file j' \<and> fj_lock_fd j' = fj_lock_fd j \<and> dk_locked d' = dk_locked d"
  by (auto simp: fj_open_file_def Let_def split: if_splits sum.splits prod.splits dest: file_ops_lock)

text \<open>A release gives the lock back or, when it fails, keeps file object and lock.\<close>

lemma release_lock:
  assumes "fj_release out j d = (r, j', d')"
  shows "fj_file j' = fj_file j \<and> fj_lock_fd j' = fj_lock_fd j \<and> dk_locked d' = dk_locked d
    \<or> \<not> fj_file j' \<and> \<not> fj_lock_fd j' \<and> dk_locked d' = (dk_locked d \<and> \<not> fj_lock_fd j)"
  using assms by (auto simp: fj_release_def lose_buffer_def split: if_splits io.splits)

lemma open_lock:
  assumes "fj_open o1 o2 o3 fp node conf j d = (r, j', d')"
  shows "(j', d') = (j, d) \<or> fj_file j' \<and> fj_lock_fd j' \<and> \<not> dk_locked d \<and> dk_locked d'
    \<or> \<not> fj_file j' \<and> \<not> fj_lock_fd j' \<and> \<not> dk_locked d \<and> \<not> dk_locked d'"
proof (cases "fj_file j \<or> dk_locked d")
  case True
  then show ?thesis using assms by (auto simp: fj_open_def split: if_splits)
next
  case False
  obtain r1 j1 d1 where f: "fj_open_file o1 o2 fp node conf (j\<lparr>fj_lock_fd := True\<rparr>) (d\<lparr>dk_locked := True\<rparr>) = (r1, j1, d1)"
    by (metis prod_cases3)
  then have l: "fj_file j1" "fj_lock_fd j1" "dk_locked d1" using open_file_lock [OF f] by simp_all
  show ?thesis
  proof (cases r1)
    case (Inl e)
    obtain r2 j2 d2 where q: "fj_release o3 j1 d1 = (r2, j2, d2)" by (metis prod_cases3)
    then have "j' = j2" "d' = d2" using assms False f Inl by (auto simp: fj_open_def split: sum.splits)
    then show ?thesis using release_lock [OF q] l False by auto
  next
    case (Inr u)
    then show ?thesis using assms False f l by (simp add: fj_open_def)
  qed
qed

lemma dir_inv_step: "dir_step s s' \<Longrightarrow> dir_inv s \<Longrightarrow> dir_inv s'"
proof (induction rule: dir_step.induct)
  case (Open o1 o2 o3 fp node conf js i d r j d')
  show ?case
    using open_lock [OF Open.hyps] dir_inv_take [OF Open.prems] dir_inv_drop [OF Open.prems, of j d' i]
      dir_inv_same [OF Open.prems, of j i d'] by fastforce
next
  case (Append out rs js i d r j d')
  show ?case using append_lock [OF Append.hyps] by (intro dir_inv_same [OF Append.prems]) simp_all
next
  case (Sync out js i d r j d')
  show ?case using sync_lock [OF Sync.hyps] by (intro dir_inv_same [OF Sync.prems]) simp_all
next
  case (Replay out js i d r j d')
  then have "d' = d" "fj_file j = fj_file (js i)" "fj_lock_fd j = fj_lock_fd (js i)"
    by (auto simp: fj_replay_def split: if_splits io.splits nat.splits)
  then show ?case by (intro dir_inv_same [OF Replay.prems]) simp_all
next
  case (Close o1 o2 js i d r j d')
  show ?case
  proof (cases "fj_file (js i)")
    case True
    obtain r1 j1 d1 where s: "fj_sync o1 (js i) d = (r1, j1, d1)" by (metis prod_cases3)
    obtain r2 j2 d2 where q: "fj_release o2 j1 d1 = (r2, j2, d2)" by (metis prod_cases3)
    have "j = j2" "d' = d2" using Close.hyps True s q by (auto simp: fj_close_def split: sum.splits)
    with release_lock [OF q] sync_lock [OF s] show ?thesis
      using dir_inv_same [OF Close.prems, of j i d'] dir_inv_drop [OF Close.prems, of j d' i] by auto
  next
    case False
    with Close.hyps have "j = js i" "d' = d" by (simp_all add: fj_close_def)
    with Close.prems show ?thesis by simp
  qed
next
  case (Die js d i n)
  then show ?case by (intro dir_inv_drop [OF Die.prems]) (simp_all add: new_journal_def process_dies_def)
qed

lemma dir_inv_reachable: "dir_reachable s \<Longrightarrow> dir_inv s"
proof (induction rule: dir_reachable.induct)
  case (Start d)
  then show ?case by (simp add: dir_inv_def new_journal_def)
next
  case (Step s s')
  then show ?case using dir_inv_step by blast
qed

text \<open>C30: One node per directory. Whatever sequence of opens (with any identities), appends, syncs,
  replays, closes and process deaths the holders of a directory perform, failing calls included, at
  most one journal has a file open at a time (one that failed to close it counts), and while it has, an
  open by any other is refused with \<^verbatim>\<open>StorageError\<close> and changes nothing.\<close>

theorem journal_exclusive:
  assumes "dir_reachable (js, d)" and "fj_file (js i)" and "k \<noteq> i"
  shows "\<not> fj_file (js k)
    \<and> fj_open o1 o2 o3 fp node conf (js k) d = (Inl (err StorageError []), js k, d)"
  using dir_inv_reachable [OF assms(1)] assms(2,3) by (auto simp: dir_inv_def fj_open_def)

theorem journal_exclusive_witness:
  "\<exists>js d. fj_file (js (0 :: nat)) \<and> \<not> fj_file (js 1)
    \<and> fj_open IoOk IoOk IoOk 5 2 1 (js 1) d = (Inl (err StorageError []), js 1, d)"
proof -
  let ?d = "\<lparr>dk_file = Some sample_header, dk_durable = length sample_header, dk_locked = True\<rparr>"
  have "fj_open IoOk IoOk IoOk 5 1 1 new_journal empty_disk = (Inr (), open_journal, ?d)"
    by (rule open_fresh [OF sample_header_bytes]) (simp_all add: empty_disk_def file_bytes_def)
  then have r: "dir_reachable ((\<lambda>_. new_journal)(0 := open_journal), ?d)"
    using dir_reachable.Step [OF Start [of empty_disk] Open] by (simp add: empty_disk_def)
  show ?thesis
    using journal_exclusive [OF r, of 0 1 IoOk IoOk IoOk 5 2 1]
    by (intro exI [of _ "(\<lambda>_. new_journal)(0 := open_journal)"] exI [of _ ?d])
       (simp add: open_journal_def new_journal_def)
qed

end
