(* ===== verification/History.thy ===== *)
theory History
  imports Journal "HOL-Library.Finite_Map"
begin

section \<open>Retained history: \<^verbatim>\<open>MemoryHistory\<close> and \<^verbatim>\<open>FileHistory\<close> of \<^verbatim>\<open>storage.py\<close>\<close>

text \<open>
  The entries a node released past its memory window, by slot. A Python dict is a finite map; the
  cursor is the loop \<^verbatim>\<open>while self._cursor + 1 in self._entries\<close>. \<open>FileHistory\<close> keeps the map as an index of
  an append-only file whose records carry no checksum. System calls and crashes are as for the
  journal.
\<close>

type_synonym retained = "(slot, bytes \<times> int) fmap"

definition HISTORY_PREFIX :: "sfield list" where "HISTORY_PREFIX = [fQ, fB, fI]"

lemma history_prefix_size [simp]: "calcsize HISTORY_PREFIX = 13"
  by (simp add: HISTORY_PREFIX_def)

function advance_cursor :: "retained \<Rightarrow> int \<Rightarrow> int" where
  "advance_cursor m c = (if fmlookup m (c + 1) \<noteq> None then advance_cursor m (c + 1) else c)"
  by pat_completeness auto
termination
proof (relation "measure (\<lambda>(m, c). card {k \<in> dom (fmlookup m). c < k})")
  fix m :: retained and c :: int
  assume "fmlookup m (c + 1) \<noteq> None"
  then have "c + 1 \<in> {k \<in> dom (fmlookup m). c < k}" by (auto simp: dom_def)
  moreover have "{k \<in> dom (fmlookup m). c + 1 < k} \<subseteq> {k \<in> dom (fmlookup m). c < k} - {c + 1}" by auto
  ultimately have "{k \<in> dom (fmlookup m). c + 1 < k} \<subset> {k \<in> dom (fmlookup m). c < k}" by blast
  then show "((m, c + 1), (m, c)) \<in> measure (\<lambda>(m, c). card {k \<in> dom (fmlookup m). c < k})"
    by (auto intro: psubset_card_mono)
qed simp

declare advance_cursor.simps [simp del]

definition read_retained :: "retained \<Rightarrow> slot \<Rightarrow> int \<Rightarrow> (slot \<times> bytes \<times> int) list" where
  "read_retained m first count =
     List.map_filter (\<lambda>slot. case fmlookup m slot of None \<Rightarrow> None
       | Some (payload, kind) \<Rightarrow> Some (slot, payload, kind)) [first .. first + count - 1]"

subsection \<open>\<^verbatim>\<open>MemoryHistory\<close>\<close>

record mem_history =
  mh_entries :: retained
  mh_cursor :: int

definition mh_new :: mem_history where "mh_new = \<lparr>mh_entries = fmempty, mh_cursor = 0\<rparr>"

definition mh_record :: "slot \<Rightarrow> bytes \<Rightarrow> int \<Rightarrow> mem_history \<Rightarrow> mem_history" where
  "mh_record slot payload kind h =
     (let entries = fmupd slot (payload, kind) (mh_entries h)
      in \<lparr>mh_entries = entries, mh_cursor = advance_cursor entries (mh_cursor h)\<rparr>)"

definition mh_read :: "slot \<Rightarrow> int \<Rightarrow> mem_history \<Rightarrow> (slot \<times> bytes \<times> int) list" where
  "mh_read first count h = read_retained (mh_entries h) first count"

definition mh_close :: "mem_history \<Rightarrow> mem_history" where
  "mh_close h = h\<lparr>mh_entries := fmempty, mh_cursor := 0\<rparr>"

subsection \<open>\<^verbatim>\<open>FileHistory\<close>\<close>

text \<open>\<^verbatim>\<open>history.bin\<close> is the \<open>disk\<close> (its lock is not used); the object is the index and the cursor.\<close>

record file_history =
  fh_index :: retained
  fh_cursor :: int

definition encode_retained :: "slot \<times> bytes \<times> int \<Rightarrow> exn + bytes" where
  "encode_retained item = (case item of (slot, payload, kind) \<Rightarrow>
     bindE (struct_pack HISTORY_PREFIX [SInt slot, SInt kind, SInt (int (length payload))])
       (\<lambda>prefix. Inr (prefix @ payload)))"

function load_loop :: "bytes \<Rightarrow> nat \<Rightarrow> retained \<Rightarrow> retained" where
  "load_loop blob offset index =
     (if offset + calcsize HISTORY_PREFIX \<le> length blob
      then (let vs = unpack_all HISTORY_PREFIX (drop offset blob);
                slot = sint (vs ! 0); kind = sint (vs ! 1); len = nat (sint (vs ! 2));
                start = offset + calcsize HISTORY_PREFIX
            in if length blob < start + len then index
               else load_loop blob (start + len)
                      (fmupd slot (slice start (start + len) blob, kind) index))
      else index)"
  by pat_completeness auto
termination
  by (relation "measure (\<lambda>(blob, offset, _). length blob - offset)") auto

declare load_loop.simps [simp del]

definition fh_open :: "disk \<Rightarrow> file_history \<times> disk" where
  "fh_open d = (case dk_file d of
     None \<Rightarrow> (\<lparr>fh_index = fmempty, fh_cursor = 0\<rparr>, d\<lparr>dk_file := Some [], dk_durable := 0\<rparr>)
   | Some blob \<Rightarrow>
      (let index = load_loop blob 0 fmempty
       in (\<lparr>fh_index = index, fh_cursor = advance_cursor index 0\<rparr>, d)))"

definition fh_record :: "io \<Rightarrow> io \<Rightarrow> slot \<Rightarrow> bytes \<Rightarrow> int \<Rightarrow> file_history \<Rightarrow> disk \<Rightarrow>
    (exn + unit) \<times> file_history \<times> disk" where
  "fh_record out1 out2 slot payload kind h d =
     (if fmlookup (fh_index h) slot \<noteq> None then (Inr (), h, d)
      else case encode_retained (slot, payload, kind) of
        Inl e \<Rightarrow> (Inl e, h, d)
      | Inr b \<Rightarrow>
         (case file_write out1 b d of
            (Inl _, d) \<Rightarrow> (Inl (err StorageError []), h, d)
          | (Inr _, d) \<Rightarrow>
             (case file_fsync out2 d of
                (Inl _, d) \<Rightarrow> (Inl (err StorageError []), h, d)
              | (Inr _, d) \<Rightarrow>
                 (let index = fmupd slot (payload, kind) (fh_index h)
                  in (Inr (), \<lparr>fh_index = index, fh_cursor = advance_cursor index (fh_cursor h)\<rparr>, d)))))"

definition fh_read :: "slot \<Rightarrow> int \<Rightarrow> file_history \<Rightarrow> (slot \<times> bytes \<times> int) list" where
  "fh_read first count h = read_retained (fh_index h) first count"

subsection \<open>The cursor\<close>

text \<open>The contiguous prefix of a map: every slot from 1 to the cursor is there and the next is not.\<close>

definition contiguous :: "retained \<Rightarrow> int \<Rightarrow> bool" where
  "contiguous m c = (0 \<le> c \<and> (\<forall>k. 1 \<le> k \<and> k \<le> c \<longrightarrow> fmlookup m k \<noteq> None) \<and> fmlookup m (c + 1) = None)"

lemma contiguous_unique: "contiguous m c \<Longrightarrow> contiguous m c' \<Longrightarrow> c = c'"
  unfolding contiguous_def by (metis add.commute add_increasing2 linorder_le_cases linorder_less_linear
      order_le_less zero_le_one zle_add1_eq_le le_add_same_cancel2 add_le_cancel_right add1_zle_eq)

lemma advance_cursor_contiguous:
  assumes "0 \<le> c" and "\<And>k. 1 \<le> k \<Longrightarrow> k \<le> c \<Longrightarrow> fmlookup m k \<noteq> None"
  shows "contiguous m (advance_cursor m c)"
  using assms
proof (induction m c rule: advance_cursor.induct)
  case (1 m c)
  show ?case
  proof (cases "fmlookup m (c + 1) = None")
    case True
    with 1(2,3) show ?thesis by (subst advance_cursor.simps) (auto simp: contiguous_def)
  next
    case False
    have "fmlookup m k \<noteq> None" if "1 \<le> k" "k \<le> c + 1" for k
      using that False 1(3) [of k] by (cases "k = c + 1") auto
    with 1 False show ?thesis by (subst advance_cursor.simps) auto
  qed
qed

lemma contiguous_upd:
  assumes "contiguous m c"
  shows "contiguous (fmupd s v m) (advance_cursor (fmupd s v m) c)"
  using assms by (intro advance_cursor_contiguous) (auto simp: contiguous_def)

lemma in_map_filter: "y \<in> set (List.map_filter f xs) \<longleftrightarrow> (\<exists>x \<in> set xs. f x = Some y)"
  by (induction xs) (auto simp: List.map_filter_simps split: option.splits)

lemma read_retained_iff:
  "(s, p, k) \<in> set (read_retained m first count) \<longleftrightarrow> first \<le> s \<and> s < first + count \<and> fmlookup m s = Some (p, k)"
  by (auto simp: read_retained_def in_map_filter intro!: bexI [of _ s] split: option.splits)

lemma map_filter_slots:
  "map fst (List.map_filter (\<lambda>slot. case fmlookup m slot of None \<Rightarrow> None
       | Some (payload, kind) \<Rightarrow> Some (slot, payload, kind)) xs) = filter (\<lambda>s. fmlookup m s \<noteq> None) xs"
  by (induction xs) (auto simp: List.map_filter_simps split: option.splits)

lemma read_retained_sorted: "sorted_wrt (<) (map fst (read_retained m first count))"
  by (simp add: read_retained_def map_filter_slots sorted_wrt_filter)

subsection \<open>The contract of the \<^verbatim>\<open>History\<close> protocol\<close>

text \<open>A history holds a finite map; recording a slot it does not hold adds it; the cursor is the
  contiguous prefix; a read is what it holds of the range, by slot.\<close>

locale history_contract =
  fixes record_op :: "slot \<times> bytes \<times> int \<Rightarrow> 's \<Rightarrow> 's" and holds :: "'s \<Rightarrow> retained"
    and cursor_op :: "'s \<Rightarrow> int" and read_op :: "slot \<Rightarrow> int \<Rightarrow> 's \<Rightarrow> (slot \<times> bytes \<times> int) list"
    and ok :: "slot \<times> bytes \<times> int \<Rightarrow> bool"
  assumes holds_record: "ok (slot, v) \<Longrightarrow> fmlookup (holds s) slot = None \<Longrightarrow>
      holds (record_op (slot, v) s) = fmupd slot v (holds s)"
    and cursor_record: "ok (slot, v) \<Longrightarrow> fmlookup (holds s) slot = None \<Longrightarrow>
      contiguous (holds s) (cursor_op s) \<Longrightarrow>
      contiguous (holds (record_op (slot, v) s)) (cursor_op (record_op (slot, v) s))"
    and read_holds: "read_op first count s = read_retained (holds s) first count"
begin

lemma after_records:
  assumes "list_all ok items" and "distinct (map fst items)"
    and "\<forall>i \<in> set items. fmlookup (holds s) (fst i) = None" and "contiguous (holds s) (cursor_op s)"
  shows "contiguous (holds (fold record_op items s)) (cursor_op (fold record_op items s))
    \<and> (\<forall>slot v. fmlookup (holds (fold record_op items s)) slot = Some v
          \<longleftrightarrow> (slot, v) \<in> set items \<or> fmlookup (holds s) slot = Some v)"
  using assms
proof (induction items arbitrary: s)
  case Nil
  then show ?case by simp
next
  case (Cons i items)
  obtain slot v where i: "i = (slot, v)" by (cases i)
  have ok: "ok (slot, v)" and new: "fmlookup (holds s) slot = None" using Cons.prems i by auto
  have r: "holds (record_op i s) = fmupd slot v (holds s)" using holds_record [OF ok new] i by simp
  have fresh: "\<forall>i \<in> set items. fmlookup (holds (record_op i' s)) (fst i) = None" if "i' = i" for i'
    using Cons.prems(2,3) that r i by (auto simp: image_iff) 
  have "contiguous (holds (record_op i s)) (cursor_op (record_op i s))"
    using cursor_record [OF ok new Cons.prems(4)] i by simp
  note step = Cons.IH [OF _ _ fresh [OF refl] this]
  have "(slot, u) \<notin> set items" for u using Cons.prems(2) i by (auto simp: image_iff)
  then show ?case using step Cons.prems(1,2) r i new by (auto split: if_splits)
qed

lemma served:
  assumes "list_all ok items" and "distinct (map fst items)"
    and "holds s = fmempty" and "cursor_op s = 0"
  shows "set (read_op first count (fold record_op items s))
      = {(slot, v). (slot, v) \<in> set items \<and> first \<le> slot \<and> slot < first + count}"
    and "sorted_wrt (<) (map fst (read_op first count (fold record_op items s)))"
    and "(\<forall>k. 1 \<le> k \<and> k \<le> cursor_op (fold record_op items s) \<longrightarrow> k \<in> fst ` set items)
      \<and> cursor_op (fold record_op items s) + 1 \<notin> fst ` set items \<and> 0 \<le> cursor_op (fold record_op items s)"
proof -
  have a: "contiguous (holds (fold record_op items s)) (cursor_op (fold record_op items s))"
    and l: "\<And>slot v. fmlookup (holds (fold record_op items s)) slot = Some v \<longleftrightarrow> (slot, v) \<in> set items"
  proof -
    have c: "contiguous (holds s) (cursor_op s)" and n: "\<forall>i \<in> set items. fmlookup (holds s) (fst i) = None"
      using assms(3,4) by (simp_all add: contiguous_def)
    show "contiguous (holds (fold record_op items s)) (cursor_op (fold record_op items s))"
      "\<And>slot v. fmlookup (holds (fold record_op items s)) slot = Some v \<longleftrightarrow> (slot, v) \<in> set items"
      using after_records [OF assms(1,2) n c] assms(3) by auto
  qed
  show "set (read_op first count (fold record_op items s))
      = {(slot, v). (slot, v) \<in> set items \<and> first \<le> slot \<and> slot < first + count}"
    using l by (auto simp: read_holds read_retained_iff)
  show "sorted_wrt (<) (map fst (read_op first count (fold record_op items s)))"
    by (simp add: read_holds read_retained_sorted)
  have "k \<in> fst ` set items \<longleftrightarrow> fmlookup (holds (fold record_op items s)) k \<noteq> None" for k
    using l by (force simp: image_iff)
  with a show "(\<forall>k. 1 \<le> k \<and> k \<le> cursor_op (fold record_op items s) \<longrightarrow> k \<in> fst ` set items)
      \<and> cursor_op (fold record_op items s) + 1 \<notin> fst ` set items \<and> 0 \<le> cursor_op (fold record_op items s)"
    by (simp add: contiguous_def)
qed

end

interpretation memory_history: history_contract "\<lambda>(slot, p, k). mh_record slot p k" mh_entries mh_cursor
    mh_read "\<lambda>_. True"
  by unfold_locales (auto simp: mh_record_def mh_read_def Let_def contiguous_upd)

subsection \<open>The history file is a record stream\<close>

definition retained_ok :: "slot \<times> bytes \<times> int \<Rightarrow> bool" where
  "retained_ok item = (case item of (slot, payload, kind) \<Rightarrow>
     is_u64 slot \<and> is_u8 kind \<and> length payload < 4294967296)"

definition index_add :: "retained \<Rightarrow> slot \<times> bytes \<times> int \<Rightarrow> retained" where
  "index_add index item = fmupd (fst item) (snd item) index"

lemma encode_retained_shape:
  assumes "retained_ok (slot, payload, kind)"
  shows "\<exists>prefix. encode_retained (slot, payload, kind) = Inr (prefix @ payload) \<and> length prefix = 13
    \<and> (\<forall>rest. unpack_all HISTORY_PREFIX (prefix @ rest) = [SInt slot, SInt kind, SInt (int (length payload))])"
proof -
  let ?vs = "[SInt slot, SInt kind, SInt (int (length payload))]"
  have f: "list_all2 fits HISTORY_PREFIX ?vs"
    using assms by (simp add: HISTORY_PREFIX_def retained_ok_def is_width_defs)
  obtain prefix where p: "pack HISTORY_PREFIX ?vs = Some prefix" using pack_fits [OF f] by blast
  have "length prefix = 13" using pack_length [OF p] by simp
  then show ?thesis
    using unpack_all_pack [OF f p] p by (simp add: encode_retained_def struct_pack_def)
qed

lemma load_loop_item:
  assumes "retained_ok x" and "encode_retained x = Inr b"
  shows "load_loop (pre @ b @ rest) (length pre) acc
    = load_loop (pre @ b @ rest) (length pre + length b) (index_add acc x)"
proof -
  obtain slot payload kind where x: "x = (slot, payload, kind)" by (cases x)
  obtain prefix where b: "b = prefix @ payload" and l: "length prefix = 13"
    and u: "\<And>rest. unpack_all HISTORY_PREFIX (prefix @ rest) = [SInt slot, SInt kind, SInt (int (length payload))]"
    using encode_retained_shape [of slot payload kind] assms x by auto
  have "slice (length pre + 13) (length pre + 13 + length payload) (pre @ prefix @ payload @ rest) = payload"
    using slice_append [of "pre @ prefix" payload rest] l by simp
  then show ?thesis
    by (subst load_loop.simps) (simp add: b l u x Let_def add.assoc index_add_def)
qed

lemma load_loop_torn:
  assumes "retained_ok x" and "encode_retained x = Inr b" and "strict_prefix part b"
  shows "load_loop (pre @ part) (length pre) acc = acc"
proof (cases "length part < 13")
  case True
  then show ?thesis by (subst load_loop.simps) simp
next
  case False
  obtain slot payload kind where x: "x = (slot, payload, kind)" by (cases x)
  obtain prefix where b: "b = prefix @ payload" and l: "length prefix = 13"
    and u: "\<And>rest. unpack_all HISTORY_PREFIX (prefix @ rest) = [SInt slot, SInt kind, SInt (int (length payload))]"
    using encode_retained_shape [of slot payload kind] assms(1,2) x by auto
  obtain more where more: "b = part @ more" "more \<noteq> []"
    using assms(3) by (auto simp: strict_prefix_def prefix_def)
  have "take 13 (part @ more) = take 13 (prefix @ payload)" using more(1) b by simp
  then have "take 13 part = prefix" using l False by simp
  then have p: "part = prefix @ drop 13 part" by (metis append_take_drop_id)
  then have "payload = drop 13 part @ more" using more(1) b by (metis append.assoc same_append_eq)
  then have "length (drop 13 part) < length payload" using more(2) by simp
  then show ?thesis
    using u [of "drop 13 part"] p l False
    by (subst load_loop.simps) (auto simp: Let_def)
qed

interpretation history_stream: record_stream encode_retained
    "\<lambda>blob off index. Inr (load_loop blob off index)" index_add retained_ok
proof
  show "retained_ok x \<Longrightarrow> \<exists>b. encode_retained x = Inr b" for x
    using encode_retained_shape by (cases x) blast
  show "Inr (load_loop pre (length pre) acc) = Inr acc" for pre acc
    by (subst load_loop.simps) simp
qed (simp_all add: load_loop_item load_loop_torn)

text \<open>The file history whose system calls succeed, on a directory whose file was created empty.\<close>

definition fh_put :: "slot \<times> bytes \<times> int \<Rightarrow> file_history \<times> disk \<Rightarrow> file_history \<times> disk" where
  "fh_put item s = (case item of (slot, payload, kind) \<Rightarrow>
     snd (fh_record IoOk IoOk slot payload kind (fst s) (snd s)))"

lemma fh_put_new:
  assumes "retained_ok (slot, v)" and "fmlookup (fh_index (fst s)) slot = None"
  shows "\<exists>b. encode_retained (slot, v) = Inr b \<and> fh_put (slot, v) s =
    (let index = fmupd slot v (fh_index (fst s))
     in (\<lparr>fh_index = index, fh_cursor = advance_cursor index (fh_cursor (fst s))\<rparr>,
         (snd s)\<lparr>dk_file := Some (file_bytes (snd s) @ b),
                  dk_durable := length (file_bytes (snd s) @ b)\<rparr>))"
proof -
  obtain b where "encode_retained (slot, v) = Inr b" using history_stream.encodes [OF assms(1)] by blast
  with assms(2) show ?thesis
    by (cases v) (simp add: fh_put_def fh_record_def file_write_def file_fsync_def file_bytes_def Let_def)
qed

interpretation file_history: history_contract fh_put "\<lambda>s. fh_index (fst s)" "\<lambda>s. fh_cursor (fst s)"
    "\<lambda>first count s. fh_read first count (fst s)" retained_ok
proof
  fix slot v and s :: "file_history \<times> disk"
  assume a: "retained_ok (slot, v)" "fmlookup (fh_index (fst s)) slot = None"
  show "fh_index (fst (fh_put (slot, v) s)) = fmupd slot v (fh_index (fst s))"
    using fh_put_new [OF a] by (auto simp: Let_def)
  show "contiguous (fh_index (fst s)) (fh_cursor (fst s)) \<Longrightarrow>
      contiguous (fh_index (fst (fh_put (slot, v) s))) (fh_cursor (fst (fh_put (slot, v) s)))"
    using fh_put_new [OF a] by (auto simp: Let_def contiguous_upd)
qed (simp add: fh_read_def)

text \<open>C33: Retained history is served exactly. After recording any entries, at distinct slots and in any
  order, a new \<^verbatim>\<open>FileHistory\<close> and a new \<^verbatim>\<open>MemoryHistory\<close> both read, for every range, the recorded entries of
  that range and no others, in slot order.\<close>

theorem history_serves_recorded:
  assumes "list_all retained_ok items" and "distinct (map fst items)"
    and "s = fold fh_put items (fh_open d)" and "dk_file d = None"
    and "m = fold (\<lambda>(slot, p, k). mh_record slot p k) items mh_new"
  shows "set (fh_read first count (fst s)) = {(slot, v). (slot, v) \<in> set items \<and> first \<le> slot \<and> slot < first + count}
    \<and> set (mh_read first count m) = set (fh_read first count (fst s))
    \<and> sorted_wrt (<) (map fst (fh_read first count (fst s)))
    \<and> sorted_wrt (<) (map fst (mh_read first count m))"
proof -
  have "fh_index (fst (fh_open d)) = fmempty" "fh_cursor (fst (fh_open d)) = 0"
    using assms(4) by (simp_all add: fh_open_def)
  moreover have "list_all (\<lambda>_. True) items" by (simp add: list_all_iff)
  moreover have "mh_entries mh_new = fmempty" "mh_cursor mh_new = 0" by (simp_all add: mh_new_def)
  ultimately show ?thesis
    using file_history.served(1,2) [OF assms(1,2), of "fh_open d"]
      memory_history.served(1,2) [OF _ assms(2), of mh_new]
    by (simp add: assms(3,5))
qed

text \<open>C32: The cursor a history reports is the contiguous prefix it can serve: all slots from 1 to the
  cursor were recorded and the next was not, whatever order the entries arrived in. (A node restarted
  from this cursor never advertises a slot its host lost.)\<close>

theorem history_cursor_contiguous:
  assumes "list_all retained_ok items" and "distinct (map fst items)"
    and "s = fold fh_put items (fh_open d)" and "dk_file d = None"
  shows "(\<forall>k. 1 \<le> k \<and> k \<le> fh_cursor (fst s) \<longrightarrow> k \<in> fst ` set items)
    \<and> fh_cursor (fst s) + 1 \<notin> fst ` set items \<and> 0 \<le> fh_cursor (fst s)"
proof -
  have "fh_index (fst (fh_open d)) = fmempty" "fh_cursor (fst (fh_open d)) = 0"
    using assms(4) by (simp_all add: fh_open_def)
  then show ?thesis
    using file_history.served(3) [OF assms(1,2), of "fh_open d"] by (simp add: assms(3))
qed

definition sample_items :: "(slot \<times> bytes \<times> int) list" where
  "sample_items = [(2, [5], 1), (1, [7, 8], 1), (4, [], 3)]"

lemma sample_items_ok: "list_all retained_ok sample_items" "distinct (map fst sample_items)"
  by (simp_all add: sample_items_def retained_ok_def is_width_defs)

theorem history_serves_recorded_witness:
  "set (fh_read 1 3 (fst (fold fh_put sample_items (fh_open empty_disk)))) = {(1, [7, 8], 1), (2, [5], 1)}"
  using history_serves_recorded [OF sample_items_ok refl _ refl, of empty_disk 1 3]
  by (auto simp: empty_disk_def sample_items_def)

theorem history_cursor_contiguous_witness:
  "fh_cursor (fst (fold fh_put sample_items (fh_open empty_disk))) = 2"
proof -
  have g: "k = 2" if "\<forall>j. 1 \<le> j \<and> j \<le> k \<longrightarrow> j \<in> {1, 2, 4}" "k + 1 \<notin> {1, 2, 4}" "0 \<le> k" for k :: int
    using that(1) [rule_format, of 3] that(2,3) by (cases "3 \<le> k") auto
  have "fst ` set sample_items = {1, 2, 4}" by (auto simp: sample_items_def)
  then show ?thesis
    using history_cursor_contiguous [OF sample_items_ok refl, of empty_disk]
    by (intro g) (simp_all add: empty_disk_def)
qed

subsection \<open>Restart\<close>

text \<open>The life of one history file since it was created, over any number of restarts, with the recorded entries
  as ghost state, as for the journal: \<open>hn_tried\<close> are the entries whose bytes went to the file, in order, up to
  the first \<^verbatim>\<open>record\<close> that raised, \<open>hn_kept\<close> those whose \<^verbatim>\<open>record\<close> returned. \<open>hn_failed\<close> tells that a \<^verbatim>\<open>record\<close>
  has raised, or that a restart found a torn tail, and \<open>hn_spoiled\<close> that something was written since.\<close>

record history_run =
  hn_history :: file_history
  hn_disk :: disk
  hn_tried :: "(slot \<times> bytes \<times> int) list"
  hn_kept :: "(slot \<times> bytes \<times> int) list"
  hn_failed :: bool
  hn_spoiled :: bool

inductive history_step :: "history_run \<Rightarrow> history_run \<Rightarrow> bool" where
  Record: "retained_ok (slot, payload, kind) \<Longrightarrow>
    fh_record o1 o2 slot payload kind (hn_history w) (hn_disk w) = (r, h, d) \<Longrightarrow>
    new = (fmlookup (fh_index (hn_history w)) slot = None \<and> \<not> hn_failed w) \<Longrightarrow>
    history_step w (w\<lparr>hn_history := h, hn_disk := d,
      hn_tried := (if new then hn_tried w @ [(slot, payload, kind)] else hn_tried w),
      hn_kept := (if new \<and> is_ok r then hn_tried w @ [(slot, payload, kind)] else hn_kept w),
      hn_failed := (hn_failed w \<or> \<not> is_ok r), hn_spoiled := (hn_spoiled w \<or> hn_failed w)\<rparr>)"
| Spill: "hn_failed w \<Longrightarrow> history_step w (w\<lparr>hn_disk := snd (file_write IoOk left (hn_disk w)), hn_spoiled := True\<rparr>)"
| Restart: "fh_open (crash k (hn_disk w)) = (h, d) \<Longrightarrow> mapE encode_retained (take q (hn_tried w)) = Inr bs \<Longrightarrow>
    whole = (\<not> hn_spoiled w \<and> file_bytes d = concat bs) \<Longrightarrow>
    history_step w (w\<lparr>hn_history := h, hn_disk := d,
      hn_tried := (if whole then take q (hn_tried w) else hn_tried w), hn_failed := (\<not> whole)\<rparr>)"

inductive history_reachable :: "history_run \<Rightarrow> bool" where
  Created: "dk_file d = None \<Longrightarrow> fh_open d = (h, d') \<Longrightarrow> history_reachable
    \<lparr>hn_history = h, hn_disk = d', hn_tried = [], hn_kept = [], hn_failed = False, hn_spoiled = False\<rparr>"
| Step: "history_reachable w \<Longrightarrow> history_step w w' \<Longrightarrow> history_reachable w'"

text \<open>While nothing has failed the file is the encodings of the entries and the object is what they make.\<close>

abbreviation cut_history :: "disk \<Rightarrow> (slot \<times> bytes \<times> int) list \<Rightarrow> (slot \<times> bytes \<times> int) list \<Rightarrow> bool \<Rightarrow> bool" where
  "cut_history \<equiv> cut_of encode_retained retained_ok []"

definition indexes :: "file_history \<Rightarrow> (slot \<times> bytes \<times> int) list \<Rightarrow> bool" where
  "indexes h xs = (fh_index h = foldl index_add fmempty xs \<and> contiguous (fh_index h) (fh_cursor h))"

definition history_inv :: "history_run \<Rightarrow> bool" where
  "history_inv w = (dk_durable (hn_disk w) \<le> length (file_bytes (hn_disk w))
     \<and> (hn_spoiled w \<longrightarrow> hn_failed w)
     \<and> (\<not> hn_spoiled w \<longrightarrow> cut_history (hn_disk w) (hn_tried w) (hn_kept w) (hn_failed w)
          \<and> distinct (map fst (hn_tried w)))
     \<and> (\<not> hn_failed w \<longrightarrow> indexes (hn_history w) (hn_tried w)))"

lemma index_add_lookup:
  "distinct (map fst xs) \<Longrightarrow> fmlookup (foldl index_add fmempty xs) slot = Some v \<longleftrightarrow> (slot, v) \<in> set xs"
  by (induction xs rule: rev_induct) (auto simp: index_add_def image_iff)

lemma index_add_new: "fmlookup (foldl index_add fmempty xs) slot = None \<longleftrightarrow> slot \<notin> fst ` set xs"
  by (induction xs rule: rev_induct) (auto simp: index_add_def image_iff)

lemma cut_history_read:
  assumes "cut_history d xs ys f" and "dk_durable d \<le> length (file_bytes d)"
  obtains bs n q where "mapE encode_retained xs = Inr bs" and "n \<le> length (concat bs)"
    and "dk_file d = Some (take n (concat bs))" and "q \<le> length xs" and "indexes (fst (fh_open d)) (take q xs)"
    and "prefix ys (take q xs)" and "length (concat (take q bs)) \<le> n"
    and "\<And>k. k \<le> length xs \<Longrightarrow> length (concat (take k bs)) \<le> n \<Longrightarrow> k \<le> q"
proof -
  obtain bs n m where c: "list_all retained_ok xs" "mapE encode_retained xs = Inr bs" "n \<le> length (concat bs)"
    "dk_file d = Some (take n (concat bs))" "m \<le> length xs" "ys = take m xs" "length (concat (take m bs)) \<le> dk_durable d"
    using assms(1) by (auto simp: cut_of_def)
  have m: "length (concat (take m bs)) \<le> n" using c(3,4,7) assms(2) by (simp add: file_bytes_def)
  obtain q where q: "q \<le> length xs" "load_loop (take n (concat bs)) 0 fmempty = foldl index_add fmempty (take q xs)"
    "length (concat (take q bs)) \<le> n" "\<forall>k \<le> length xs. length (concat (take k bs)) \<le> n \<longrightarrow> k \<le> q"
    using history_stream.cut [OF c(1,2), of "[]" n fmempty] by auto
  have "prefix ys (take q xs)" using q(4) m c(5,6) by (metis min.absorb1 take_is_prefix take_take)
  moreover have "indexes (fst (fh_open d)) (take q xs)"
    using c(4) q(2) advance_cursor_contiguous [of 0] by (simp add: indexes_def fh_open_def Let_def)
  ultimately show thesis using that [OF c(2-4) q(1)] q(3,4) by blast
qed

lemma mapE_member: "mapE f xs = Inr ys \<Longrightarrow> y \<in> set ys \<Longrightarrow> \<exists>x \<in> set xs. f x = Inr y"
  by (induction xs arbitrary: ys) (auto simp: bindE_eq_Inr)

lemma fh_open_disk: "dk_file d = Some b \<Longrightarrow> snd (fh_open d) = d"
  by (simp add: fh_open_def Let_def)

lemma record_cases:
  assumes "fh_record o1 o2 slot payload kind h d = (r, h', d')" and "retained_ok (slot, payload, kind)"
  shows "fmlookup (fh_index h) slot \<noteq> None \<and> r = Inr () \<and> h' = h \<and> d' = d
    \<or> fmlookup (fh_index h) slot = None \<and> (\<exists>b r1 d1. encode_retained (slot, payload, kind) = Inr b
        \<and> file_put o1 None b d = (r1, None, d1)
        \<and> (\<not> is_ok r \<and> h' = h \<and> d' = d1
           \<or> is_ok r \<and> is_ok r1 \<and> d' = d1\<lparr>dk_durable := length (file_bytes d1)\<rparr>
             \<and> fh_index h' = fmupd slot (payload, kind) (fh_index h)
             \<and> fh_cursor h' = advance_cursor (fh_index h') (fh_cursor h)))"
proof -
  obtain b where "encode_retained (slot, payload, kind) = Inr b" using history_stream.encodes [OF assms(2)] by blast
  then show ?thesis using assms(1)
    by (cases "fmlookup (fh_index h) slot")
       (auto simp: fh_record_def file_put_def file_fsync_def Let_def split: if_splits sum.splits prod.splits io.splits)
qed

lemma history_inv_step:
  assumes "history_step w w'" and inv: "history_inv w"
  shows "history_inv w'"
  using assms(1)
proof cases
  case (Record slot payload kind o1 o2 r h d new)
  let ?x = "(slot, payload, kind)"
  have dl: "dk_durable (hn_disk w) \<le> length (file_bytes (hn_disk w))" using inv by (simp add: history_inv_def)
  from record_cases [OF Record(3,2)] show ?thesis
  proof (elim disjE conjE exE)
    assume "fmlookup (fh_index (hn_history w)) slot \<noteq> None" "r = Inr ()" "h = hn_history w" "d = hn_disk w"
    then show ?thesis using inv Record(1,4) by (auto simp: history_inv_def)
  next
    fix b r1 d1
    assume b: "encode_retained ?x = Inr b" and put: "file_put o1 None b (hn_disk w) = (r1, None, d1)"
      and none: "fmlookup (fh_index (hn_history w)) slot = None" and f: "\<not> is_ok r" "h = hn_history w" "d = d1"
    have dl': "dk_durable d \<le> length (file_bytes d)"
      using put dl f(3) by (auto simp: file_put_def file_write_def file_bytes_def split: io.splits option.splits)
    show ?thesis
    proof (cases "hn_failed w")
      case True
      then show ?thesis using dl' f(1) by (simp add: Record(1) history_inv_def)
    next
      case False
      then have c: "cut_history (hn_disk w) (hn_tried w) (hn_kept w) False" and ix: "indexes (hn_history w) (hn_tried w)"
        and ds: "distinct (map fst (hn_tried w))" and ns: "\<not> hn_spoiled w"
        using inv by (auto simp: history_inv_def)
      have "cut_history d (hn_tried w @ [?x]) (hn_kept w) (\<not> is_ok r1)"
        using cut_written [OF c, of "[?x]" "[b]" o1 r1 None d1] Record(2) b put f(3) by simp
      from cut_same [OF this, of d True] have "cut_history d (hn_tried w @ [?x]) (hn_kept w) True" by simp
      moreover have "slot \<notin> fst ` set (hn_tried w)" using none ix by (simp add: indexes_def index_add_new)
      ultimately show ?thesis using dl' f(1) False none ds ns by (simp add: Record(1,4) history_inv_def)
    qed
  next
    fix b r1 d1
    assume b: "encode_retained ?x = Inr b" and put: "file_put o1 None b (hn_disk w) = (r1, None, d1)"
      and none: "fmlookup (fh_index (hn_history w)) slot = None" and ok: "is_ok r" "is_ok r1"
      and d: "d = d1\<lparr>dk_durable := length (file_bytes d1)\<rparr>"
      and h: "fh_index h = fmupd slot (payload, kind) (fh_index (hn_history w))"
        "fh_cursor h = advance_cursor (fh_index h) (fh_cursor (hn_history w))"
    have dl': "dk_durable d \<le> length (file_bytes d)" by (simp add: d file_bytes_def)
    show ?thesis
    proof (cases "hn_failed w")
      case True
      then show ?thesis using dl' ok by (simp add: Record(1) history_inv_def)
    next
      case False
      then have c: "cut_history (hn_disk w) (hn_tried w) (hn_kept w) False" and ix: "indexes (hn_history w) (hn_tried w)"
        and ds: "distinct (map fst (hn_tried w))" and ns: "\<not> hn_spoiled w"
        using inv by (auto simp: history_inv_def)
      have "cut_history d1 (hn_tried w @ [?x]) (hn_kept w) False"
        using cut_written [OF c, of "[?x]" "[b]" o1 r1 None d1] Record(2) b put ok by simp
      then have "cut_history d (hn_tried w @ [?x]) (hn_tried w @ [?x]) False" by (rule cut_synced) (simp_all add: d)
      moreover have "slot \<notin> fst ` set (hn_tried w)" using none ix by (simp add: indexes_def index_add_new)
      moreover have "indexes h (hn_tried w @ [?x])"
      proof -
        have "contiguous (fh_index h) (fh_cursor h)"
          unfolding h(2) unfolding h(1) using ix by (intro contiguous_upd) (auto simp: indexes_def)
        then show ?thesis using ix h(1) by (simp add: indexes_def index_add_def)
      qed
      ultimately show ?thesis using dl' ok False none ds ns by (simp add: Record(1,4) history_inv_def)
    qed
  qed
next
  case (Spill left)
  then show ?thesis using inv by (auto simp: history_inv_def file_write_def file_bytes_def split: option.splits)
next
  case (Restart k h d q bs whole)
  have dl: "dk_durable (hn_disk w) \<le> length (file_bytes (hn_disk w))" using inv by (simp add: history_inv_def)
  have dl': "dk_durable d \<le> length (file_bytes d)"
  proof (cases "dk_file (hn_disk w)")
    case None
    then show ?thesis using Restart(2) dl by (auto simp: fh_open_def file_bytes_def)
  next
    case (Some b)
    then have "d = crash k (hn_disk w)" using Restart(2) fh_open_disk [of "crash k (hn_disk w)"] by simp
    then show ?thesis using Some dl by (simp add: file_bytes_def)
  qed
  show ?thesis
  proof (cases "hn_spoiled w")
    case True
    then show ?thesis using dl' Restart(4) by (simp add: Restart(1) history_inv_def)
  next
    case False
    then have c: "cut_history (hn_disk w) (hn_tried w) (hn_kept w) (hn_failed w)" and ds: "distinct (map fst (hn_tried w))"
      using inv by (simp_all add: history_inv_def)
    obtain b where b: "dk_file (hn_disk w) = Some b" using c by (auto simp: cut_of_def)
    have d: "d = crash k (hn_disk w)" and h: "h = fst (fh_open d)"
      using Restart(2) fh_open_disk [of "crash k (hn_disk w)"] b by simp_all
    have c': "cut_history d (hn_tried w) (hn_kept w) True"
      using cut_same [OF cut_lost [OF c, of k], of d True] by (simp add: d lose_buffer_def)
    show ?thesis
    proof (cases whole)
      case False
      then show ?thesis using dl' c' ds by (simp add: Restart(1) history_inv_def)
    next
      case True
      obtain bs0 n p where r: "mapE encode_retained (hn_tried w) = Inr bs0" "n \<le> length (concat bs0)"
        "dk_file d = Some (take n (concat bs0))" "p \<le> length (hn_tried w)" "indexes (fst (fh_open d)) (take p (hn_tried w))"
        "prefix (hn_kept w) (take p (hn_tried w))" "length (concat (take p bs0)) \<le> n"
        "\<And>i. i \<le> length (hn_tried w) \<Longrightarrow> length (concat (take i bs0)) \<le> n \<Longrightarrow> i \<le> p"
        using cut_history_read [OF c' dl'] by metis
      have len: "length (hn_tried w) = length bs0" using r(1) mapE_length by metis
      have bs: "bs = take q bs0" using mapE_take [OF r(1), of q] Restart(3) by simp
      have n: "take n (concat bs0) = concat (take q bs0)"
        using True Restart(4) r(3) bs by (simp add: file_bytes_def)
      then have nq: "n = length (concat (take q bs0))" using r(2) by (metis length_take min.absorb2)
      have nonempty: "y \<noteq> []" if y: "y \<in> set bs0" for y
      proof -
        obtain x where "x \<in> set (hn_tried w)" "encode_retained x = Inr y" "retained_ok x"
          using mapE_member [OF r(1) y] c by (auto simp: cut_of_def list_all_iff)
        then show ?thesis using encode_retained_shape [of "fst x" "fst (snd x)" "snd (snd x)"] by (cases x) auto
      qed
      have tq: "take p (hn_tried w) = take q (hn_tried w)"
      proof (cases "q \<le> length (hn_tried w)")
        case True
        have qp: "q \<le> p" using r(8) [OF True] nq by simp
        have "concat (take p bs0) = concat (take q bs0) @ concat (take (p - q) (drop q bs0))"
          using qp by (metis concat_append le_add_diff_inverse take_add)
        then have "concat (take (p - q) (drop q bs0)) = []" using r(7) nq by simp
        then have "take (p - q) (drop q bs0) = []"
          using nonempty by (cases "take (p - q) (drop q bs0)") (auto dest: in_set_takeD in_set_dropD simp del: take_eq_Nil,
            metis in_set_dropD in_set_takeD list.set_intros(1))
        then have "p - q = 0 \<or> length bs0 \<le> q" by simp
        then show ?thesis using qp r(4) len by auto
      next
        case False
        then have "p = length (hn_tried w)" using r(2,4) nq len r(8) [of "length (hn_tried w)"] by simp
        then show ?thesis using False by simp
      qed
      have "cut_history d (take q (hn_tried w)) (hn_kept w) False"
      proof -
        obtain m where m: "m \<le> length (hn_tried w)" "hn_kept w = take m (hn_tried w)"
          "length (concat (take m bs0)) \<le> dk_durable d" "list_all retained_ok (hn_tried w)"
          using c' r(1) by (auto simp: cut_of_def)
        have ml: "m \<le> length (take q (hn_tried w))" using prefix_length_le [OF r(6)] m(1) unfolding tq m(2) by simp
        then have "take m (take q (hn_tried w)) = take m (hn_tried w)" "take m (take q bs0) = take m bs0"
          by (simp_all add: min_absorb1)
        then show ?thesis unfolding cut_of_def
          using mapE_take [OF r(1), of q] list_all_take [OF m(4), of q] r(3) n nq m(2,3) ml
          by (intro exI [of _ "take q bs0"] exI [of _ n] exI [of _ m]) simp
      qed
      moreover have "indexes h (take q (hn_tried w))" using r(5) tq h by simp
      moreover have "distinct (map fst (take q (hn_tried w)))" using ds by (simp add: take_map [symmetric])
      ultimately show ?thesis using True dl' False by (simp add: Restart(1) history_inv_def)
    qed
  qed
qed

lemma history_inv_reachable: "history_reachable w \<Longrightarrow> history_inv w"
proof (induction rule: history_reachable.induct)
  case (Created d h d')
  then have "h = \<lparr>fh_index = fmempty, fh_cursor = 0\<rparr>" "dk_file d' = Some []" "dk_durable d' = 0"
    by (auto simp: fh_open_def)
  then show ?case by (simp add: history_inv_def cut_of_def indexes_def contiguous_def file_bytes_def)
next
  case (Step w w')
  then show ?case using history_inv_step by blast
qed



lemma load_loop_last:
  assumes "length pfx = 13" and "length rest < 13"
    and "unpack_all HISTORY_PREFIX (pfx @ t @ rest) = [SInt slot, SInt kind, SInt (int (length t))]"
  shows "load_loop (pre @ pfx @ t @ rest) (length pre) acc = fmupd slot (t, kind) acc"
proof -
  have "slice (length pre + 13) (length pre + 13 + length t) (pre @ pfx @ t @ rest) = t"
    using slice_append [of "pre @ pfx" t rest] assms(1) by simp
  moreover have "load_loop b (length pre + 13 + length t) i = i" if "length b < length pre + 26 + length t" for b i
    using that by (subst load_loop.simps) simp
  ultimately show ?thesis
    using assms by (subst load_loop.simps) (simp add: Let_def)
qed




subsection \<open>Closing\<close>

text \<open>
  \<^verbatim>\<open>FileHistory.close\<close> closes the file and nothing else: the index stays, so reads are served as before,
  and recording a slot that is not held ends in the \<^verbatim>\<open>ValueError\<close> of a closed file, which is not the
  \<^verbatim>\<open>StorageError\<close> that callers handle. (What a failed flush left buffered, and a later flush or the closing
  writes, is the rule \<open>Spill\<close> above.)
\<close>

record history_object =
  ho_history :: file_history
  ho_closed :: bool

definition fh_close :: "history_object \<Rightarrow> history_object" where
  "fh_close ob = ob\<lparr>ho_closed := True\<rparr>"

definition ho_record :: "io \<Rightarrow> io \<Rightarrow> slot \<Rightarrow> bytes \<Rightarrow> int \<Rightarrow> history_object \<Rightarrow> disk \<Rightarrow> (exn + unit) \<times> history_object \<times> disk" where
  "ho_record out1 out2 slot payload kind ob d =
     (if ho_closed ob
      then if fmlookup (fh_index (ho_history ob)) slot \<noteq> None then (Inr (), ob, d)
           else case encode_retained (slot, payload, kind) of Inl e \<Rightarrow> (Inl e, ob, d) | Inr _ \<Rightarrow> (Inl ValueErr, ob, d)
      else case fh_record out1 out2 slot payload kind (ho_history ob) d of
             (r, h, d') \<Rightarrow> (r, ob\<lparr>ho_history := h\<rparr>, d'))"

lemma closed_history:
  assumes "ho_record out1 out2 slot payload kind (fh_close ob) d = (r, ob', d')"
  shows "ob' = fh_close ob \<and> d' = d
    \<and> (is_ok r \<longleftrightarrow> (\<exists>v. (slot, v) \<in> set (fh_read slot 1 (ho_history ob))))
    \<and> r \<noteq> Inl (err StorageError [])"
proof -
  have "encode_retained (slot, payload, kind) \<noteq> Inl (err StorageError [])"
    by (auto simp: encode_retained_def struct_pack_def err_def bindE_def split: option.splits sum.splits)
  moreover have "(\<exists>v. (slot, v) \<in> set (fh_read slot 1 h)) \<longleftrightarrow> fmlookup (fh_index h) slot \<noteq> None" for h
    by (auto simp: fh_read_def read_retained_iff)
  ultimately show ?thesis using assms
    by (auto simp: ho_record_def fh_close_def err_def split: if_splits sum.splits)
qed

end
