(* ===== verification/Bridge.thy ===== *)
theory Bridge
  imports Native Errors Models
begin

section \<open>The native bridge: the pending-batch protocol\<close>

text \<open>
  The Odin files \<^verbatim>\<open>handle.odin\<close>, \<^verbatim>\<open>batch.odin\<close>, \<^verbatim>\<open>transitions.odin\<close>, \<^verbatim>\<open>queries.odin\<close> and
  \<^verbatim>\<open>lifecycle.odin\<close> of \<^verbatim>\<open>src/python/paxodin/native\<close>, as functions on the handle they guard. The
  consensus core behind the bridge (\<^verbatim>\<open>src/src/*.odin\<close>) is the record \<open>core_ops\<close>, a parameter: its
  transitions take and return an opaque state \<open>'c\<close> and the effects batch, already in the C form the
  conversions of \<^verbatim>\<open>convert.odin\<close> give it. An export returns a status and the handle after the call.
  Python never passes a null pointer, so those statuses are left out.
\<close>

subsection \<open>The core behind the bridge\<close>

record effects =
  ef_writes :: "c_write list"
  ef_messages :: "c_envelope list"
  ef_committed :: "c_committed list"
  ef_requests :: "c_request list"
  ef_pending :: bool

definition no_effects :: effects where
  "no_effects = \<lparr>ef_writes = [], ef_messages = [], ef_committed = [], ef_requests = [], ef_pending = False\<rparr>"

datatype transition =
  T_Campaign | T_Tick | T_Propose c_entry | T_Propose_Batch "c_entry list" | T_Step c_envelope
| T_Reconnected int | T_Request_Catch_Up int int | T_Install_Trim int int

record 'c core_ops =
  co_transition :: "transition \<Rightarrow> 'c \<Rightarrow> effects \<Rightarrow> int \<times> int list \<times> 'c \<times> effects"
  co_advance_floor :: "int \<Rightarrow> 'c \<Rightarrow> int \<times> 'c"
  co_set_campaign :: "bool \<Rightarrow> 'c \<Rightarrow> 'c"
  co_decided_through :: "'c \<Rightarrow> int"
  co_memory_floor :: "'c \<Rightarrow> int"
  co_read :: "'c \<Rightarrow> int \<Rightarrow> c_entry option"
  co_state :: "'c \<Rightarrow> c_state"
  co_membership :: "c_config \<Rightarrow> int"
  co_init :: "c_config \<Rightarrow> int \<times> 'c"
  co_ledger :: "c_config \<Rightarrow> 'c"
  co_replay_fold :: "c_write \<Rightarrow> 'c \<Rightarrow> int \<times> 'c"
  co_restore :: "int \<Rightarrow> 'c \<Rightarrow> int \<times> 'c"

text \<open>\<^verbatim>\<open>core_status\<close>: the ordinal of a core error, offset.\<close>

definition core_status :: "int \<Rightarrow> int" where
  "core_status e = (if e = 0 then 0 else CORE_STATUS_BASE + e)"

definition ERR_INVALID_SLOT :: int where "ERR_INVALID_SLOT = 11"
definition ERR_TRIMMED :: int where "ERR_TRIMMED = 42"

subsection \<open>The handle\<close>

record batch =
  bt_phase :: batch_phase
  bt_requires_barrier :: bool
  bt_generation :: int
  bt_protocol_status :: int
  bt_write_count :: nat
  bt_writes_copied_through :: nat
  bt_message_count :: nat
  bt_committed_count :: nat
  bt_request_count :: nat
  bt_assigned_slot :: int
  bt_assigned :: "int list"

definition zero_batch :: batch where
  "zero_batch = \<lparr>bt_phase = BP_IDLE, bt_requires_barrier = False, bt_generation = 0,
     bt_protocol_status = 0, bt_write_count = 0, bt_writes_copied_through = 0,
     bt_message_count = 0, bt_committed_count = 0, bt_request_count = 0, bt_assigned_slot = 0,
     bt_assigned = []\<rparr>"

text \<open>\<open>hd_violated\<close> records that \<^verbatim>\<open>host_order_violation\<close> would have ended the process in a build with the
  enforced gate.\<close>

record 'c handle =
  hd_live :: bool
  hd_epoch :: int
  hd_generation :: int
  hd_same_process :: bool
  hd_poisoned :: bool
  hd_busy :: bool
  hd_replaying :: bool
  hd_core :: 'c
  hd_effects :: effects
  hd_batch :: batch
  hd_violated :: bool

definition enter :: "'c handle \<Rightarrow> int" where
  "enter h =
     (if \<not> hd_live h then E_HANDLE_CLOSED
      else if \<not> hd_same_process h then E_WRONG_PROCESS
      else if hd_poisoned h then E_POISONED
      else if hd_busy h then E_REENTRANT
      else OK)"

definition batch_open :: "'c handle \<Rightarrow> int \<times> 'c handle" where
  "batch_open h =
     (if hd_replaying h then (E_REPLAY_ACTIVE, h)
      else if bt_phase (hd_batch h) = BP_PENDING \<or> bt_phase (hd_batch h) = BP_CONFIRMED
      then (E_BATCH_PENDING, h)
      else (OK, h\<lparr>hd_generation := hd_generation h + 1,
                   hd_batch := zero_batch\<lparr>bt_generation := hd_generation h + 1,
                                           bt_phase := BP_PENDING\<rparr>\<rparr>))"

definition report_fill :: "'c handle \<Rightarrow> c_report" where
  "report_fill h =
     (let b = hd_batch h
      in \<lparr>cp_epoch = hd_epoch h, cp_generation = bt_generation b,
          cp_assigned_slot = bt_assigned_slot b, cp_status = bt_protocol_status b,
          cp_phase = batch_phase_value (bt_phase b), cp_write_count = bt_write_count b,
          cp_writes_copied_through = bt_writes_copied_through b,
          cp_message_count = bt_message_count b, cp_committed_count = bt_committed_count b,
          cp_request_count = bt_request_count b, cp_assigned_count = length (bt_assigned b),
          cp_requires_barrier = (if bt_requires_barrier b then 1 else 0)\<rparr>)"

definition requires_power_loss_barrier :: "effects \<Rightarrow> bool" where
  "requires_power_loss_barrier e =
     (\<exists>w \<in> set (ef_writes e). cw_kind w \<in> {write_kind_value WK_PROMISE,
        write_kind_value WK_PROMISE_AT, write_kind_value WK_VOTE})"

definition batch_seal :: "int \<Rightarrow> 'c handle \<Rightarrow> c_token \<times> c_report \<times> 'c handle" where
  "batch_seal e h =
     (let ef = hd_effects h;
          b = (hd_batch h)\<lparr>bt_protocol_status := core_status e,
                bt_write_count := length (ef_writes ef),
                bt_message_count := length (ef_messages ef),
                bt_committed_count := length (ef_committed ef),
                bt_request_count := length (ef_requests ef),
                bt_requires_barrier := requires_power_loss_barrier ef\<rparr>;
          b = (if bt_write_count b = 0 then b\<lparr>bt_phase := BP_CONFIRMED\<rparr> else b);
          h = h\<lparr>hd_batch := b\<rparr>
      in (\<lparr>ct_epoch = hd_epoch h, ct_generation = bt_generation b\<rparr>, report_fill h, h))"

definition token_check :: "'c handle \<Rightarrow> c_token \<Rightarrow> int" where
  "token_check h t =
     (if ct_epoch t \<noteq> hd_epoch h then E_FOREIGN_TOKEN
      else if bt_phase (hd_batch h) = BP_IDLE then E_NO_BATCH
      else if ct_generation t \<noteq> bt_generation (hd_batch h) then E_STALE_TOKEN
      else OK)"

definition output_gate :: "'c handle \<Rightarrow> int" where
  "output_gate h = (case bt_phase (hd_batch h) of
     BP_PENDING \<Rightarrow> E_WRITES_UNCONFIRMED | BP_FINISHED \<Rightarrow> E_BATCH_FINISHED | _ \<Rightarrow> OK)"

text \<open>The readable phases of the two copies that do not wait for a confirmation.\<close>

definition finished_gate :: "'c handle \<Rightarrow> int" where
  "finished_gate h = (if bt_phase (hd_batch h) = BP_FINISHED then E_BATCH_FINISHED else OK)"

definition span :: "nat \<Rightarrow> nat \<Rightarrow> nat \<Rightarrow> nat \<times> int" where
  "span avail offset want = (if avail < offset then (0, E_RANGE) else (min want (avail - offset), OK))"

subsection \<open>Transitions\<close>

definition CHUNK_SLOTS :: nat where "CHUNK_SLOTS = 64"

text \<open>\<^verbatim>\<open>entry_from_c\<close>: the status of decoding an inbound entry; the stop sign is refused in every build.\<close>

definition entry_from_c_status :: "c_entry \<Rightarrow> int" where
  "entry_from_c_status e =
     (if ce_kind e = 0 then OK
      else if ce_kind e = 1 \<or> ce_kind e = 2
      then (if int MAX_VALUE_BYTES < ce_length e then E_VALUE_TOO_LARGE else OK)
      else if ce_kind e = 3 then E_UNSUPPORTED_CAPABILITY
      else E_UNSUPPORTED_KIND)"

definition command_status :: "c_entry \<Rightarrow> int" where
  "command_status e = (if ce_kind e \<noteq> 1 then E_UNSUPPORTED_KIND else entry_from_c_status e)"

fun commands_status :: "c_entry list \<Rightarrow> int" where
  "commands_status [] = OK"
| "commands_status (e # es) = (if command_status e \<noteq> OK then command_status e else commands_status es)"

text \<open>\<^verbatim>\<open>envelope_from_c\<close>.\<close>

definition envelope_from_c_status :: "c_envelope \<Rightarrow> int" where
  "envelope_from_c_status v =
     (if cv_sender v = 0 \<or> cv_recipient v = 0 then E_INVALID_ARGUMENT
      else if entry_from_c_status (cv_entry v) \<noteq> OK then entry_from_c_status (cv_entry v)
      else if cv_kind v = message_kind_value MK_PREPARE
      then (if 1 < cv_scope v then E_UNSUPPORTED_KIND else OK)
      else if cv_kind v = message_kind_value MK_PROMISE
      then (if 2 < cv_cell_state v then E_UNSUPPORTED_KIND else OK)
      else if 1 \<le> cv_kind v \<and> cv_kind v \<le> 9 then OK
      else E_UNSUPPORTED_KIND)"

text \<open>What each \<^verbatim>\<open>begin_*\<close> validates before a batch exists.\<close>

fun transition_status :: "transition \<Rightarrow> int" where
  "transition_status (T_Propose e) = command_status e"
| "transition_status (T_Propose_Batch es) =
     (if es = [] \<or> CHUNK_SLOTS < length es then E_INVALID_ARGUMENT else commands_status es)"
| "transition_status (T_Step v) = envelope_from_c_status v"
| "transition_status (T_Reconnected peer) = (if peer = 0 then E_INVALID_ARGUMENT else OK)"
| "transition_status (T_Request_Catch_Up peer _) = (if peer = 0 then E_INVALID_ARGUMENT else OK)"
| "transition_status _ = OK"

text \<open>A batch proposal keeps the assigned slots; a single proposal only the slot itself.\<close>

definition note_assigned :: "transition \<Rightarrow> int list \<Rightarrow> batch \<Rightarrow> batch" where
  "note_assigned t slots b = (case t of
     T_Propose _ \<Rightarrow> b\<lparr>bt_assigned_slot := (case slots of [] \<Rightarrow> 0 | s # _ \<Rightarrow> s)\<rparr>
   | T_Propose_Batch _ \<Rightarrow>
       b\<lparr>bt_assigned := slots,
         bt_assigned_slot := (case slots of [] \<Rightarrow> bt_assigned_slot b | s # _ \<Rightarrow> s)\<rparr>
   | _ \<Rightarrow> b)"

definition begin_transition :: "'c core_ops \<Rightarrow> transition \<Rightarrow> 'c handle \<Rightarrow>
    int \<times> (c_token \<times> c_report) option \<times> 'c handle" where
  "begin_transition ops t h =
     (if enter h \<noteq> OK then (enter h, None, h)
      else if transition_status t \<noteq> OK then (transition_status t, None, h)
      else case batch_open h of (st, h1) \<Rightarrow>
        (if st \<noteq> OK then (st, None, h1)
         else case co_transition ops t (hd_core h1) (hd_effects h1) of (e, slots, c, ef) \<Rightarrow>
           (let h2 = h1\<lparr>hd_core := c, hd_effects := ef,
                        hd_violated := hd_violated h1 \<or> ef_pending (hd_effects h1),
                        hd_batch := note_assigned t slots (hd_batch h1)\<rparr>
            in case batch_seal e h2 of (token, report, h3) \<Rightarrow> (OK, Some (token, report), h3))))"

subsection \<open>Discharging a batch\<close>

definition batch_report :: "c_token \<Rightarrow> 'c handle \<Rightarrow> int \<times> c_report option" where
  "batch_report t h =
     (if enter h \<noteq> OK then (enter h, None)
      else if token_check h t \<noteq> OK then (token_check h t, None)
      else (OK, Some (report_fill h)))"

text \<open>What the five copies share: \<open>gate\<close> is the phase check, \<open>avail\<close> the batch's count and \<open>records\<close>
  the slice of the effects.\<close>

definition copy_out :: "('c handle \<Rightarrow> int) \<Rightarrow> nat \<Rightarrow> 'r list \<Rightarrow> c_token \<Rightarrow> nat \<Rightarrow> nat \<Rightarrow> 'c handle \<Rightarrow> int \<times> 'r list" where
  "copy_out gate avail records t offset want h =
     (if enter h \<noteq> OK then (enter h, [])
      else if token_check h t \<noteq> OK then (token_check h t, [])
      else if gate h \<noteq> OK then (gate h, [])
      else case span avail offset want of (count, st) \<Rightarrow>
        (if st \<noteq> OK then (st, []) else (OK, take count (drop offset records))))"

definition copy_writes :: "c_token \<Rightarrow> nat \<Rightarrow> nat \<Rightarrow> 'c handle \<Rightarrow> int \<times> c_write list \<times> 'c handle" where
  "copy_writes t offset want h =
     (case copy_out finished_gate (bt_write_count (hd_batch h)) (ef_writes (hd_effects h)) t offset want h of
        (st, out) \<Rightarrow>
          (if st \<noteq> OK then (st, [], h)
           else (OK, out, h\<lparr>hd_batch := (hd_batch h)\<lparr>bt_writes_copied_through :=
              max (bt_writes_copied_through (hd_batch h))
                  (offset + fst (span (bt_write_count (hd_batch h)) offset want))\<rparr>\<rparr>)))"

definition confirm :: "c_token \<Rightarrow> 'c handle \<Rightarrow> int \<times> 'c handle" where
  "confirm t h =
     (if enter h \<noteq> OK then (enter h, h)
      else if token_check h t \<noteq> OK then (token_check h t, h)
      else if bt_phase (hd_batch h) = BP_CONFIRMED then (OK, h)
      else if bt_phase (hd_batch h) = BP_FINISHED then (E_BATCH_FINISHED, h)
      else if bt_writes_copied_through (hd_batch h) < bt_write_count (hd_batch h)
      then (E_WRITES_NOT_COPIED, h)
      else (OK, h\<lparr>hd_effects := (hd_effects h)\<lparr>ef_pending := False\<rparr>,
                   hd_batch := (hd_batch h)\<lparr>bt_phase := BP_CONFIRMED\<rparr>\<rparr>))"

definition copy_messages :: "c_token \<Rightarrow> nat \<Rightarrow> nat \<Rightarrow> 'c handle \<Rightarrow> int \<times> c_envelope list \<times> 'c handle" where
  "copy_messages t offset want h =
     (case copy_out output_gate (bt_message_count (hd_batch h)) (ef_messages (hd_effects h)) t offset want h of
        (st, out) \<Rightarrow>
          (st, out, if st = OK then h\<lparr>hd_violated := hd_violated h \<or> ef_pending (hd_effects h)\<rparr> else h))"

definition copy_committed :: "c_token \<Rightarrow> nat \<Rightarrow> nat \<Rightarrow> 'c handle \<Rightarrow> int \<times> c_committed list" where
  "copy_committed t offset want h =
     copy_out output_gate (bt_committed_count (hd_batch h)) (ef_committed (hd_effects h)) t offset want h"

definition copy_requests :: "c_token \<Rightarrow> nat \<Rightarrow> nat \<Rightarrow> 'c handle \<Rightarrow> int \<times> c_request list" where
  "copy_requests t offset want h =
     copy_out output_gate (bt_request_count (hd_batch h)) (ef_requests (hd_effects h)) t offset want h"

definition copy_assigned_slots :: "c_token \<Rightarrow> nat \<Rightarrow> nat \<Rightarrow> 'c handle \<Rightarrow> int \<times> int list" where
  "copy_assigned_slots t offset want h =
     copy_out finished_gate (length (bt_assigned (hd_batch h))) (bt_assigned (hd_batch h)) t offset want h"

definition finish :: "c_token \<Rightarrow> 'c handle \<Rightarrow> int \<times> 'c handle" where
  "finish t h =
     (if enter h \<noteq> OK then (enter h, h)
      else if token_check h t \<noteq> OK then (token_check h t, h)
      else case bt_phase (hd_batch h) of
        BP_FINISHED \<Rightarrow> (OK, h)
      | BP_PENDING \<Rightarrow> (E_WRITES_UNCONFIRMED, h)
      | _ \<Rightarrow> (OK, h\<lparr>hd_batch := (hd_batch h)\<lparr>bt_phase := BP_FINISHED\<rparr>\<rparr>))"

subsection \<open>Queries, the memory floor, replay, close\<close>

definition node_state_of :: "'c core_ops \<Rightarrow> 'c handle \<Rightarrow> int \<times> c_state option" where
  "node_state_of ops h =
     (if enter h \<noteq> OK then (enter h, None) else (OK, Some (co_state ops (hd_core h))))"

definition bridge_advance_floor :: "'c core_ops \<Rightarrow> int \<Rightarrow> 'c handle \<Rightarrow> int \<times> 'c handle" where
  "bridge_advance_floor ops through h =
     (if enter h \<noteq> OK then (enter h, h)
      else if bt_phase (hd_batch h) = BP_PENDING \<or> bt_phase (hd_batch h) = BP_CONFIRMED
      then (E_BATCH_PENDING, h)
      else case co_advance_floor ops through (hd_core h) of
        (e, c) \<Rightarrow> (core_status e, h\<lparr>hd_core := c\<rparr>))"

definition bridge_set_campaign :: "'c core_ops \<Rightarrow> bool \<Rightarrow> 'c handle \<Rightarrow> int \<times> 'c handle" where
  "bridge_set_campaign ops enabled h =
     (if enter h \<noteq> OK then (enter h, h)
      else (OK, h\<lparr>hd_core := co_set_campaign ops enabled (hd_core h)\<rparr>))"

definition bridge_decided_span :: "'c core_ops \<Rightarrow> int \<Rightarrow> 'c handle \<Rightarrow> int \<times> int" where
  "bridge_decided_span ops from_slot h =
     (if enter h \<noteq> OK then (enter h, 0)
      else if from_slot = 0 then (core_status ERR_INVALID_SLOT, 0)
      else if from_slot \<le> co_memory_floor ops (hd_core h) then (core_status ERR_TRIMMED, 0)
      else (let decided = co_decided_through ops (hd_core h)
            in (OK, if decided < from_slot then 0 else decided - from_slot + 1)))"

text \<open>The walk of \<^verbatim>\<open>paxodin_read_decided\<close>: one slot at a time, stopping at the first that is not there.\<close>

fun read_walk :: "'c core_ops \<Rightarrow> 'c \<Rightarrow> int \<Rightarrow> nat \<Rightarrow> c_committed list" where
  "read_walk ops c slot 0 = []"
| "read_walk ops c slot (Suc n) =
     (case co_read ops c slot of
        None \<Rightarrow> []
      | Some e \<Rightarrow> \<lparr>cc_slot = slot, cc_entry = e\<rparr> # read_walk ops c (slot + 1) n)"

definition bridge_read_decided :: "'c core_ops \<Rightarrow> int \<Rightarrow> nat \<Rightarrow> 'c handle \<Rightarrow> int \<times> c_committed list" where
  "bridge_read_decided ops from_slot limit h =
     (if enter h \<noteq> OK then (enter h, [])
      else if from_slot = 0 then (core_status ERR_INVALID_SLOT, [])
      else if from_slot \<le> co_memory_floor ops (hd_core h) then (core_status ERR_TRIMMED, [])
      else (let decided = co_decided_through ops (hd_core h)
            in (OK, if decided < from_slot then []
                    else read_walk ops (hd_core h) from_slot (min limit (nat (decided - from_slot + 1))))))"

text \<open>\<^verbatim>\<open>paxodin_committed_at\<close>: the status, and the entry if one is held at the slot.\<close>

definition bridge_committed_at :: "'c core_ops \<Rightarrow> int \<Rightarrow> 'c handle \<Rightarrow> int \<times> c_entry option" where
  "bridge_committed_at ops slot h = (if enter h \<noteq> OK then (enter h, None) else (OK, co_read ops (hd_core h) slot))"

lemma read_decided_at:
  assumes "bridge_read_decided ops from_slot limit h = (OK, d # ds)"
  shows "bridge_committed_at ops from_slot h = (OK, Some (cc_entry d)) \<and> cc_slot d = from_slot"
proof -
  have "read_walk ops c slot n = d # ds \<Longrightarrow> co_read ops c slot = Some (cc_entry d) \<and> cc_slot d = slot" for c slot n
    by (cases n) (auto split: option.splits)
  then show ?thesis using assms
    by (auto simp: bridge_read_decided_def bridge_committed_at_def core_status_def CORE_STATUS_BASE_def Let_def OK_def split: if_splits)
qed

definition replay_apply :: "'c core_ops \<Rightarrow> c_write \<Rightarrow> 'c handle \<Rightarrow> int \<times> 'c handle" where
  "replay_apply ops w h =
     (if enter h \<noteq> OK then (enter h, h)
      else if \<not> hd_replaying h then (E_REPLAY_NOT_ACTIVE, h)
      else if entry_from_c_status (cw_entry w) \<noteq> OK then (entry_from_c_status (cw_entry w), h)
      else if cw_kind w < 1 \<or> 5 < cw_kind w then (E_UNSUPPORTED_KIND, h)
      else case co_replay_fold ops w (hd_core h) of (e, c) \<Rightarrow> (core_status e, h\<lparr>hd_core := c\<rparr>))"

definition replay_restore :: "'c core_ops \<Rightarrow> int \<Rightarrow> 'c handle \<Rightarrow> int \<times> 'c handle" where
  "replay_restore ops through h =
     (if enter h \<noteq> OK then (enter h, h)
      else if \<not> hd_replaying h then (E_REPLAY_NOT_ACTIVE, h)
      else case co_restore ops through (hd_core h) of (e, c) \<Rightarrow>
        (if e \<noteq> 0 then (core_status e, h\<lparr>hd_core := c\<rparr>)
         else (OK, h\<lparr>hd_core := c, hd_replaying := False, hd_effects := no_effects,
                      hd_batch := zero_batch\<rparr>)))"

text \<open>\<^verbatim>\<open>paxodin_replay_abort\<close> replaces the ledger by the given empty one; the handle stays in replay.\<close>

definition replay_abort :: "'c \<Rightarrow> 'c handle \<Rightarrow> int \<times> 'c handle" where
  "replay_abort empty_ledger h =
     (if enter h \<noteq> OK then (enter h, h)
      else if \<not> hd_replaying h then (E_REPLAY_NOT_ACTIVE, h)
      else (OK, h\<lparr>hd_core := empty_ledger\<rparr>))"

text \<open>\<^verbatim>\<open>paxodin_node_close\<close>: the status, the number of abandoned writes, and the dead handle.\<close>

definition node_close :: "'c handle \<Rightarrow> int \<times> nat \<times> 'c handle" where
  "node_close h =
     (if \<not> hd_live h then (OK, 0, h)
      else if hd_busy h then (E_REENTRANT, 0, h)
      else (OK, if bt_phase (hd_batch h) = BP_PENDING then bt_write_count (hd_batch h) else 0,
            h\<lparr>hd_live := False, hd_effects := no_effects\<rparr>))"

text \<open>\<^verbatim>\<open>handle_create\<close> with the next value of the process-wide epoch counter.\<close>

definition handle_create :: "int \<Rightarrow> 'c \<Rightarrow> bool \<Rightarrow> 'c handle" where
  "handle_create epoch c replaying =
     \<lparr>hd_live = True, hd_epoch = epoch, hd_generation = 0, hd_same_process = True,
      hd_poisoned = False, hd_busy = False, hd_replaying = replaying, hd_core = c,
      hd_effects = no_effects, hd_batch = zero_batch, hd_violated = False\<rparr>"

definition config_check :: "c_config \<Rightarrow> int" where
  "config_check cfg =
     (if cf_node_id cfg = 0 \<or> cf_configuration_id cfg = 0 then E_INVALID_ARGUMENT
      else if cf_member_count cfg = 0 \<or> int MAX_MEMBERS < cf_member_count cfg then E_INVALID_ARGUMENT
      else if int MAX_MEMBERS < cf_read_quorum cfg \<or> int MAX_MEMBERS < cf_write_quorum cfg
      then E_INVALID_ARGUMENT
      else if cf_flags cfg div 4 mod 2 = 1 \<or> cf_flags cfg div 8 mod 2 = 1 then E_UNSUPPORTED_CAPABILITY
      else OK)"

text \<open>\<^verbatim>\<open>paxodin_node_open\<close> and \<^verbatim>\<open>paxodin_node_open_for_replay\<close>: the status, the handle, and the epoch
  counter after the call.\<close>

definition node_open :: "'c core_ops \<Rightarrow> c_config \<Rightarrow> int \<Rightarrow> int \<times> 'c handle option \<times> int" where
  "node_open ops cfg epoch =
     (if config_check cfg \<noteq> OK then (config_check cfg, None, epoch)
      else if co_membership ops cfg \<noteq> 0 then (core_status (co_membership ops cfg), None, epoch)
      else case co_init ops cfg of (e, c) \<Rightarrow>
        (if e \<noteq> 0 then (core_status e, None, epoch + 1)
         else (OK, Some (handle_create (epoch + 1) c False), epoch + 1)))"

definition node_open_for_replay :: "'c core_ops \<Rightarrow> c_config \<Rightarrow> int \<Rightarrow> int \<times> 'c handle option \<times> int" where
  "node_open_for_replay ops cfg epoch =
     (if config_check cfg \<noteq> OK then (config_check cfg, None, epoch)
      else if co_membership ops cfg \<noteq> 0 then (core_status (co_membership ops cfg), None, epoch)
      else (OK, Some (handle_create (epoch + 1) (co_ledger ops cfg) True), epoch + 1))"

text \<open>\<^verbatim>\<open>paxodin_node_open_continue_at\<close>, over the core's \<^verbatim>\<open>log_continue_at\<close>: the floor and the trim anchor
  that the configuration before reached.\<close>

definition node_open_continue_at :: "'c core_ops \<Rightarrow> (c_config \<Rightarrow> int \<Rightarrow> int \<Rightarrow> int \<Rightarrow> int \<times> 'c) \<Rightarrow> c_config
    \<Rightarrow> int \<Rightarrow> int \<Rightarrow> int \<Rightarrow> int \<Rightarrow> int \<times> 'c handle option \<times> int" where
  "node_open_continue_at ops log_continue_at cfg through trim_id trim_slot epoch =
     (if config_check cfg \<noteq> OK then (config_check cfg, None, epoch)
      else if co_membership ops cfg \<noteq> 0 then (core_status (co_membership ops cfg), None, epoch)
      else case log_continue_at cfg through trim_id trim_slot of (e, c) \<Rightarrow>
        (if e \<noteq> 0 then (core_status e, None, epoch + 1)
         else (OK, Some (handle_create (epoch + 1) c False), epoch + 1)))"

subsection \<open>The protocol as a state machine\<close>

text \<open>One export call on a handle, with any arguments.\<close>

inductive bridge_step :: "'c core_ops \<Rightarrow> 'c handle \<Rightarrow> 'c handle \<Rightarrow> bool" for ops where
  Begin: "begin_transition ops t h = (st, r, h') \<Longrightarrow> bridge_step ops h h'"
| Copy_Writes: "copy_writes tk off want h = (st, out, h') \<Longrightarrow> bridge_step ops h h'"
| Confirm: "confirm tk h = (st, h') \<Longrightarrow> bridge_step ops h h'"
| Copy_Messages: "copy_messages tk off want h = (st, out, h') \<Longrightarrow> bridge_step ops h h'"
| Finish: "finish tk h = (st, h') \<Longrightarrow> bridge_step ops h h'"
| Floor: "bridge_advance_floor ops through h = (st, h') \<Longrightarrow> bridge_step ops h h'"
| Campaign: "bridge_set_campaign ops b h = (st, h') \<Longrightarrow> bridge_step ops h h'"
| Apply: "replay_apply ops w h = (st, h') \<Longrightarrow> bridge_step ops h h'"
| Restore: "replay_restore ops through h = (st, h') \<Longrightarrow> bridge_step ops h h'"
| Abort: "replay_abort empty_ledger h = (st, h') \<Longrightarrow> bridge_step ops h h'"
| Close: "node_close h = (st, n, h') \<Longrightarrow> bridge_step ops h h'"

inductive bridge_reachable :: "'c core_ops \<Rightarrow> 'c handle \<Rightarrow> bool" for ops where
  Opened: "bridge_reachable ops (handle_create epoch c replaying)"
| Step: "bridge_reachable ops h \<Longrightarrow> bridge_step ops h h' \<Longrightarrow> bridge_reachable ops h'"

text \<open>What the bridge relies on in the core, and what \<^verbatim>\<open>effects.odin\<close> gives: a transition that leaves no
  write leaves the durability gate open.\<close>

definition core_gate :: "'c core_ops \<Rightarrow> bool" where
  "core_gate ops = (\<forall>t c ef e slots c' ef'. co_transition ops t c ef = (e, slots, c', ef') \<longrightarrow>
     \<not> ef_pending ef \<longrightarrow> ef_writes ef' = [] \<longrightarrow> \<not> ef_pending ef')"

definition bridge_inv :: "'c handle \<Rightarrow> bool" where
  "bridge_inv h = (\<not> hd_violated h
     \<and> (bt_phase (hd_batch h) \<noteq> BP_PENDING \<longrightarrow> \<not> ef_pending (hd_effects h))
     \<and> (bt_phase (hd_batch h) = BP_CONFIRMED \<longrightarrow> hd_live h \<longrightarrow>
          bt_write_count (hd_batch h) \<le> bt_writes_copied_through (hd_batch h))
     \<and> (bt_phase (hd_batch h) \<noteq> BP_IDLE \<and> hd_live h \<longrightarrow>
          bt_write_count (hd_batch h) = length (ef_writes (hd_effects h))
          \<and> bt_message_count (hd_batch h) = length (ef_messages (hd_effects h))
          \<and> bt_committed_count (hd_batch h) = length (ef_committed (hd_effects h))
          \<and> bt_request_count (hd_batch h) = length (ef_requests (hd_effects h)))
     \<and> bt_writes_copied_through (hd_batch h) \<le> bt_write_count (hd_batch h)
     \<and> (bt_phase (hd_batch h) \<noteq> BP_IDLE \<longrightarrow> bt_generation (hd_batch h) = hd_generation h)
     \<and> 0 \<le> hd_generation h
     \<and> \<not> hd_busy h \<and> hd_same_process h)"

lemma status_neq [simp]:
  "OK \<noteq> E_HANDLE_CLOSED" "OK \<noteq> E_FOREIGN_TOKEN" "OK \<noteq> E_NO_BATCH" "OK \<noteq> E_STALE_TOKEN"
  "OK \<noteq> E_WRITES_UNCONFIRMED" "OK \<noteq> E_BATCH_FINISHED" "OK \<noteq> E_RANGE" "OK \<noteq> E_REPLAY_ACTIVE"
  "OK \<noteq> E_BATCH_PENDING" "OK \<noteq> E_WRITES_NOT_COPIED" "OK \<noteq> E_REPLAY_NOT_ACTIVE"
  "E_HANDLE_CLOSED \<noteq> OK" "E_FOREIGN_TOKEN \<noteq> OK" "E_NO_BATCH \<noteq> OK" "E_STALE_TOKEN \<noteq> OK"
  "E_WRITES_UNCONFIRMED \<noteq> OK" "E_BATCH_FINISHED \<noteq> OK" "E_RANGE \<noteq> OK" "E_REPLAY_ACTIVE \<noteq> OK"
  "E_BATCH_PENDING \<noteq> OK" "E_WRITES_NOT_COPIED \<noteq> OK" "E_REPLAY_NOT_ACTIVE \<noteq> OK"
  by (simp_all add: status_defs OK_def)

lemma batch_open_cases:
  "batch_open h = (st, h1) \<Longrightarrow> st \<noteq> OK \<and> h1 = h
   \<or> st = OK \<and> bt_phase (hd_batch h) \<in> {BP_IDLE, BP_FINISHED} \<and> \<not> hd_replaying h
     \<and> h1 = h\<lparr>hd_generation := hd_generation h + 1,
               hd_batch := zero_batch\<lparr>bt_generation := hd_generation h + 1, bt_phase := BP_PENDING\<rparr>\<rparr>"
  by (cases "bt_phase (hd_batch h)") (auto simp: batch_open_def split: if_splits)

text \<open>A begin either changes nothing and returns no batch, or runs one transition and returns one.\<close>

lemma begin_cases:
  assumes "begin_transition ops t h = (st, r, h')"
  shows "st \<noteq> OK \<and> r = None \<and> h' = h
   \<or> st = OK \<and> enter h = OK \<and> bt_phase (hd_batch h) \<in> {BP_IDLE, BP_FINISHED}
     \<and> (\<exists>e slots c ef b. co_transition ops t (hd_core h) (hd_effects h) = (e, slots, c, ef)
        \<and> h' = h\<lparr>hd_generation := hd_generation h + 1, hd_core := c, hd_effects := ef,
                 hd_violated := hd_violated h \<or> ef_pending (hd_effects h), hd_batch := b\<rparr>
        \<and> bt_phase b = (if ef_writes ef = [] then BP_CONFIRMED else BP_PENDING)
        \<and> bt_generation b = hd_generation h + 1 \<and> bt_writes_copied_through b = 0
        \<and> bt_write_count b = length (ef_writes ef) \<and> bt_message_count b = length (ef_messages ef)
        \<and> bt_committed_count b = length (ef_committed ef) \<and> bt_request_count b = length (ef_requests ef)
        \<and> bt_protocol_status b = core_status e
        \<and> r = Some (\<lparr>ct_epoch = hd_epoch h, ct_generation = hd_generation h + 1\<rparr>, report_fill h'))"
proof (cases "enter h \<noteq> OK \<or> transition_status t \<noteq> OK")
  case True
  with assms show ?thesis by (auto simp: begin_transition_def split: if_splits)
next
  case False
  obtain so h1 where o: "batch_open h = (so, h1)" by (cases "batch_open h")
  obtain e slots c ef where tr: "co_transition ops t (hd_core h) (hd_effects h) = (e, slots, c, ef)"
    by (metis prod_cases4)
  have na: "bt_phase (note_assigned t slots b) = bt_phase b" "bt_generation (note_assigned t slots b) = bt_generation b"
    "bt_writes_copied_through (note_assigned t slots b) = bt_writes_copied_through b" for b
    by (auto simp: note_assigned_def split: transition.splits list.splits)
  show ?thesis
  proof (cases "so = OK")
    case True
    with batch_open_cases [OF o] have h1: "bt_phase (hd_batch h) \<in> {BP_IDLE, BP_FINISHED}"
      "h1 = h\<lparr>hd_generation := hd_generation h + 1,
               hd_batch := zero_batch\<lparr>bt_generation := hd_generation h + 1, bt_phase := BP_PENDING\<rparr>\<rparr>"
      by auto
    show ?thesis
      using assms False o tr True h1
      by (auto simp: begin_transition_def batch_seal_def Let_def na zero_batch_def split: if_splits)
  next
    case so: False
    with batch_open_cases [OF o] have "h1 = h" by auto
    then show ?thesis using assms False so o by (simp add: begin_transition_def)
  qed
qed

lemma copy_out_OK:
  assumes "copy_out gate avail records t offset want h = (OK, out)"
  shows "enter h = OK \<and> token_check h t = OK \<and> gate h = OK \<and> offset \<le> avail
    \<and> out = take (min want (avail - offset)) (drop offset records)"
  using assms by (auto simp: copy_out_def span_def split: if_splits prod.splits)

lemma copy_writes_cases:
  "copy_writes t offset want h = (st, out, h') \<Longrightarrow> h' = h
   \<or> st = OK \<and> h' = h\<lparr>hd_batch := (hd_batch h)\<lparr>bt_writes_copied_through :=
        max (bt_writes_copied_through (hd_batch h)) (offset + min want (bt_write_count (hd_batch h) - offset))\<rparr>\<rparr>
     \<and> offset \<le> bt_write_count (hd_batch h)"
  by (auto simp: copy_writes_def span_def dest!: copy_out_OK split: prod.splits if_splits)

lemma confirm_cases:
  "confirm t h = (st, h') \<Longrightarrow> h' = h
   \<or> st = OK \<and> bt_phase (hd_batch h) = BP_PENDING
     \<and> bt_write_count (hd_batch h) \<le> bt_writes_copied_through (hd_batch h)
     \<and> h' = h\<lparr>hd_effects := (hd_effects h)\<lparr>ef_pending := False\<rparr>,
              hd_batch := (hd_batch h)\<lparr>bt_phase := BP_CONFIRMED\<rparr>\<rparr>"
  by (cases "bt_phase (hd_batch h)") (auto simp: confirm_def token_check_def split: if_splits)

lemma finish_cases:
  "finish t h = (st, h') \<Longrightarrow> h' = h
   \<or> st = OK \<and> bt_phase (hd_batch h) = BP_CONFIRMED
     \<and> h' = h\<lparr>hd_batch := (hd_batch h)\<lparr>bt_phase := BP_FINISHED\<rparr>\<rparr>"
  by (cases "bt_phase (hd_batch h)") (auto simp: finish_def token_check_def split: if_splits)

lemma copy_messages_cases:
  "copy_messages t offset want h = (st, out, h') \<Longrightarrow> st \<noteq> OK \<and> h' = h
   \<or> st = OK \<and> output_gate h = OK \<and> token_check h t = OK \<and> h' = h\<lparr>hd_violated := hd_violated h \<or> ef_pending (hd_effects h)\<rparr>"
  by (auto simp: copy_messages_def dest!: copy_out_OK split: prod.splits if_splits)

lemma output_gate_OK: "output_gate h = OK \<longleftrightarrow> bt_phase (hd_batch h) \<in> {BP_IDLE, BP_CONFIRMED}"
  by (cases "bt_phase (hd_batch h)") (auto simp: output_gate_def)

lemma bridge_inv_created [simp]: "bridge_inv (handle_create epoch c replaying)"
  by (simp add: bridge_inv_def handle_create_def no_effects_def zero_batch_def)

lemma bridge_inv_copied:
  assumes "bridge_inv h" and "bt_writes_copied_through (hd_batch h) \<le> n" and "n \<le> bt_write_count (hd_batch h)"
  shows "bridge_inv (h\<lparr>hd_batch := (hd_batch h)\<lparr>bt_writes_copied_through := n\<rparr>\<rparr>)"
  using assms unfolding bridge_inv_def by (elim conjE, intro conjI impI) simp_all

lemma bridge_inv_core: "bridge_inv h \<Longrightarrow> bridge_inv (h\<lparr>hd_core := c\<rparr>)"
  unfolding bridge_inv_def by (elim conjE, intro conjI impI) simp_all

lemma bridge_inv_confirmed:
  assumes "bridge_inv h" and "bt_phase (hd_batch h) = BP_PENDING"
    and "bt_write_count (hd_batch h) \<le> bt_writes_copied_through (hd_batch h)"
  shows "bridge_inv (h\<lparr>hd_effects := (hd_effects h)\<lparr>ef_pending := False\<rparr>,
              hd_batch := (hd_batch h)\<lparr>bt_phase := BP_CONFIRMED\<rparr>\<rparr>)"
  using assms unfolding bridge_inv_def by (elim conjE, intro conjI impI) simp_all

lemma bridge_inv_finished:
  assumes "bridge_inv h" and "bt_phase (hd_batch h) = BP_CONFIRMED"
  shows "bridge_inv (h\<lparr>hd_batch := (hd_batch h)\<lparr>bt_phase := BP_FINISHED\<rparr>\<rparr>)"
  using assms unfolding bridge_inv_def by (elim conjE, intro conjI impI) simp_all

lemma bridge_inv_read:
  assumes "bridge_inv h" and "output_gate h = OK"
  shows "bridge_inv (h\<lparr>hd_violated := hd_violated h \<or> ef_pending (hd_effects h)\<rparr>)"
proof -
  have "\<not> ef_pending (hd_effects h)" using assms by (auto simp: bridge_inv_def output_gate_OK)
  then show ?thesis using assms(1) unfolding bridge_inv_def by (elim conjE, intro conjI impI) simp_all
qed

lemma bridge_inv_restored:
  "bridge_inv h \<Longrightarrow> bridge_inv (h\<lparr>hd_core := c, hd_replaying := False, hd_effects := no_effects,
    hd_batch := zero_batch\<rparr>)"
  unfolding bridge_inv_def by (simp add: no_effects_def zero_batch_def)

lemma bridge_inv_closed: "bridge_inv h \<Longrightarrow> bridge_inv (h\<lparr>hd_live := False, hd_effects := no_effects\<rparr>)"
  unfolding bridge_inv_def by (simp add: no_effects_def)

lemma bridge_inv_step:
  assumes g: "core_gate ops" and "bridge_step ops h h'" and inv: "bridge_inv h"
  shows "bridge_inv h'"
  using assms(2)
proof cases
  case (Begin t st r)
  from begin_cases [OF Begin] show ?thesis
  proof (elim disjE conjE exE)
    assume "h' = h"
    with inv show ?thesis by simp
  next
    fix e slots c ef b
    assume tr: "co_transition ops t (hd_core h) (hd_effects h) = (e, slots, c, ef)"
      and h': "h' = h\<lparr>hd_generation := hd_generation h + 1, hd_core := c, hd_effects := ef,
                 hd_violated := hd_violated h \<or> ef_pending (hd_effects h), hd_batch := b\<rparr>"
      and b: "bt_phase b = (if ef_writes ef = [] then BP_CONFIRMED else BP_PENDING)"
        "bt_generation b = hd_generation h + 1" "bt_writes_copied_through b = 0"
        "bt_write_count b = length (ef_writes ef)" "bt_message_count b = length (ef_messages ef)"
        "bt_committed_count b = length (ef_committed ef)" "bt_request_count b = length (ef_requests ef)"
      and ph: "bt_phase (hd_batch h) \<in> {BP_IDLE, BP_FINISHED}"
    have np: "\<not> ef_pending (hd_effects h)" using inv ph by (auto simp: bridge_inv_def)
    have gate: "\<not> ef_pending ef" if "ef_writes ef = []"
      using g tr np that unfolding core_gate_def by blast
    have i: "\<not> hd_violated h" "\<not> hd_busy h" "hd_same_process h" "0 \<le> hd_generation h"
      using inv unfolding bridge_inv_def by blast+
    show ?thesis
    proof (cases "ef_writes ef = []")
      case True
      then show ?thesis using gate i np by (simp add: h' b bridge_inv_def)
    next
      case False
      then show ?thesis using i np by (simp add: h' b bridge_inv_def)
    qed
  qed
next
  case (Copy_Writes tk off want st out)
  from copy_writes_cases [OF this] show ?thesis
  proof
    assume "h' = h"
    with inv show ?thesis by simp
  next
    let ?n = "max (bt_writes_copied_through (hd_batch h)) (off + min want (bt_write_count (hd_batch h) - off))"
    assume a: "st = OK \<and> h' = h\<lparr>hd_batch := (hd_batch h)\<lparr>bt_writes_copied_through := ?n\<rparr>\<rparr>
      \<and> off \<le> bt_write_count (hd_batch h)"
    have "bt_writes_copied_through (hd_batch h) \<le> bt_write_count (hd_batch h)"
      using inv unfolding bridge_inv_def by blast
    then have "?n \<le> bt_write_count (hd_batch h)" using a by (auto simp: min_def)
    then show ?thesis using bridge_inv_copied [OF inv, of ?n] a by simp
  qed
next
  case (Confirm tk st)
  then show ?thesis using confirm_cases inv bridge_inv_confirmed by blast
next
  case (Copy_Messages tk off want st out)
  then show ?thesis using copy_messages_cases inv bridge_inv_read by blast
next
  case (Finish tk st)
  then show ?thesis using finish_cases inv bridge_inv_finished by blast
next
  case (Floor through st)
  then show ?thesis using inv
    by (auto simp: bridge_advance_floor_def bridge_inv_core split: if_splits prod.splits)
next
  case (Campaign b st)
  then show ?thesis using inv by (auto simp: bridge_set_campaign_def bridge_inv_core split: if_splits)
next
  case (Apply w st)
  then show ?thesis using inv by (auto simp: replay_apply_def bridge_inv_core split: if_splits prod.splits)
next
  case (Abort empty_ledger st)
  then show ?thesis using inv by (auto simp: replay_abort_def bridge_inv_core split: if_splits)
next
  case (Restore through st)
  then show ?thesis using inv
    by (auto simp: replay_restore_def bridge_inv_core bridge_inv_restored split: if_splits prod.splits)
next
  case (Close st n)
  then show ?thesis using inv by (auto simp: node_close_def bridge_inv_closed split: if_splits)
qed

lemma bridge_inv_reachable: "bridge_reachable ops h \<Longrightarrow> core_gate ops \<Longrightarrow> bridge_inv h"
  by (induction rule: bridge_reachable.induct) (simp_all add: bridge_inv_step)

subsection \<open>What the protocol guarantees\<close>

lemma copy_out_gate:
  "fst (copy_out gate avail records t offset want h) = OK \<Longrightarrow> gate h = OK \<and> token_check h t = OK \<and> enter h = OK"
  by (auto simp: copy_out_def split: if_splits prod.splits)

text \<open>What the host was given, beside the handle: \<open>wt_received\<close> is the record it received at each position
  of the current batch, \<open>wt_in_order\<close> that none of its reads of the records began past the ones read
  before, \<open>wt_confirmed\<close> that it confirmed the batch. A begun transition resets the three.\<close>

record 'c watched =
  wt_handle :: "'c handle"
  wt_received :: "nat \<Rightarrow> c_write option"
  wt_in_order :: bool
  wt_confirmed :: bool

datatype 'c export =
  X_Begin transition | X_Copy_Writes c_token nat nat | X_Confirm c_token | X_Copy_Messages c_token nat nat
| X_Finish c_token | X_Floor int | X_Campaign bool | X_Apply c_write | X_Restore int | X_Abort 'c | X_Close

fun export_step :: "'c core_ops \<Rightarrow> 'c export \<Rightarrow> 'c handle \<Rightarrow> int \<times> c_write list \<times> 'c handle" where
  "export_step ops (X_Begin t) h = (case begin_transition ops t h of (st, _, h') \<Rightarrow> (st, [], h'))"
| "export_step ops (X_Copy_Writes tk off want) h = copy_writes tk off want h"
| "export_step ops (X_Confirm tk) h = (case confirm tk h of (st, h') \<Rightarrow> (st, [], h'))"
| "export_step ops (X_Copy_Messages tk off want) h = (case copy_messages tk off want h of (st, _, h') \<Rightarrow> (st, [], h'))"
| "export_step ops (X_Finish tk) h = (case finish tk h of (st, h') \<Rightarrow> (st, [], h'))"
| "export_step ops (X_Floor through) h = (case bridge_advance_floor ops through h of (st, h') \<Rightarrow> (st, [], h'))"
| "export_step ops (X_Campaign b) h = (case bridge_set_campaign ops b h of (st, h') \<Rightarrow> (st, [], h'))"
| "export_step ops (X_Apply r) h = (case replay_apply ops r h of (st, h') \<Rightarrow> (st, [], h'))"
| "export_step ops (X_Restore through) h = (case replay_restore ops through h of (st, h') \<Rightarrow> (st, [], h'))"
| "export_step ops (X_Abort empty_ledger) h = (case replay_abort empty_ledger h of (st, h') \<Rightarrow> (st, [], h'))"
| "export_step ops X_Close h = (case node_close h of (st, _, h') \<Rightarrow> (st, [], h'))"

fun watch :: "'c core_ops \<Rightarrow> 'c export \<Rightarrow> 'c watched \<Rightarrow> 'c watched" where
  "watch ops x w =
     (case export_step ops x (wt_handle w) of (st, out, h') \<Rightarrow>
        (if st \<noteq> OK then w\<lparr>wt_handle := h'\<rparr>
         else case x of
           X_Begin t \<Rightarrow> \<lparr>wt_handle = h', wt_received = (\<lambda>_. None), wt_in_order = True, wt_confirmed = False\<rparr>
         | X_Copy_Writes tk off want \<Rightarrow>
             w\<lparr>wt_handle := h',
               wt_received := (\<lambda>i. if off \<le> i \<and> i < off + length out then Some (out ! (i - off)) else wt_received w i),
               wt_in_order := (wt_in_order w \<and> off \<le> bt_writes_copied_through (hd_batch (wt_handle w)))\<rparr>
         | X_Confirm tk \<Rightarrow> w\<lparr>wt_handle := h', wt_confirmed := True\<rparr>
         | _ \<Rightarrow> w\<lparr>wt_handle := h'\<rparr>))"

definition watch_open :: "int \<Rightarrow> 'c \<Rightarrow> bool \<Rightarrow> 'c watched" where
  "watch_open epoch c replaying =
     \<lparr>wt_handle = handle_create epoch c replaying, wt_received = (\<lambda>_. None), wt_in_order = True, wt_confirmed = False\<rparr>"

lemma export_is_step: "export_step ops x h = (st, out, h') \<Longrightarrow> bridge_step ops h h'"
  by (cases x) (auto intro: bridge_step.intros split: prod.splits)

lemma wt_handle_watch: "wt_handle (watch ops x w) = snd (snd (export_step ops x (wt_handle w)))"
  by (auto split: prod.splits export.splits)

text \<open>What was received is what the batch holds there; if it was read in order, all of it up to the mark;
  and a batch with records is past its pending phase only if it was confirmed.\<close>

definition watched_inv :: "'c watched \<Rightarrow> bool" where
  "watched_inv w =
     (bridge_inv (wt_handle w) \<and>
      (hd_live (wt_handle w) \<and> bt_phase (hd_batch (wt_handle w)) \<noteq> BP_IDLE \<longrightarrow>
        (\<forall>i r. wt_received w i = Some r \<longrightarrow>
           i < length (ef_writes (hd_effects (wt_handle w))) \<and> r = ef_writes (hd_effects (wt_handle w)) ! i)
        \<and> (wt_in_order w \<longrightarrow> (\<forall>i < bt_writes_copied_through (hd_batch (wt_handle w)). wt_received w i \<noteq> None))
        \<and> (bt_phase (hd_batch (wt_handle w)) \<noteq> BP_PENDING \<longrightarrow>
             ef_writes (hd_effects (wt_handle w)) = [] \<or> wt_confirmed w)))"

text \<open>The calls other than \<^verbatim>\<open>begin\<close>, \<^verbatim>\<open>copy_writes\<close> and \<^verbatim>\<open>confirm\<close> leave the batch or put it away.\<close>

lemma other_calls_keep_batch:
  assumes "export_step ops x h = (st, out, h')" and "\<And>t. x \<noteq> X_Begin t"
    and "\<And>tk off want. x \<noteq> X_Copy_Writes tk off want" and "\<And>tk. x \<noteq> X_Confirm tk"
  shows "\<not> hd_live h' \<or> bt_phase (hd_batch h') = BP_IDLE
    \<or> hd_live h \<and> bt_phase (hd_batch h) \<noteq> BP_IDLE \<and> ef_writes (hd_effects h') = ef_writes (hd_effects h)
      \<and> bt_writes_copied_through (hd_batch h') = bt_writes_copied_through (hd_batch h)
      \<and> (bt_phase (hd_batch h) = BP_PENDING \<longrightarrow> bt_phase (hd_batch h') = BP_PENDING)"
proof (cases x)
  case (X_Finish tk)
  then obtain st where "finish tk h = (st, h')" using assms(1) by (auto split: prod.splits)
  from finish_cases [OF this] show ?thesis by auto
next
  case (X_Copy_Messages tk off want)
  then obtain st out where "copy_messages tk off want h = (st, out, h')" using assms(1) by (auto split: prod.splits)
  from copy_messages_cases [OF this] show ?thesis by auto
qed (use assms in \<open>auto simp: bridge_advance_floor_def bridge_set_campaign_def replay_apply_def
      replay_restore_def replay_abort_def node_close_def zero_batch_def split: if_splits prod.splits\<close>)

lemma watched_inv_other:
  assumes "watched_inv w" and "bridge_inv h'"
    and "\<not> hd_live h' \<or> bt_phase (hd_batch h') = BP_IDLE
    \<or> hd_live (wt_handle w) \<and> bt_phase (hd_batch (wt_handle w)) \<noteq> BP_IDLE
      \<and> ef_writes (hd_effects h') = ef_writes (hd_effects (wt_handle w))
      \<and> bt_writes_copied_through (hd_batch h') = bt_writes_copied_through (hd_batch (wt_handle w))
      \<and> (bt_phase (hd_batch (wt_handle w)) = BP_PENDING \<longrightarrow> bt_phase (hd_batch h') = BP_PENDING)"
  shows "watched_inv (w\<lparr>wt_handle := h'\<rparr>)"
  using assms unfolding watched_inv_def by auto

lemma watched_inv_same: "watched_inv w \<Longrightarrow> watched_inv (w\<lparr>wt_handle := wt_handle w\<rparr>)"
  by simp

lemma watched_inv_step:
  assumes g: "core_gate ops" and inv: "watched_inv w"
  shows "watched_inv (watch ops x w)"
proof -
  obtain st out h' where x: "export_step ops x (wt_handle w) = (st, out, h')" by (metis prod_cases3)
  let ?h = "wt_handle w"
  have b: "bridge_inv ?h" using inv unfolding watched_inv_def by blast
  have b': "bridge_inv h'" by (rule bridge_inv_step [OF g export_is_step [OF x] b])
  show ?thesis
  proof (cases x)
    case (X_Begin t)
    then obtain r where r: "begin_transition ops t ?h = (st, r, h')" using x by (auto split: prod.splits)
    from begin_cases [OF r] show ?thesis
    proof (elim disjE conjE)
      assume "st \<noteq> OK" "h' = ?h"
      then show ?thesis using x inv by simp
    next
      assume ok: "st = OK" and ex: "\<exists>e slots c ef b. co_transition ops t (hd_core ?h) (hd_effects ?h) = (e, slots, c, ef)
        \<and> h' = ?h\<lparr>hd_generation := hd_generation ?h + 1, hd_core := c, hd_effects := ef,
                 hd_violated := hd_violated ?h \<or> ef_pending (hd_effects ?h), hd_batch := b\<rparr>
        \<and> bt_phase b = (if ef_writes ef = [] then BP_CONFIRMED else BP_PENDING)
        \<and> bt_generation b = hd_generation ?h + 1 \<and> bt_writes_copied_through b = 0
        \<and> bt_write_count b = length (ef_writes ef) \<and> bt_message_count b = length (ef_messages ef)
        \<and> bt_committed_count b = length (ef_committed ef) \<and> bt_request_count b = length (ef_requests ef)
        \<and> bt_protocol_status b = core_status e
        \<and> r = Some (\<lparr>ct_epoch = hd_epoch ?h, ct_generation = hd_generation ?h + 1\<rparr>, report_fill h')"
      then have "bt_writes_copied_through (hd_batch h') = 0
          \<and> bt_phase (hd_batch h') = (if ef_writes (hd_effects h') = [] then BP_CONFIRMED else BP_PENDING)" by auto
      then show ?thesis using x b' ok X_Begin by (auto simp: watched_inv_def)
    qed
  next
    case (X_Copy_Writes tk off want)
    show ?thesis
    proof (cases "st = OK")
      case False
      then have "h' = ?h" using x copy_writes_cases [of tk off want ?h] X_Copy_Writes by auto
      then show ?thesis using x inv False by simp
    next
      case ok: True
      obtain co where co: "copy_out finished_gate (bt_write_count (hd_batch ?h)) (ef_writes (hd_effects ?h)) tk off want ?h = (OK, co)"
        and out: "out = co" and h': "h' = ?h\<lparr>hd_batch := (hd_batch ?h)\<lparr>bt_writes_copied_through :=
           max (bt_writes_copied_through (hd_batch ?h)) (off + fst (span (bt_write_count (hd_batch ?h)) off want))\<rparr>\<rparr>"
        using x ok X_Copy_Writes by (auto simp: copy_writes_def split: prod.splits if_splits)
      from copy_out_OK [OF co] have c: "enter ?h = OK" "token_check ?h tk = OK" "off \<le> bt_write_count (hd_batch ?h)"
        "co = take (min want (bt_write_count (hd_batch ?h) - off)) (drop off (ef_writes (hd_effects ?h)))" by auto
      have live: "hd_live ?h" "bt_phase (hd_batch ?h) \<noteq> BP_IDLE"
        using c(1,2) by (auto simp: enter_def token_check_def split: if_splits)
      then have n: "bt_write_count (hd_batch ?h) = length (ef_writes (hd_effects ?h))"
        using b unfolding bridge_inv_def by blast
      have len: "length out = min want (bt_write_count (hd_batch ?h) - off)" using c(4) n out by simp
      have mark: "bt_writes_copied_through (hd_batch h') = max (bt_writes_copied_through (hd_batch ?h)) (off + length out)"
        using c(3) by (simp add: h' len span_def)
      have at: "out ! (i - off) = ef_writes (hd_effects ?h) ! i \<and> i < length (ef_writes (hd_effects ?h))"
        if "off \<le> i" "i < off + length out" for i
      proof -
        have lt: "i - off < min want (bt_write_count (hd_batch ?h) - off)" using that len by linarith
        then have "i < length (ef_writes (hd_effects ?h))" using that(1) n by linarith
        then show ?thesis using lt that(1) n by (simp add: c(4) out)
      qed
      show ?thesis using inv live at x b' ok X_Copy_Writes mark
        unfolding watched_inv_def by (auto simp: h' split: if_splits)
    qed
  next
    case (X_Confirm tk)
    then have r: "confirm tk ?h = (st, h')" using x by (auto split: prod.splits)
    show ?thesis
    proof (cases "st = OK")
      case True
      from confirm_cases [OF r] have "ef_writes (hd_effects h') = ef_writes (hd_effects ?h)
        \<and> bt_writes_copied_through (hd_batch h') = bt_writes_copied_through (hd_batch ?h)
        \<and> hd_live h' = hd_live ?h \<and> (bt_phase (hd_batch h') \<noteq> BP_IDLE \<longrightarrow> bt_phase (hd_batch ?h) \<noteq> BP_IDLE)"
        by auto
      then show ?thesis using inv x b' True X_Confirm unfolding watched_inv_def by auto
    next
      case False
      then have "h' = ?h" using confirm_cases [OF r] by blast
      then show ?thesis using x inv False by simp
    qed
  qed (use watched_inv_other [OF inv b' other_calls_keep_batch [OF x]] x in \<open>auto\<close>)
qed

lemma watched_inv_run: "core_gate ops \<Longrightarrow> watched_inv w \<Longrightarrow> watched_inv (fold (watch ops) calls w)"
  by (induction calls arbitrary: w) (simp_all add: watched_inv_step del: watch.simps)

lemma watched_inv_open: "watched_inv (watch_open epoch c replaying)"
  by (simp add: watched_inv_def watch_open_def) (simp add: handle_create_def zero_batch_def)


text \<open>A refused transition is no transition: when a \<^verbatim>\<open>begin\<close> returns a non-zero status the handle is
  exactly what it was and there is no token; in particular one is refused with \<^verbatim>\<open>BATCH_PENDING\<close> while a
  batch is neither idle nor finished, so no batch is ever overwritten before it is discharged.\<close>

lemma begin_refused_or_fresh:
  assumes "begin_transition ops t h = (st, r, h')"
  shows "(st \<noteq> OK \<longrightarrow> r = None \<and> h' = h)
    \<and> (st = OK \<longrightarrow> bt_phase (hd_batch h) \<in> {BP_IDLE, BP_FINISHED} \<and> \<not> hd_replaying h
         \<and> (\<exists>report. r = Some (\<lparr>ct_epoch = hd_epoch h, ct_generation = hd_generation h + 1\<rparr>, report)
              \<and> cp_write_count report = length (ef_writes (hd_effects h'))
              \<and> cp_phase report = (if ef_writes (hd_effects h') = [] then 2 else 1)))
    \<and> (enter h = OK \<and> transition_status t = OK \<and> \<not> hd_replaying h
         \<and> bt_phase (hd_batch h) \<in> {BP_PENDING, BP_CONFIRMED} \<longrightarrow> st = E_BATCH_PENDING)"
proof -
  have "hd_replaying h \<Longrightarrow> st \<noteq> OK"
    using assms by (auto simp: begin_transition_def batch_open_def split: if_splits)
  moreover have "enter h = OK \<and> transition_status t = OK \<and> \<not> hd_replaying h
         \<and> bt_phase (hd_batch h) \<in> {BP_PENDING, BP_CONFIRMED} \<Longrightarrow> st = E_BATCH_PENDING"
    using assms by (auto simp: begin_transition_def batch_open_def)
  moreover note begin_cases [OF assms]
  ultimately show ?thesis by (elim disjE conjE exE) (auto simp: report_fill_def)
qed

text \<open>Tokens are never interchangeable. A token of another handle or of an earlier close, or one of
  another generation of this handle, is refused by every call that takes one, with
  \<^verbatim>\<open>FOREIGN_TOKEN\<close>, \<^verbatim>\<open>STALE_TOKEN\<close> or \<^verbatim>\<open>NO_BATCH\<close>, and nothing changes.\<close>

lemma wrong_token_changes_nothing:
  assumes "enter h = OK" and "ct_epoch t \<noteq> hd_epoch h \<or> ct_generation t \<noteq> bt_generation (hd_batch h)"
  shows "token_check h t \<in> {E_FOREIGN_TOKEN, E_NO_BATCH, E_STALE_TOKEN}
    \<and> confirm t h = (token_check h t, h) \<and> finish t h = (token_check h t, h)
    \<and> copy_writes t offset want h = (token_check h t, [], h)
    \<and> copy_messages t offset want h = (token_check h t, [], h)
    \<and> copy_committed t offset want h = (token_check h t, [])
    \<and> copy_requests t offset want h = (token_check h t, [])
    \<and> copy_assigned_slots t offset want h = (token_check h t, []) \<and> batch_report t h = (token_check h t, None)"
proof -
  have c: "token_check h t \<in> {E_FOREIGN_TOKEN, E_NO_BATCH, E_STALE_TOKEN}"
    using assms(2) by (auto simp: token_check_def)
  then have "token_check h t \<noteq> OK" by auto
  with c assms(1) show ?thesis
    by (simp add: confirm_def finish_def copy_writes_def copy_messages_def copy_committed_def
        copy_requests_def copy_assigned_slots_def batch_report_def copy_out_def)
qed

text \<open>Generations only grow, and a batch never outlives its generation.\<close>

lemma generation_step:
  assumes "bridge_step ops h h'"
  shows "hd_epoch h' = hd_epoch h \<and> hd_generation h \<le> hd_generation h'"
  using assms
proof cases
  case (Begin t st r)
  from begin_cases [OF Begin] show ?thesis by (elim disjE conjE exE) auto
next
  case (Copy_Writes tk off want st out)
  from copy_writes_cases [OF this] show ?thesis by auto
next
  case (Confirm tk st)
  from confirm_cases [OF this] show ?thesis by auto
next
  case (Copy_Messages tk off want st out)
  from copy_messages_cases [OF this] show ?thesis by auto
next
  case (Finish tk st)
  from finish_cases [OF this] show ?thesis by auto
qed (auto simp: bridge_advance_floor_def bridge_set_campaign_def replay_apply_def replay_restore_def
      replay_abort_def node_close_def split: if_splits prod.splits)

lemma generation_steps: "(bridge_step ops)\<^sup>*\<^sup>* h h' \<Longrightarrow>
    hd_epoch h' = hd_epoch h \<and> hd_generation h \<le> hd_generation h'"
  by (induction rule: rtranclp_induct) (use generation_step in \<open>force+\<close>)

lemma reachable_steps: "(bridge_step ops)\<^sup>*\<^sup>* h h' \<Longrightarrow> bridge_reachable ops h \<Longrightarrow> bridge_reachable ops h'"
  by (induction rule: rtranclp_induct) (auto intro: bridge_reachable.Step)

text \<open>A superseded batch stays superseded: once a later transition has begun, the token of an earlier
  one is refused for the rest of the handle's life, whatever else happens in between and afterwards.\<close>

lemma superseded_token_never_valid:
  assumes "core_gate ops" and "bridge_reachable ops h"
    and "begin_transition ops t h = (OK, Some (token, report), h1)" and "(bridge_step ops)\<^sup>*\<^sup>* h1 h2"
    and "begin_transition ops t2 h2 = (OK, Some (token2, report2), h3)" and "(bridge_step ops)\<^sup>*\<^sup>* h3 h4"
  shows "token_check h4 token \<noteq> OK"
proof -
  have g: "ct_generation token = hd_generation h1"
    using begin_cases [OF assms(3)] by auto
  have g2: "hd_generation h3 = hd_generation h2 + 1" using begin_cases [OF assms(5)] by auto
  have less: "ct_generation token < hd_generation h4"
    using generation_steps [OF assms(4)] generation_steps [OF assms(6)] g g2 by linarith
  have "bridge_reachable ops h4"
    using assms(2) by (metis Begin Step assms(3-6) reachable_steps)
  then have "bridge_inv h4" using bridge_inv_reachable assms(1) by blast
  then have "bt_phase (hd_batch h4) \<noteq> BP_IDLE \<Longrightarrow> bt_generation (hd_batch h4) = hd_generation h4"
    unfolding bridge_inv_def by blast
  with less show ?thesis by (auto simp: token_check_def)
qed

subsection \<open>A small core, for the witnesses\<close>

text \<open>A core whose every transition writes one promise and sends one envelope, and releases nothing.\<close>

definition sample_write :: c_write where
  "sample_write = \<lparr>cw_kind = 1, cw_flags = 1, cw_ballot = 65537, cw_slot = 0, cw_trim_id = 0,
     cw_trim_slot = 0, cw_entry = zero_entry\<rparr>"

definition sample_wire :: c_envelope where
  "sample_wire = \<lparr>cv_configuration_id = 1, cv_ballot = 65537, cv_slot = 0, cv_vote = 0, cv_first = 1,
     cv_last = 64, cv_rejected = 0, cv_promised = 0, cv_decided_through = 0, cv_trim_id = 0,
     cv_trim_slot = 0, cv_kind = 1, cv_count = 0, cv_sender = 1, cv_recipient = 2, cv_scope = 0,
     cv_cell_state = 0, cv_more = 0, cv_entry = zero_entry\<rparr>"

definition sample_core :: "unit core_ops" where
  "sample_core = \<lparr>co_transition = (\<lambda>t c ef. (0, [], c, \<lparr>ef_writes = [sample_write],
       ef_messages = [sample_wire], ef_committed = [], ef_requests = [], ef_pending = True\<rparr>)),
     co_advance_floor = (\<lambda>through c. (0, c)), co_set_campaign = (\<lambda>b c. c),
     co_decided_through = (\<lambda>c. 0), co_memory_floor = (\<lambda>c. 0), co_read = (\<lambda>c s. None),
     co_state = (\<lambda>c. \<lparr>cst_configuration_id = 1, cst_ballot = 0, cst_decided_through = 0,
        cst_memory_floor = 0, cst_leader_base = 0, cst_frontier = 0, cst_stop_slot = 0,
        cst_trim_id = 0, cst_trim_slot = 0, cst_node_id = 1, cst_leader = 0, cst_has_leader = 0,
        cst_role = 0, cst_sealed = 0, cst_voting_member = 1, cst_campaign_enabled = 1,
        cst_leader_caught_up = 0, cst_resubmits_dropped = 0\<rparr>),
     co_membership = (\<lambda>cfg. 0), co_init = (\<lambda>cfg. (0, ())), co_ledger = (\<lambda>cfg. ()),
     co_replay_fold = (\<lambda>w c. (0, c)), co_restore = (\<lambda>f c. (0, c))\<rparr>"

lemma sample_core_gate: "core_gate sample_core"
  by (simp add: core_gate_def sample_core_def)

definition sample_handle :: "unit handle" where "sample_handle = handle_create 7 () False"

definition sample_token :: c_token where "sample_token = \<lparr>ct_epoch = 7, ct_generation = 1\<rparr>"

definition sample_begun :: "unit handle" where
  "sample_begun = snd (snd (begin_transition sample_core T_Tick sample_handle))"

definition sample_copied :: "unit handle" where
  "sample_copied = snd (snd (copy_writes sample_token 0 64 sample_begun))"

definition sample_confirmed :: "unit handle" where
  "sample_confirmed = snd (confirm sample_token sample_copied)"

definition sample_finished :: "unit handle" where
  "sample_finished = snd (finish sample_token sample_confirmed)"

definition sample_effects :: effects where
  "sample_effects = \<lparr>ef_writes = [sample_write], ef_messages = [sample_wire], ef_committed = [],
     ef_requests = [], ef_pending = True\<rparr>"

definition sample_batch :: "batch_phase \<Rightarrow> nat \<Rightarrow> batch" where
  "sample_batch phase copied = \<lparr>bt_phase = phase, bt_requires_barrier = True, bt_generation = 1,
     bt_protocol_status = 0, bt_write_count = 1, bt_writes_copied_through = copied,
     bt_message_count = 1, bt_committed_count = 0, bt_request_count = 0, bt_assigned_slot = 0,
     bt_assigned = []\<rparr>"

lemma sample_states:
  "sample_begun = sample_handle\<lparr>hd_generation := 1, hd_effects := sample_effects, hd_batch := sample_batch BP_PENDING 0\<rparr>"
  "sample_copied = sample_handle\<lparr>hd_generation := 1, hd_effects := sample_effects, hd_batch := sample_batch BP_PENDING 1\<rparr>"
  "sample_confirmed = sample_handle\<lparr>hd_generation := 1, hd_effects := sample_effects\<lparr>ef_pending := False\<rparr>,
      hd_batch := sample_batch BP_CONFIRMED 1\<rparr>"
  "sample_finished = sample_handle\<lparr>hd_generation := 1, hd_effects := sample_effects\<lparr>ef_pending := False\<rparr>,
      hd_batch := sample_batch BP_FINISHED 1\<rparr>"
proof -
  show b: "sample_begun = sample_handle\<lparr>hd_generation := 1, hd_effects := sample_effects, hd_batch := sample_batch BP_PENDING 0\<rparr>"
    by (simp add: sample_begun_def begin_transition_def sample_handle_def handle_create_def enter_def
        batch_open_def zero_batch_def batch_seal_def Let_def note_assigned_def sample_core_def
        core_status_def requires_power_loss_barrier_def sample_write_def sample_effects_def
        sample_batch_def no_effects_def)
  show c: "sample_copied = sample_handle\<lparr>hd_generation := 1, hd_effects := sample_effects, hd_batch := sample_batch BP_PENDING 1\<rparr>"
    by (simp add: sample_copied_def b copy_writes_def copy_out_def enter_def sample_handle_def
        handle_create_def token_check_def sample_token_def sample_batch_def finished_gate_def span_def)
  show d: "sample_confirmed = sample_handle\<lparr>hd_generation := 1, hd_effects := sample_effects\<lparr>ef_pending := False\<rparr>,
      hd_batch := sample_batch BP_CONFIRMED 1\<rparr>"
    by (simp add: sample_confirmed_def c confirm_def enter_def sample_handle_def
        handle_create_def token_check_def sample_token_def sample_batch_def)
  show "sample_finished = sample_handle\<lparr>hd_generation := 1, hd_effects := sample_effects\<lparr>ef_pending := False\<rparr>,
      hd_batch := sample_batch BP_FINISHED 1\<rparr>"
    by (simp add: sample_finished_def d finish_def enter_def sample_handle_def
        handle_create_def token_check_def sample_token_def sample_batch_def)
qed

lemmas sample_eval = sample_states sample_handle_def handle_create_def sample_batch_def sample_effects_def
  sample_token_def enter_def token_check_def copy_out_def output_gate_def span_def

lemma sample_begin:
  "\<exists>report. begin_transition sample_core T_Tick sample_handle = (OK, Some (sample_token, report), sample_begun)"
  by (simp add: sample_begun_def begin_transition_def sample_handle_def handle_create_def enter_def
      batch_open_def zero_batch_def batch_seal_def Let_def note_assigned_def sample_core_def sample_token_def)

lemma sample_path:
  "bridge_step sample_core sample_handle sample_begun" "bridge_step sample_core sample_begun sample_copied"
  "bridge_step sample_core sample_copied sample_confirmed" "bridge_step sample_core sample_confirmed sample_finished"
  by (rule bridge_step.intros, simp add: sample_begun_def sample_copied_def sample_confirmed_def
      sample_finished_def prod_eq_iff)+

lemma sample_reachable_states:
  "bridge_reachable sample_core sample_handle" "bridge_reachable sample_core sample_confirmed"
  "bridge_reachable sample_core sample_finished"
proof -
  show 0: "bridge_reachable sample_core sample_handle"
    unfolding sample_handle_def by (rule Opened)
  show c: "bridge_reachable sample_core sample_confirmed"
    by (rule Step [OF Step [OF Step [OF 0 sample_path(1)] sample_path(2)] sample_path(3)])
  show "bridge_reachable sample_core sample_finished" by (rule Step [OF c sample_path(4)])
qed

text \<open>A read of no record at the end of the batch moves the mark there: the confirmation and the messages
  follow although the host has received none of the records.\<close>

lemma skipped_records_accepted:
  assumes "h = wt_handle w" and "w = fold (watch sample_core)
     [X_Begin T_Tick, X_Copy_Writes sample_token 1 0, X_Confirm sample_token] (watch_open 7 () False)"
  shows "fst (copy_messages sample_token 0 16 h) = OK" and "wt_received w i = None"
    and "ef_writes (hd_effects h) = [sample_write]"
  by (simp_all add: assms watch_open_def sample_eval begin_transition_def batch_open_def zero_batch_def
      batch_seal_def Let_def note_assigned_def sample_core_def core_status_def requires_power_loss_barrier_def
      no_effects_def copy_writes_def finished_gate_def confirm_def copy_messages_def)


end
