(* ===== verification/Node.thy ===== *)
theory Node
  imports Bridge Marshal
begin

section \<open>\<^verbatim>\<open>node.py\<close>: the guarded handle and the pending batch\<close>

text \<open>
  A \<^verbatim>\<open>Node\<close> is the box holding its native handle (\<open>None\<close> once closed) and whether the process has
  forked since. \<^verbatim>\<open>_Guard\<close> lets a call through only for a live handle of this process (its lock and
  owner, which only matter between threads, are the subject of the theory \<open>Guard\<close>). An operation
  takes a node and returns a result or the exception it raises, and the node after it.
\<close>

record 'c node =
  nd_handle :: "'c handle option"
  nd_forked :: bool

type_synonym ('c, 'a) node_op = "'c node \<Rightarrow> (exn + 'a) \<times> 'c node"

text \<open>One native call under the guard, followed by \<^verbatim>\<open>raise_for(status)\<close>.\<close>

definition guarded :: "('c handle \<Rightarrow> int \<times> 'a \<times> 'c handle) \<Rightarrow> context_items \<Rightarrow> ('c, 'a) node_op" where
  "guarded call ctx n =
     (if nd_forked n then (Inl (err ForkedHandle []), n)
      else case nd_handle n of
        None \<Rightarrow> (Inl (err HandleClosed []), n)
      | Some h \<Rightarrow> (case call h of (st, x, h') \<Rightarrow>
          (bindE (raise_for st ctx) (\<lambda>_. Inr x), n\<lparr>nd_handle := Some h'\<rparr>)))"

text \<open>Native calls that return no value, or leave the handle alone.\<close>

definition no_value :: "('h \<Rightarrow> int \<times> 'h) \<Rightarrow> 'h \<Rightarrow> int \<times> unit \<times> 'h" where
  "no_value call h = (case call h of (st, h') \<Rightarrow> (st, (), h'))"

definition read_only :: "('h \<Rightarrow> int \<times> 'a) \<Rightarrow> 'h \<Rightarrow> int \<times> 'a \<times> 'h" where
  "read_only call h = (case call h of (st, x) \<Rightarrow> (st, x, h))"

subsection \<open>\<^verbatim>\<open>PendingBatch\<close>\<close>

record pending_batch =
  pb_token :: c_token
  pb_report :: c_report

definition pb_status :: "pending_batch \<Rightarrow> int" where "pb_status b = cp_status (pb_report b)"
definition pb_assigned_slot :: "pending_batch \<Rightarrow> int" where
  "pb_assigned_slot b = cp_assigned_slot (pb_report b)"
definition pb_requires_barrier :: "pending_batch \<Rightarrow> bool" where
  "pb_requires_barrier b = (cp_requires_barrier (pb_report b) \<noteq> 0)"

definition pb_refresh :: "pending_batch \<Rightarrow> ('c, pending_batch) node_op" where
  "pb_refresh b n =
     (case guarded (read_only (batch_report (pb_token b))) [] n of
        (Inl e, n') \<Rightarrow> (Inl e, n')
      | (Inr None, n') \<Rightarrow> (Inr b, n')
      | (Inr (Some r), n') \<Rightarrow> (Inr (b\<lparr>pb_report := r\<rparr>), n'))"

definition pb_phase :: "pending_batch \<Rightarrow> ('c, batch_phase) node_op" where
  "pb_phase b n =
     (case pb_refresh b n of
        (Inl e, n') \<Rightarrow> (Inl e, n')
      | (Inr b', n') \<Rightarrow>
          (case enum_call batch_phase_value all_batch_phases (cp_phase (pb_report b')) of
             None \<Rightarrow> (Inl ValueErr, n') | Some p \<Rightarrow> (Inr p, n')))"

text \<open>The loop of \<^verbatim>\<open>_copy\<close>. It advances by what the native call wrote; \<open>None\<close> would be a loop that never
  ends.\<close>

partial_function (option) copy_loop ::
  "(nat \<Rightarrow> nat \<Rightarrow> 'c handle \<Rightarrow> int \<times> 'r list \<times> 'c handle) \<Rightarrow> ('r \<Rightarrow> exn + 'a) \<Rightarrow> nat \<Rightarrow> nat \<Rightarrow> nat
   \<Rightarrow> 'a list \<Rightarrow> 'c node \<Rightarrow> ((exn + 'a list) \<times> 'c node) option" where
  "copy_loop copy dec avail width offset out n =
     (if offset < avail
      then (case guarded (copy offset (min width (avail - offset))) [] n of
              (Inl e, n') \<Rightarrow> Some (Inl e, n')
            | (Inr raw, n') \<Rightarrow>
                (case mapE dec raw of
                   Inl e \<Rightarrow> Some (Inl e, n')
                 | Inr xs \<Rightarrow> copy_loop copy dec avail width (offset + length raw) (out @ xs) n'))
      else Some (Inr out, n))"

declare copy_loop.simps [code]

definition pb_copy ::
  "(nat \<Rightarrow> nat \<Rightarrow> 'c handle \<Rightarrow> int \<times> 'r list \<times> 'c handle) \<Rightarrow> ('r \<Rightarrow> exn + 'a) \<Rightarrow> nat \<Rightarrow> nat
   \<Rightarrow> 'c node \<Rightarrow> ((exn + 'a list) \<times> 'c node) option" where
  "pb_copy copy dec avail chunk n =
     (if avail = 0
      then Some (case guarded (copy 0 0) [] n of
                   (Inl e, n') \<Rightarrow> (Inl e, n') | (Inr _, n') \<Rightarrow> (Inr [], n'))
      else copy_loop copy dec avail (max 1 (min chunk avail)) 0 [] n)"

definition WRITE_CHUNK :: nat where "WRITE_CHUNK = 64"
definition MESSAGE_CHUNK :: nat where "MESSAGE_CHUNK = 16"
definition COMMITTED_CHUNK :: nat where "COMMITTED_CHUNK = 32"
definition MAX_REQUESTS_PER_BATCH :: nat where "MAX_REQUESTS_PER_BATCH = MAX_MEMBERS"

definition pb_writes :: "pending_batch \<Rightarrow> 'c node \<Rightarrow> ((exn + write_record list) \<times> 'c node) option" where
  "pb_writes b n = pb_copy (copy_writes (pb_token b)) decode_write (cp_write_count (pb_report b)) WRITE_CHUNK n"

definition pb_persisted :: "pending_batch \<Rightarrow> ('c, unit) node_op" where
  "pb_persisted b = guarded (no_value (confirm (pb_token b))) []"

definition pb_messages :: "pending_batch \<Rightarrow> 'c node \<Rightarrow> ((exn + envelope list) \<times> 'c node) option" where
  "pb_messages b n =
     pb_copy (copy_messages (pb_token b)) decode_envelope (cp_message_count (pb_report b)) MESSAGE_CHUNK n"

definition pb_committed :: "pending_batch \<Rightarrow> 'c node \<Rightarrow> ((exn + committed list) \<times> 'c node) option" where
  "pb_committed b n =
     pb_copy (\<lambda>off want. read_only (copy_committed (pb_token b) off want)) decode_committed
       (cp_committed_count (pb_report b)) COMMITTED_CHUNK n"

definition pb_requests :: "pending_batch \<Rightarrow> 'c node \<Rightarrow> ((exn + serve_range list) \<times> 'c node) option" where
  "pb_requests b n =
     pb_copy (\<lambda>off want. read_only (copy_requests (pb_token b) off want)) decode_request
       (cp_request_count (pb_report b)) MAX_REQUESTS_PER_BATCH n"

definition pb_assigned_slots :: "pending_batch \<Rightarrow> ('c, int list) node_op" where
  "pb_assigned_slots b n =
     (if cp_assigned_count (pb_report b) = 0 then (Inr [], n)
      else guarded (read_only (copy_assigned_slots (pb_token b) 0 (cp_assigned_count (pb_report b)))) [] n)"

definition pb_finish :: "pending_batch \<Rightarrow> ('c, unit) node_op" where
  "pb_finish b = guarded (no_value (finish (pb_token b))) []"

text \<open>\<^verbatim>\<open>__exit__\<close>; \<open>raised\<close> tells whether the block is being left by an exception. (A \<open>None\<close> result of the
  method never swallows that exception.)\<close>

definition pb_exit :: "bool \<Rightarrow> pending_batch \<Rightarrow> ('c, unit) node_op" where
  "pb_exit raised b n =
     (case pb_refresh b n of
        (Inl e, n') \<Rightarrow> (Inl e, n')
      | (Inr b', n') \<Rightarrow>
          (case enum_call batch_phase_value all_batch_phases (cp_phase (pb_report b')) of
             None \<Rightarrow> (Inl ValueErr, n')
           | Some p \<Rightarrow>
               (if p = BP_FINISHED then (Inr (), n')
                else if p = BP_CONFIRMED then pb_finish b' n'
                else if \<not> raised then (Inl (err AbandonedBatch []), n')
                else (Inr (), n'))))"

subsection \<open>\<^verbatim>\<open>Node\<close>\<close>

definition node_begin :: "'c core_ops \<Rightarrow> transition \<Rightarrow> ('c, pending_batch) node_op" where
  "node_begin ops t n =
     (case guarded (begin_transition ops t) [] n of
        (Inl e, n') \<Rightarrow> (Inl e, n')
      | (Inr None, n') \<Rightarrow> (Inl RuntimeErr, n')
      | (Inr (Some (token, report)), n') \<Rightarrow> (Inr \<lparr>pb_token = token, pb_report = report\<rparr>, n'))"

definition node_campaign :: "'c core_ops \<Rightarrow> ('c, pending_batch) node_op" where
  "node_campaign ops = node_begin ops T_Campaign"

definition node_tick :: "'c core_ops \<Rightarrow> ('c, pending_batch) node_op" where
  "node_tick ops = node_begin ops T_Tick"

text \<open>Marshalling raises before the handle is touched.\<close>

definition with_arg :: "exn + 'x \<Rightarrow> ('x \<Rightarrow> ('c, 'a) node_op) \<Rightarrow> ('c, 'a) node_op" where
  "with_arg arg f n = (case arg of Inl e \<Rightarrow> (Inl e, n) | Inr x \<Rightarrow> f x n)"

definition node_propose :: "'c core_ops \<Rightarrow> bytes \<Rightarrow> ('c, pending_batch) node_op" where
  "node_propose ops value = with_arg (entry_for value) (\<lambda>e. node_begin ops (T_Propose e))"

definition node_propose_batch :: "'c core_ops \<Rightarrow> bytes list \<Rightarrow> ('c, pending_batch) node_op" where
  "node_propose_batch ops values =
     with_arg (mapE (fill_entry zero_entry) values) (\<lambda>es. node_begin ops (T_Propose_Batch es))"

definition node_step :: "'c core_ops \<Rightarrow> envelope \<Rightarrow> ('c, pending_batch) node_op" where
  "node_step ops env = with_arg (encode_envelope env) (\<lambda>raw. node_begin ops (T_Step raw))"

definition node_reconnected :: "'c core_ops \<Rightarrow> node_id \<Rightarrow> ('c, pending_batch) node_op" where
  "node_reconnected ops peer = node_begin ops (T_Reconnected (c_u16 peer))"

definition node_request_catch_up :: "'c core_ops \<Rightarrow> node_id \<Rightarrow> slot \<Rightarrow> ('c, pending_batch) node_op" where
  "node_request_catch_up ops peer from_slot =
     node_begin ops (T_Request_Catch_Up (c_u16 peer) (c_u64 from_slot))"

definition node_install_chosen_trim :: "'c core_ops \<Rightarrow> int \<Rightarrow> slot \<Rightarrow> ('c, pending_batch) node_op" where
  "node_install_chosen_trim ops trim_id slot = node_begin ops (T_Install_Trim (c_u64 trim_id) (c_u64 slot))"

definition node_advance_memory_floor :: "'c core_ops \<Rightarrow> slot \<Rightarrow> ('c, unit) node_op" where
  "node_advance_memory_floor ops through = guarded (no_value (bridge_advance_floor ops (c_u64 through))) []"

definition node_set_campaign_enabled :: "'c core_ops \<Rightarrow> bool \<Rightarrow> ('c, unit) node_op" where
  "node_set_campaign_enabled ops enabled = guarded (no_value (bridge_set_campaign ops enabled)) []"

definition node_state :: "'c core_ops \<Rightarrow> ('c, node_state) node_op" where
  "node_state ops n =
     (case guarded (read_only (node_state_of ops)) [] n of
        (Inl e, n') \<Rightarrow> (Inl e, n')
      | (Inr None, n') \<Rightarrow> (Inl RuntimeErr, n')
      | (Inr (Some raw), n') \<Rightarrow> (decode_state raw, n'))"

definition node_decided_span :: "'c core_ops \<Rightarrow> slot \<Rightarrow> ('c, int) node_op" where
  "node_decided_span ops from_slot = guarded (read_only (bridge_decided_span ops (c_u64 from_slot))) []"

definition node_read_decided :: "'c core_ops \<Rightarrow> slot \<Rightarrow> int \<Rightarrow> ('c, committed list) node_op" where
  "node_read_decided ops from_slot limit n =
     (if limit \<le> 0 then (Inr [], n)
      else case guarded (read_only (bridge_read_decided ops (c_u64 from_slot) (nat (c_u32 limit)))) [] n of
             (Inl e, n') \<Rightarrow> (Inl e, n')
           | (Inr raw, n') \<Rightarrow> (mapE decode_committed raw, n'))"

text \<open>\<^verbatim>\<open>close\<close> runs the finalizer once: the result is the number of abandoned writes it warns about.\<close>

definition node_close_op :: "('c, nat) node_op" where
  "node_close_op n =
     (case nd_handle n of
        None \<Rightarrow> (Inr 0, n)
      | Some h \<Rightarrow> (Inr (fst (snd (node_close h))), n\<lparr>nd_handle := None\<rparr>))"

subsection \<open>Opening and restoring\<close>

text \<open>\<^verbatim>\<open>__init__\<close>. The epoch counter of the native library is passed through.\<close>

definition node_init :: "'c core_ops \<Rightarrow> node_config \<Rightarrow> int \<Rightarrow> (exn + 'c node) \<times> int" where
  "node_init ops nc epoch =
     (case build_config nc of
        Inl e \<Rightarrow> (Inl e, epoch)
      | Inr cfg \<Rightarrow>
          (case node_open ops cfg epoch of (st, h, epoch') \<Rightarrow>
             (bindE (raise_for st [(''node_id'', PInt (nc_node_id nc)),
                                   (''configuration_id'', PInt (nc_configuration_id nc))]) (\<lambda>_.
                Inr \<lparr>nd_handle = h, nd_forked = False\<rparr>), epoch')))"

text \<open>The loop of \<^verbatim>\<open>restore\<close>: one scratch record, filled and folded per journal record.\<close>

fun replay_records :: "'c core_ops \<Rightarrow> c_write \<Rightarrow> nat \<Rightarrow> write_record list \<Rightarrow> ('c, unit) node_op" where
  "replay_records ops raw i [] n = (Inr (), n)"
| "replay_records ops raw i (rec # recs) n =
     (case fill_write raw rec of
        Inl e \<Rightarrow> (Inl e, n)
      | Inr raw' \<Rightarrow>
          (case guarded (no_value (replay_apply ops raw'))
                  [(''record_index'', PInt (int i)), (''slot'', PInt (wr_slot rec))] n of
             (Inl e, n') \<Rightarrow> (Inl e, n')
           | (Inr _, n') \<Rightarrow> replay_records ops raw' (Suc i) recs n'))"

definition node_restore ::
  "'c core_ops \<Rightarrow> node_config \<Rightarrow> write_record list \<Rightarrow> slot \<Rightarrow> int \<Rightarrow> (exn + 'c node) \<times> int" where
  "node_restore ops nc records through epoch =
     (case build_config nc of
        Inl e \<Rightarrow> (Inl e, epoch)
      | Inr cfg \<Rightarrow>
          (case node_open_for_replay ops cfg epoch of (st, h, epoch') \<Rightarrow>
             (bindE (raise_for st [(''node_id'', PInt (nc_node_id nc))]) (\<lambda>_.
                case replay_records ops zero_write 0 records \<lparr>nd_handle = h, nd_forked = False\<rparr> of
                  (Inl e, n) \<Rightarrow> Inl e
                | (Inr _, n) \<Rightarrow>
                    (case guarded (no_value (replay_restore ops (c_u64 through)))
                            [(''floor'', PInt through)] n of
                       (Inl e, n') \<Rightarrow> Inl e | (Inr _, n') \<Rightarrow> Inr n')), epoch')))"

subsection \<open>The copy loop\<close>

lemma mapE_append_bind:
  "mapE f (xs @ ys) = bindE (mapE f xs) (\<lambda>as. bindE (mapE f ys) (\<lambda>bs. Inr (as @ bs)))"
  by (induction xs) (simp_all add: bindE_assoc bindE_def split: sum.splits)

lemma bindE_return [simp]: "bindE m Inr = m"
  by (cases m) simp_all

text \<open>The contract between \<^verbatim>\<open>_copy\<close> and the native call it is given: from an offset within the batch the
  call yields the records from there, as many as asked for, and keeps whatever \<open>stage\<close> says about the
  node, at the new offset. The loop then ends with every record, decoded, in order.\<close>

locale chunked_copy =
  fixes copy :: "nat \<Rightarrow> nat \<Rightarrow> 'c handle \<Rightarrow> int \<times> 'r list \<times> 'c handle" and records :: "'r list"
    and stage :: "nat \<Rightarrow> 'c node \<Rightarrow> bool"
  assumes yields: "stage off n \<Longrightarrow> off + want \<le> length records \<Longrightarrow>
    \<exists>n'. guarded (copy off want) [] n = (Inr (take want (drop off records)), n') \<and> stage (off + want) n'"
begin

lemma loop_returns:
  assumes "stage off n" and "off \<le> length records" and "0 < width"
  shows "\<exists>r n' off'. copy_loop copy dec (length records) width off out n = Some (r, n')
    \<and> stage off' n' \<and> off' \<le> length records
    \<and> r = bindE (mapE dec (drop off records)) (\<lambda>xs. Inr (out @ xs)) \<and> (is_ok r \<longrightarrow> off' = length records)"
  using assms
proof (induction "length records - off" arbitrary: off n out rule: less_induct)
  case less
  show ?case
  proof (cases "off < length records")
    case False
    with less.prems show ?thesis by (subst copy_loop.simps) auto
  next
    case True
    let ?want = "min width (length records - off)"
    let ?raw = "take ?want (drop off records)"
    have w: "0 < ?want" "off + ?want \<le> length records" "length ?raw = ?want"
      using True less.prems(3) by auto
    obtain n' where n': "guarded (copy off ?want) [] n = (Inr ?raw, n')" "stage (off + ?want) n'"
      using yields [OF less.prems(1) w(2)] by blast
    have split: "drop off records = ?raw @ drop (off + ?want) records"
      by (metis append_take_drop_id drop_drop add.commute)
    have dec: "mapE dec (drop off records) = bindE (mapE dec ?raw) (\<lambda>ys.
        bindE (mapE dec (drop (off + ?want) records)) (\<lambda>zs. Inr (ys @ zs)))"
      by (subst split) (rule mapE_append_bind)
    show ?thesis
    proof (cases "mapE dec ?raw")
      case (Inl e)
      then show ?thesis using True n' w(2) by (subst copy_loop.simps) (auto simp: dec)
    next
      case (Inr ys)
      show ?thesis
        using less.hyps [of "off + ?want" n' "out @ ys"] w n' Inr True less.prems(3)
        by (subst copy_loop.simps) (auto simp: dec bindE_assoc split: sum.splits)
    qed
  qed
qed

text \<open>A copy always ends: with every record decoded, or with the first exception of a decoder.\<close>

lemma copy_ends:
  assumes "stage 0 n" and "0 < chunk"
  shows "\<exists>n' off. pb_copy copy dec (length records) chunk n = Some (mapE dec records, n')
    \<and> stage off n' \<and> off \<le> length records \<and> (is_ok (mapE dec records) \<longrightarrow> off = length records)"
proof (cases "records = []")
  case True
  then show ?thesis using yields [OF assms(1), of 0] by (fastforce simp: pb_copy_def)
next
  case False
  then show ?thesis
    using loop_returns [OF assms(1), of "max 1 (min chunk (length records))" dec "[]"] assms(2)
    by (auto simp: pb_copy_def less_max_iff_disj)
qed

lemma copy_returns:
  assumes "stage 0 n" and "0 < chunk" and "mapE dec records = Inr xs"
  shows "\<exists>n'. pb_copy copy dec (length records) chunk n = Some (Inr xs, n') \<and> stage (length records) n'"
  using copy_ends [OF assms(1,2), of dec] assms(3) by (auto simp: is_ok_iff)

end

subsection \<open>The five copies keep the contract\<close>

definition usable :: "c_token \<Rightarrow> 'c handle \<Rightarrow> bool" where
  "usable t h = (enter h = OK \<and> token_check h t = OK)"

definition with_copied :: "nat \<Rightarrow> 'c handle \<Rightarrow> 'c handle" where
  "with_copied k h = h\<lparr>hd_batch := (hd_batch h)\<lparr>bt_writes_copied_through := k\<rparr>\<rparr>"

definition writes_stage :: "c_token \<Rightarrow> 'c handle \<Rightarrow> nat \<Rightarrow> 'c node \<Rightarrow> bool" where
  "writes_stage t h off n = (\<not> nd_forked n \<and> usable t h \<and> bt_phase (hd_batch h) \<noteq> BP_FINISHED
     \<and> bt_write_count (hd_batch h) = length (ef_writes (hd_effects h))
     \<and> (\<exists>k. off \<le> k \<and> k \<le> bt_write_count (hd_batch h) \<and> nd_handle n = Some (with_copied k h)))"

definition outputs_stage :: "c_token \<Rightarrow> 'c handle \<Rightarrow> 'c node \<Rightarrow> 'c node \<Rightarrow> bool" where
  "outputs_stage t h n0 n = (n = n0 \<and> \<not> nd_forked n \<and> nd_handle n = Some h \<and> usable t h
     \<and> bt_phase (hd_batch h) = BP_CONFIRMED \<and> \<not> ef_pending (hd_effects h)
     \<and> bt_message_count (hd_batch h) = length (ef_messages (hd_effects h))
     \<and> bt_committed_count (hd_batch h) = length (ef_committed (hd_effects h))
     \<and> bt_request_count (hd_batch h) = length (ef_requests (hd_effects h)))"

lemma with_copied_simps [simp]:
  "enter (with_copied k h) = enter h" "token_check (with_copied k h) t = token_check h t"
  "bt_phase (hd_batch (with_copied k h)) = bt_phase (hd_batch h)"
  "hd_effects (with_copied k h) = hd_effects h"
  "bt_write_count (hd_batch (with_copied k h)) = bt_write_count (hd_batch h)"
  "bt_writes_copied_through (hd_batch (with_copied k h)) = k"
  "bt_message_count (hd_batch (with_copied k h)) = bt_message_count (hd_batch h)"
  "bt_committed_count (hd_batch (with_copied k h)) = bt_committed_count (hd_batch h)"
  "bt_request_count (hd_batch (with_copied k h)) = bt_request_count (hd_batch h)"
  "hd_replaying (with_copied k h) = hd_replaying h"
  "with_copied j (with_copied k h) = with_copied j h"
  by (simp_all add: with_copied_def enter_def token_check_def)

lemma with_copied_id: "with_copied (bt_writes_copied_through (hd_batch h)) h = h"
  by (cases h) (simp add: with_copied_def)

lemma raise_for_OK [simp]: "raise_for OK ctx = Inr ()"
  by (simp add: raise_for_def OK_def)

lemma guarded_live:
  "\<not> nd_forked n \<Longrightarrow> nd_handle n = Some h \<Longrightarrow> call h = (OK, x, h') \<Longrightarrow>
   guarded call ctx n = (Inr x, n\<lparr>nd_handle := Some h'\<rparr>)"
  by (simp add: guarded_def)

lemma copy_writes_yields:
  assumes "usable t h" "bt_phase (hd_batch h) \<noteq> BP_FINISHED"
    "bt_write_count (hd_batch h) = length (ef_writes (hd_effects h))"
    "off + want \<le> length (ef_writes (hd_effects h))"
  shows "copy_writes t off want h = (OK, take want (drop off (ef_writes (hd_effects h))),
     with_copied (max (bt_writes_copied_through (hd_batch h)) (off + want)) h)"
  using assms by (simp add: copy_writes_def copy_out_def usable_def finished_gate_def span_def with_copied_def)

interpretation writes_copy: chunked_copy "copy_writes t" "ef_writes (hd_effects h)" "writes_stage t h" for t h
proof
  fix off n want
  assume s: "writes_stage t h off n" and w: "off + want \<le> length (ef_writes (hd_effects h))"
  obtain k where k: "off \<le> k" "k \<le> bt_write_count (hd_batch h)" "nd_handle n = Some (with_copied k h)"
    using s by (auto simp: writes_stage_def)
  have "copy_writes t off want (with_copied k h) = (OK, take want (drop off (ef_writes (hd_effects h))),
      with_copied (max k (off + want)) h)"
    using copy_writes_yields [of t "with_copied k h" off want] s w by (simp add: writes_stage_def usable_def)
  from guarded_live [where call = "copy_writes t off want" and ctx = "[]", OF _ k(3) this]
  show "\<exists>n'. guarded (copy_writes t off want) [] n = (Inr (take want (drop off (ef_writes (hd_effects h)))), n')
      \<and> writes_stage t h (off + want) n'"
    using s w k(1,2) by (intro exI [of _ "n\<lparr>nd_handle := Some (with_copied (max k (off + want)) h)\<rparr>"])
      (auto simp: writes_stage_def intro!: exI [of _ "max k (off + want)"])
qed

lemma same_handle: "nd_handle n = Some h \<Longrightarrow> n\<lparr>nd_handle := Some h\<rparr> = n"
  by (cases n) simp

lemma outputs_yield:
  assumes "outputs_stage t h n0 n"
    and "off + want \<le> length records" and "call h = (OK, take want (drop off records), h)"
  shows "\<exists>n'. guarded call [] n = (Inr (take want (drop off records)), n') \<and> outputs_stage t h n0 n'"
  using assms guarded_live [of n h call "take want (drop off records)" h "[]"] same_handle [of n h]
  by (auto simp: outputs_stage_def)

lemma copy_out_yields:
  assumes "outputs_stage t h n0 n" and "off + want \<le> length records"
  shows "copy_out output_gate (length records) records t off want h = (OK, take want (drop off records))"
  using assms by (simp add: copy_out_def outputs_stage_def usable_def output_gate_def span_def)

lemma not_violated_id: "\<not> p \<Longrightarrow> h\<lparr>hd_violated := hd_violated h \<or> p\<rparr> = h"
  by (cases h) simp

interpretation messages_copy: chunked_copy "copy_messages t" "ef_messages (hd_effects h)"
    "\<lambda>_. outputs_stage t h n0" for t h n0
proof
  fix off n want
  assume s: "outputs_stage t h n0 n" and w: "off + want \<le> length (ef_messages (hd_effects h))"
  show "\<exists>n'. guarded (copy_messages t off want) [] n
      = (Inr (take want (drop off (ef_messages (hd_effects h)))), n') \<and> outputs_stage t h n0 n'"
    using copy_out_yields [OF s w] s
    by (intro outputs_yield [OF s w]) (simp add: copy_messages_def outputs_stage_def not_violated_id)
qed

interpretation committed_copy: chunked_copy "\<lambda>off want. read_only (copy_committed t off want)"
    "ef_committed (hd_effects h)" "\<lambda>_. outputs_stage t h n0" for t h n0
proof
  fix off n want
  assume s: "outputs_stage t h n0 n" and w: "off + want \<le> length (ef_committed (hd_effects h))"
  show "\<exists>n'. guarded (read_only (copy_committed t off want)) [] n
      = (Inr (take want (drop off (ef_committed (hd_effects h)))), n') \<and> outputs_stage t h n0 n'"
    using copy_out_yields [OF s w] s
    by (intro outputs_yield [OF s w]) (simp add: read_only_def copy_committed_def outputs_stage_def)
qed

interpretation requests_copy: chunked_copy "\<lambda>off want. read_only (copy_requests t off want)"
    "ef_requests (hd_effects h)" "\<lambda>_. outputs_stage t h n0" for t h n0
proof
  fix off n want
  assume s: "outputs_stage t h n0 n" and w: "off + want \<le> length (ef_requests (hd_effects h))"
  show "\<exists>n'. guarded (read_only (copy_requests t off want)) [] n
      = (Inr (take want (drop off (ef_requests (hd_effects h)))), n') \<and> outputs_stage t h n0 n'"
    using copy_out_yields [OF s w] s
    by (intro outputs_yield [OF s w]) (simp add: read_only_def copy_requests_def outputs_stage_def)
qed

subsection \<open>Discharging a batch from Python\<close>

lemma raise_for_Inr [simp]: "raise_for st ctx = Inr u \<longleftrightarrow> st = OK"
  by (auto simp: raise_for_def OK_def)

lemma node_begin_cases:
  assumes "node_begin ops t n0 = (Inr b, n)" and "nd_handle n0 = Some h0"
  shows "\<not> nd_forked n0 \<and> (\<exists>h. n = n0\<lparr>nd_handle := Some h\<rparr>
    \<and> begin_transition ops t h0 = (OK, Some (pb_token b, pb_report b), h))"
  using assms
  by (auto simp: node_begin_def guarded_def bindE_eq_Inr split: if_splits prod.splits sum.splits option.splits)

lemma begun_facts:
  assumes "core_gate ops" and "bridge_reachable ops h0"
    and "begin_transition ops t h0 = (OK, Some (tok, rep), h)"
  shows "usable tok h" and "bt_phase (hd_batch h) = BP_PENDING \<or> bt_phase (hd_batch h) = BP_CONFIRMED \<and> \<not> ef_pending (hd_effects h)"
    and "bt_write_count (hd_batch h) = length (ef_writes (hd_effects h))"
    and "bt_message_count (hd_batch h) = length (ef_messages (hd_effects h))"
    and "bt_committed_count (hd_batch h) = length (ef_committed (hd_effects h))"
    and "bt_request_count (hd_batch h) = length (ef_requests (hd_effects h))"
    and "bt_writes_copied_through (hd_batch h) = 0" and "rep = report_fill h" and "\<not> hd_replaying h"
    and "ef_writes (hd_effects h) \<noteq> [] \<Longrightarrow> bt_phase (hd_batch h) = BP_PENDING"
proof -
  have "bridge_inv h" using bridge_inv_reachable [OF _ assms(1)] Step [OF assms(2) Begin [OF assms(3)]] by blast
  then have np: "bt_phase (hd_batch h) \<noteq> BP_PENDING \<longrightarrow> \<not> ef_pending (hd_effects h)"
    unfolding bridge_inv_def by blast
  have nr: "\<not> hd_replaying h0"
    using assms(3) by (auto simp: begin_transition_def batch_open_def split: if_splits)
  obtain e slots c ef b where *: "enter h0 = OK"
    "h = h0\<lparr>hd_generation := hd_generation h0 + 1, hd_core := c, hd_effects := ef,
                 hd_violated := hd_violated h0 \<or> ef_pending (hd_effects h0), hd_batch := b\<rparr>"
    "bt_phase b = (if ef_writes ef = [] then BP_CONFIRMED else BP_PENDING)"
    "bt_generation b = hd_generation h0 + 1" "bt_writes_copied_through b = 0"
    "bt_write_count b = length (ef_writes ef)" "bt_message_count b = length (ef_messages ef)"
    "bt_committed_count b = length (ef_committed ef)" "bt_request_count b = length (ef_requests ef)"
    "tok = \<lparr>ct_epoch = hd_epoch h0, ct_generation = hd_generation h0 + 1\<rparr>" "rep = report_fill h"
    using begin_cases [OF assms(3)] by auto
  show "usable tok h"
    using * by (simp add: usable_def token_check_def enter_def split: if_splits)
  show "bt_phase (hd_batch h) = BP_PENDING \<or> bt_phase (hd_batch h) = BP_CONFIRMED \<and> \<not> ef_pending (hd_effects h)"
    using np *(2,3) by auto
  show "bt_write_count (hd_batch h) = length (ef_writes (hd_effects h))"
    "bt_message_count (hd_batch h) = length (ef_messages (hd_effects h))"
    "bt_committed_count (hd_batch h) = length (ef_committed (hd_effects h))"
    "bt_request_count (hd_batch h) = length (ef_requests (hd_effects h))"
    "bt_writes_copied_through (hd_batch h) = 0" "rep = report_fill h" "\<not> hd_replaying h"
    using * nr by simp_all
  show "ef_writes (hd_effects h) \<noteq> [] \<Longrightarrow> bt_phase (hd_batch h) = BP_PENDING" using * by simp
qed

lemma confirm_copied:
  assumes "usable tok h" and "bt_phase (hd_batch h) = BP_PENDING \<or> bt_phase (hd_batch h) = BP_CONFIRMED \<and> \<not> ef_pending (hd_effects h)"
    and "bt_write_count (hd_batch h) \<le> bt_writes_copied_through (hd_batch h)"
  shows "\<exists>h2. confirm tok h = (OK, h2) \<and> usable tok h2 \<and> bt_phase (hd_batch h2) = BP_CONFIRMED
    \<and> \<not> ef_pending (hd_effects h2) \<and> hd_replaying h2 = hd_replaying h
    \<and> ef_messages (hd_effects h2) = ef_messages (hd_effects h)
    \<and> ef_committed (hd_effects h2) = ef_committed (hd_effects h)
    \<and> ef_requests (hd_effects h2) = ef_requests (hd_effects h)
    \<and> bt_message_count (hd_batch h2) = bt_message_count (hd_batch h)
    \<and> bt_committed_count (hd_batch h2) = bt_committed_count (hd_batch h)
    \<and> bt_request_count (hd_batch h2) = bt_request_count (hd_batch h)"
  using assms by (auto simp: confirm_def usable_def token_check_def enter_def split: if_splits)

lemma finish_confirmed:
  assumes "usable tok h" and "bt_phase (hd_batch h) = BP_CONFIRMED"
  shows "finish tok h = (OK, h\<lparr>hd_batch := (hd_batch h)\<lparr>bt_phase := BP_FINISHED\<rparr>\<rparr>)"
  using assms by (simp add: finish_def usable_def)

text \<open>The stages of a discharge, after any transition on a reachable handle.\<close>

lemma discharge_stages:
  assumes "core_gate ops" and "bridge_reachable ops h0" and "nd_handle n0 = Some h0"
    and "node_begin ops t n0 = (Inr b, n)" and "nd_handle n = Some h"
  shows "\<exists>n1 n2 n3 h3. pb_writes b n = Some (mapE decode_write (ef_writes (hd_effects h)), n1)
    \<and> \<not> nd_forked n1 \<and> (\<exists>k. nd_handle n1 = Some (with_copied k h)) \<and> usable (pb_token b) h
    \<and> (is_ok (mapE decode_write (ef_writes (hd_effects h))) \<longrightarrow>
         pb_persisted b n1 = (Inr (), n2)
         \<and> pb_messages b n2 = Some (mapE decode_envelope (ef_messages (hd_effects h)), n2)
         \<and> pb_committed b n2 = Some (mapE decode_committed (ef_committed (hd_effects h)), n2)
         \<and> pb_requests b n2 = Some (mapE decode_request (ef_requests (hd_effects h)), n2)
         \<and> pb_finish b n2 = (Inr (), n3) \<and> nd_handle n3 = Some h3 \<and> fst (batch_open h3) = OK)"
proof -
  have nf: "\<not> nd_forked n0" and nn: "n = n0\<lparr>nd_handle := Some h\<rparr>"
    and bt: "begin_transition ops t h0 = (OK, Some (pb_token b, pb_report b), h)"
    using node_begin_cases [OF assms(4,3)] assms(5) by auto
  note f = begun_facts [OF assms(1,2) bt]
  let ?t = "pb_token b"
  have rep: "cp_write_count (pb_report b) = length (ef_writes (hd_effects h))"
    "cp_message_count (pb_report b) = length (ef_messages (hd_effects h))"
    "cp_committed_count (pb_report b) = length (ef_committed (hd_effects h))"
    "cp_request_count (pb_report b) = length (ef_requests (hd_effects h))"
    using f(3-6,8) by (simp_all add: report_fill_def Let_def)
  have "writes_stage ?t h 0 n"
    using f(1-3,7) nf nn with_copied_id [of h] unfolding writes_stage_def by auto
  then obtain n1 off where n1: "pb_writes b n = Some (mapE decode_write (ef_writes (hd_effects h)), n1)"
    and st: "writes_stage ?t h off n1"
    and off: "is_ok (mapE decode_write (ef_writes (hd_effects h))) \<longrightarrow> off = length (ef_writes (hd_effects h))"
    using writes_copy.copy_ends [of ?t h n WRITE_CHUNK decode_write] rep(1)
    by (auto simp: pb_writes_def WRITE_CHUNK_def)
  have live: "\<not> nd_forked n1 \<and> (\<exists>k. nd_handle n1 = Some (with_copied k h)) \<and> usable ?t h"
    using st by (auto simp: writes_stage_def)
  show ?thesis
  proof (cases "is_ok (mapE decode_write (ef_writes (hd_effects h)))")
  case False
    with n1 live show ?thesis by auto
  next
  case True
    with st off have s1: "writes_stage ?t h (length (ef_writes (hd_effects h))) n1" by simp
    let ?h1 = "with_copied (bt_write_count (hd_batch h)) h"
    have h1: "nd_handle n1 = Some ?h1" "\<not> nd_forked n1"
      using s1 unfolding writes_stage_def by auto
    obtain h2 where c: "confirm ?t ?h1 = (OK, h2)" and h2: "usable ?t h2" "bt_phase (hd_batch h2) = BP_CONFIRMED"
      "\<not> ef_pending (hd_effects h2)" "hd_replaying h2 = hd_replaying ?h1"
      "ef_messages (hd_effects h2) = ef_messages (hd_effects h)"
      "ef_committed (hd_effects h2) = ef_committed (hd_effects h)"
      "ef_requests (hd_effects h2) = ef_requests (hd_effects h)"
      "bt_message_count (hd_batch h2) = bt_message_count (hd_batch h)"
      "bt_committed_count (hd_batch h2) = bt_committed_count (hd_batch h)"
      "bt_request_count (hd_batch h2) = bt_request_count (hd_batch h)"
    proof -
      have "usable ?t ?h1" using f(1) by (simp add: usable_def)
      from confirm_copied [OF this] f(2) that show thesis by auto
    qed
    let ?n2 = "n1\<lparr>nd_handle := Some h2\<rparr>"
    have p: "pb_persisted b n1 = (Inr (), ?n2)"
      unfolding pb_persisted_def by (rule guarded_live [OF h1(2,1)]) (simp add: no_value_def c)
    have s2: "outputs_stage ?t h2 ?n2 ?n2"
      using h1(2) h2 f(4-6) by (simp add: outputs_stage_def)
    have m: "pb_messages b ?n2 = Some (mapE decode_envelope (ef_messages (hd_effects h)), ?n2)"
      using messages_copy.copy_ends [OF s2, of MESSAGE_CHUNK decode_envelope] rep(2) h2(5)
      by (auto simp: pb_messages_def MESSAGE_CHUNK_def outputs_stage_def)
    have k: "pb_committed b ?n2 = Some (mapE decode_committed (ef_committed (hd_effects h)), ?n2)"
      using committed_copy.copy_ends [OF s2, of COMMITTED_CHUNK decode_committed] rep(3) h2(6)
      by (auto simp: pb_committed_def COMMITTED_CHUNK_def outputs_stage_def)
    have r: "pb_requests b ?n2 = Some (mapE decode_request (ef_requests (hd_effects h)), ?n2)"
      using requests_copy.copy_ends [OF s2, of MAX_REQUESTS_PER_BATCH decode_request] rep(4) h2(7)
      by (auto simp: pb_requests_def MAX_REQUESTS_PER_BATCH_def MAX_MEMBERS_def outputs_stage_def)
    let ?h3 = "h2\<lparr>hd_batch := (hd_batch h2)\<lparr>bt_phase := BP_FINISHED\<rparr>\<rparr>"
    have fin: "pb_finish b ?n2 = (Inr (), ?n2\<lparr>nd_handle := Some ?h3\<rparr>)"
      unfolding pb_finish_def
      by (rule guarded_live [of _ h2]) (use h1(2) finish_confirmed [OF h2(1,2)] in \<open>simp_all add: no_value_def\<close>)
    have "fst (batch_open ?h3) = OK" using f(9) h2(4) by (simp add: batch_open_def with_copied_def)
    with n1 live p m k r fin show ?thesis by fastforce
  qed
qed

text \<open>C3: \<^verbatim>\<open>_copy\<close> always ends, and a batch discharged in the documented order gives the host everything.
  After any transition, on any reachable handle: \<^verbatim>\<open>writes()\<close> returns every record in journal order,
  however many chunks that takes; then \<^verbatim>\<open>persisted()\<close> succeeds; then \<^verbatim>\<open>messages()\<close>, \<^verbatim>\<open>committed()\<close> and
  \<^verbatim>\<open>requests()\<close> return every envelope, entry and request in order and leave the node as it was; then
  \<^verbatim>\<open>finish()\<close> succeeds and the handle is ready for the next transition.\<close>

theorem batch_discharge_complete:
  assumes "core_gate ops" and "bridge_reachable ops h0" and "nd_handle n0 = Some h0"
    and "node_begin ops t n0 = (Inr b, n)" and "nd_handle n = Some h"
    and "mapE decode_write (ef_writes (hd_effects h)) = Inr ws"
    and "mapE decode_envelope (ef_messages (hd_effects h)) = Inr ms"
    and "mapE decode_committed (ef_committed (hd_effects h)) = Inr cs"
    and "mapE decode_request (ef_requests (hd_effects h)) = Inr rs"
  shows "\<exists>n1 n2 n3 h3. pb_writes b n = Some (Inr ws, n1) \<and> pb_persisted b n1 = (Inr (), n2)
    \<and> pb_messages b n2 = Some (Inr ms, n2) \<and> pb_committed b n2 = Some (Inr cs, n2)
    \<and> pb_requests b n2 = Some (Inr rs, n2) \<and> pb_finish b n2 = (Inr (), n3)
    \<and> nd_handle n3 = Some h3 \<and> fst (batch_open h3) = OK"
  using discharge_stages [OF assms(1-5)] assms(6-9) by simp blast

lemma bridge_exceptions [simp]:
  "raise_for E_WRITES_UNCONFIRMED [] = Inl (err WritesUnconfirmed [])"
  "raise_for E_WRITES_NOT_COPIED [] = Inl (err WritesNotCopied [])"
  "raise_for E_BATCH_PENDING [] = Inl (err BatchPending [])"
  by code_simp+

lemma finish_unconfirmed:
  assumes "nd_handle n = Some h" and "\<not> nd_forked n" and "usable (pb_token b) h"
    and "bt_phase (hd_batch h) = BP_PENDING"
  shows "pb_finish b n = (Inl (err WritesUnconfirmed []), n)"
  using assms same_handle [OF assms(1)]
  by (simp add: pb_finish_def guarded_def no_value_def finish_def usable_def)

text \<open>The order of a discharge is enforced from Python. On a batch whose writes are not confirmed,
  \<^verbatim>\<open>messages()\<close>, \<^verbatim>\<open>committed()\<close> and \<^verbatim>\<open>requests()\<close> raise \<^verbatim>\<open>WritesUnconfirmed\<close> and change nothing, even when
  the batch has none to return; \<^verbatim>\<open>persisted()\<close> raises \<^verbatim>\<open>WritesNotCopied\<close> while a record has not been
  copied out; and \<^verbatim>\<open>finish()\<close> raises \<^verbatim>\<open>WritesUnconfirmed\<close>.\<close>

lemma discharge_order_enforced:
  assumes "nd_handle n = Some h" and "\<not> nd_forked n" and "usable (pb_token b) h"
    and "bt_phase (hd_batch h) = BP_PENDING"
  shows "pb_messages b n = Some (Inl (err WritesUnconfirmed []), n)
    \<and> pb_committed b n = Some (Inl (err WritesUnconfirmed []), n)
    \<and> pb_requests b n = Some (Inl (err WritesUnconfirmed []), n)
    \<and> pb_finish b n = (Inl (err WritesUnconfirmed []), n)
    \<and> (bt_writes_copied_through (hd_batch h) < bt_write_count (hd_batch h) \<longrightarrow>
         pb_persisted b n = (Inl (err WritesNotCopied []), n))"
proof -
  let ?t = "pb_token b"
  have g: "copy_out output_gate avail records ?t off want h = (E_WRITES_UNCONFIRMED, [])"
    for avail and records :: "'r list" and off want
    using assms(3,4) by (simp add: copy_out_def usable_def output_gate_def)
  have r: "guarded call [] n = (Inl (err WritesUnconfirmed []), n)"
    if "call h = (E_WRITES_UNCONFIRMED, x, h)" for call and x :: 'z
    using that assms(1,2) same_handle [OF assms(1)] by (simp add: guarded_def)
  have c: "pb_copy call dec avail chunk n = Some (Inl (err WritesUnconfirmed []), n)"
    if "\<And>off want. call off want h = (E_WRITES_UNCONFIRMED, [], h)" for call and dec :: "'x \<Rightarrow> exn + 'y" and avail chunk
  proof -
    have "guarded (call off want) [] n = (Inl (err WritesUnconfirmed []), n)" for off want
      using r [of "call off want"] that by blast
    then show ?thesis by (simp add: pb_copy_def copy_loop.simps)
  qed
  have "pb_finish b n = (Inl (err WritesUnconfirmed []), n)" by (rule finish_unconfirmed [OF assms])
  moreover have "pb_persisted b n = (Inl (err WritesNotCopied []), n)"
    if "bt_writes_copied_through (hd_batch h) < bt_write_count (hd_batch h)"
    using that assms same_handle [OF assms(1)]
    by (simp add: pb_persisted_def guarded_def no_value_def confirm_def usable_def)
  ultimately show ?thesis
    unfolding pb_messages_def pb_committed_def pb_requests_def
    by (simp add: c copy_messages_def copy_committed_def copy_requests_def read_only_def g)
qed

text \<open>Leaving a \<^verbatim>\<open>with\<close> block, and beginning after one, by the phase the batch is in.\<close>

lemma exit_phases:
  assumes "nd_handle n = Some h" and "\<not> nd_forked n" and "usable (pb_token b) h"
  shows "pb_exit raised b n =
     (case bt_phase (hd_batch h) of
        BP_CONFIRMED \<Rightarrow> (Inr (), n\<lparr>nd_handle := Some (h\<lparr>hd_batch := (hd_batch h)\<lparr>bt_phase := BP_FINISHED\<rparr>\<rparr>)\<rparr>)
      | BP_FINISHED \<Rightarrow> (Inr (), n)
      | _ \<Rightarrow> (if raised then Inr () else Inl (err AbandonedBatch []), n))"
proof -
  have ref: "pb_refresh b n = (Inr (b\<lparr>pb_report := report_fill h\<rparr>), n)"
    using assms same_handle [OF assms(1)]
    by (simp add: pb_refresh_def guarded_def read_only_def batch_report_def usable_def)
  have ph: "enum_call batch_phase_value all_batch_phases (cp_phase (report_fill h)) = Some (bt_phase (hd_batch h))"
    by (cases "bt_phase (hd_batch h)")
       (simp_all add: report_fill_def Let_def enum_call_def all_batch_phases_def)
  have fin: "pb_finish (b\<lparr>pb_report := report_fill h\<rparr>) n =
      (Inr (), n\<lparr>nd_handle := Some (h\<lparr>hd_batch := (hd_batch h)\<lparr>bt_phase := BP_FINISHED\<rparr>\<rparr>)\<rparr>)"
    if "bt_phase (hd_batch h) = BP_CONFIRMED"
    using assms finish_confirmed [OF assms(3) that] by (simp add: pb_finish_def guarded_def no_value_def)
  show ?thesis
    by (cases "bt_phase (hd_batch h)") (simp_all add: pb_exit_def ref ph fin)
qed

lemma begin_blocked:
  assumes "nd_handle n = Some h" and "\<not> nd_forked n" and "enter h = OK"
    and "bt_phase (hd_batch h) = BP_PENDING" and "\<not> hd_replaying h" and "transition_status t = OK"
  shows "node_begin ops t n = (Inl (err BatchPending []), n)"
  using assms same_handle [OF assms(1)]
  by (simp add: node_begin_def guarded_def begin_transition_def batch_open_def)

text \<open>C34: A \<^verbatim>\<open>with\<close> block never confirms a batch. Leaving it with the batch confirmed finishes it; leaving it
  finished does nothing; leaving it with writes unconfirmed changes nothing, raises \<^verbatim>\<open>AbandonedBatch\<close>
  unless an exception is already on its way, and the next transition raises \<^verbatim>\<open>BatchPending\<close>, so
  records that may never have reached disk are not stepped over.\<close>

theorem exit_never_confirms:
  assumes "nd_handle n = Some h" and "\<not> nd_forked n" and "usable (pb_token b) h"
  shows "pb_exit raised b n =
     (case bt_phase (hd_batch h) of
        BP_CONFIRMED \<Rightarrow> (Inr (), n\<lparr>nd_handle := Some (h\<lparr>hd_batch := (hd_batch h)\<lparr>bt_phase := BP_FINISHED\<rparr>\<rparr>)\<rparr>)
      | BP_FINISHED \<Rightarrow> (Inr (), n)
      | _ \<Rightarrow> (if raised then Inr () else Inl (err AbandonedBatch []), n))
    \<and> (bt_phase (hd_batch h) = BP_PENDING \<and> \<not> hd_replaying h \<and> transition_status t = OK \<longrightarrow>
         node_begin ops t (snd (pb_exit raised b n)) = (Inl (err BatchPending []), n))"
  using exit_phases [OF assms] begin_blocked [OF assms(1,2)] assms(3)
  by (auto simp: usable_def)

subsection \<open>Restoring and closing\<close>

text \<open>What the native replay makes of a list of records: the ledger after folding them all, if the core
  accepts every one.\<close>

fun folded :: "'c core_ops \<Rightarrow> c_write list \<Rightarrow> 'c \<Rightarrow> 'c option" where
  "folded ops [] c = Some c"
| "folded ops (w # ws) c =
     (case co_replay_fold ops w c of (e, c') \<Rightarrow> if e = 0 then folded ops ws c' else None)"

lemma core_status_OK [simp]: "core_status e = OK \<longleftrightarrow> e = 0 \<or> e = - CORE_STATUS_BASE"
  by (auto simp: core_status_def OK_def)

lemma kind_not_OK [simp]: "E_UNSUPPORTED_KIND \<noteq> OK" "E_INVALID_ARGUMENT \<noteq> OK" "E_UNSUPPORTED_CAPABILITY \<noteq> OK"
  by (simp_all add: status_defs OK_def)

lemma replay_apply_OK:
  assumes "replay_apply ops w h = (OK, h')" and "\<And>c. fst (co_replay_fold ops w c) \<ge> 0"
  shows "co_replay_fold ops w (hd_core h) = (0, hd_core h') \<and> h' = h\<lparr>hd_core := hd_core h'\<rparr>"
  using assms(1) assms(2) [of "hd_core h"]
  by (auto simp: replay_apply_def CORE_STATUS_BASE_def split: if_splits prod.splits)

text \<open>A core whose error ordinals are those of an enumeration.\<close>

definition core_ordinals :: "'c core_ops \<Rightarrow> bool" where
  "core_ordinals ops = ((\<forall>w c. 0 \<le> fst (co_replay_fold ops w c)) \<and> (\<forall>f c. 0 \<le> fst (co_restore ops f c))
     \<and> (\<forall>cfg. 0 \<le> co_membership ops cfg) \<and> (\<forall>cfg. 0 \<le> fst (co_init ops cfg)))"

lemma replay_records_OK:
  assumes "replay_records ops raw i recs n = (Inr (), n')" and "core_ordinals ops"
    and "nd_handle n = Some h" and "list_all record_in_range recs"
  shows "\<exists>raws c. mapE decode_write raws = Inr recs \<and> folded ops raws (hd_core h) = Some c
    \<and> n' = n\<lparr>nd_handle := Some (h\<lparr>hd_core := c\<rparr>)\<rparr>"
  using assms(1,3,4)
proof (induction recs arbitrary: raw i n h)
  case Nil
  then have "n' = n\<lparr>nd_handle := Some (h\<lparr>hd_core := hd_core h\<rparr>)\<rparr>" by simp
  then show ?case by (intro exI [of _ "[]"]) simp
next
  case (Cons rec recs)
  obtain raw' where fill: "fill_write raw rec = Inr raw'" and dec: "decode_write raw' = Inr rec"
    using fill_write_law Cons.prems(3) by fastforce
  obtain st h1 where ap: "replay_apply ops raw' h = (st, h1)" by (cases "replay_apply ops raw' h")
  have nf: "\<not> nd_forked n" and st: "st = OK"
    and rest: "replay_records ops raw' (Suc i) recs (n\<lparr>nd_handle := Some h1\<rparr>) = (Inr (), n')"
    using Cons.prems(1,2) ap
    by (auto simp: fill guarded_def no_value_def bindE_eq_Inr raise_for_def OK_def split: if_splits prod.splits sum.splits)
  have f: "co_replay_fold ops raw' (hd_core h) = (0, hd_core h1)" "h1 = h\<lparr>hd_core := hd_core h1\<rparr>"
    using replay_apply_OK [of ops raw' h h1] ap st assms(2) by (auto simp: core_ordinals_def)
  obtain raws c where r: "mapE decode_write raws = Inr recs" "folded ops raws (hd_core h1) = Some c"
    "n' = n\<lparr>nd_handle := Some h1\<rparr>\<lparr>nd_handle := Some (h1\<lparr>hd_core := c\<rparr>)\<rparr>"
    using Cons.IH [OF rest] Cons.prems(3) by auto
  have "h1\<lparr>hd_core := c\<rparr> = h\<lparr>hd_core := c\<rparr>" by (subst f(2)) simp
  with r f(1) dec show ?case
    by (intro exI [of _ "raw' # raws"] exI [of _ c]) simp
qed

text \<open>C25: A node is rebuilt from exactly its journal. When \<^verbatim>\<open>Node.restore\<close> returns, the core folded the
  records given, every one, once and in order, each as the native record that decodes back to it, and
  accepted them all; the restored handle is live, out of replay and has no pending batch. (A record the
  core refuses raises, and the half-built node is closed.)\<close>

theorem restore_folds_journal:
  assumes "core_ordinals ops" and "list_all record_in_range records"
    and "node_restore ops nc records through epoch = (Inr n, epoch')"
  shows "\<exists>cfg raws c c' h. build_config nc = Inr cfg \<and> config_check cfg = OK
    \<and> mapE decode_write raws = Inr records \<and> folded ops raws (co_ledger ops cfg) = Some c
    \<and> co_restore ops (c_u64 through) c = (0, c') \<and> n = \<lparr>nd_handle = Some h, nd_forked = False\<rparr>
    \<and> hd_core h = c' \<and> hd_live h \<and> \<not> hd_replaying h \<and> bt_phase (hd_batch h) = BP_IDLE
    \<and> hd_epoch h = epoch + 1 \<and> epoch' = epoch + 1"
proof -
  obtain cfg where cfg: "build_config nc = Inr cfg"
    using assms(3) by (auto simp: node_restore_def split: sum.splits)
  obtain st ho ep where op: "node_open_for_replay ops cfg epoch = (st, ho, ep)" by (metis prod_cases3)
  have "st = OK" and ep: "ep = epoch'"
    using assms(3) cfg op by (auto simp: node_restore_def bindE_eq_Inr)
  with op have chk: "config_check cfg = OK" and ho: "ho = Some (handle_create (epoch + 1) (co_ledger ops cfg) True)"
    and "epoch' = epoch + 1"
    using assms(1) by (auto simp: node_open_for_replay_def core_ordinals_def CORE_STATUS_BASE_def
        split: if_splits dest: spec [of _ cfg])
  let ?h = "handle_create (epoch + 1) (co_ledger ops cfg) True"
  obtain n1 where run: "replay_records ops zero_write 0 records \<lparr>nd_handle = Some ?h, nd_forked = False\<rparr> = (Inr (), n1)"
    and fin: "guarded (no_value (replay_restore ops (c_u64 through))) [(''floor'', PInt through)] n1 = (Inr (), n)"
    using assms(3) cfg op ho \<open>st = OK\<close>
    by (auto simp: node_restore_def bindE_eq_Inr split: prod.splits sum.splits)
  obtain raws c where r: "mapE decode_write raws = Inr records" "folded ops raws (hd_core ?h) = Some c"
    "n1 = \<lparr>nd_handle = Some ?h, nd_forked = False\<rparr>\<lparr>nd_handle := Some (?h\<lparr>hd_core := c\<rparr>)\<rparr>"
    using replay_records_OK [OF run assms(1) _ assms(2)] by auto
  obtain e c' where rs: "co_restore ops (c_u64 through) c = (e, c')" by (cases "co_restore ops (c_u64 through) c")
  have "0 \<le> e" using assms(1) rs by (auto simp: core_ordinals_def dest!: spec [of _ "c_u64 through"] spec [of _ c])
  then have "e = 0" "n = \<lparr>nd_handle = Some (?h\<lparr>hd_core := c', hd_replaying := False, hd_effects := no_effects, hd_batch := zero_batch\<rparr>), nd_forked = False\<rparr>"
    using fin rs r(3)
    by (auto simp: guarded_def no_value_def replay_restore_def bindE_eq_Inr enter_def handle_create_def
        CORE_STATUS_BASE_def split: if_splits)
  with cfg chk r rs \<open>epoch' = epoch + 1\<close> show ?thesis
    by (auto simp: handle_create_def zero_batch_def)
qed

text \<open>Closing is final and honest. \<^verbatim>\<open>close()\<close> reports exactly the writes of a batch that was never
  confirmed; closing again reports nothing and does nothing; and a closed node refuses every call with
  \<^verbatim>\<open>HandleClosed\<close>, one used after a fork with \<^verbatim>\<open>ForkedHandle\<close>, without touching a handle.\<close>

lemma close_is_final:
  assumes "nd_handle n = Some h" and "hd_live h" and "\<not> hd_busy h" and "\<not> nd_forked n"
  shows "\<exists>n'. node_close_op n = (Inr (if bt_phase (hd_batch h) = BP_PENDING then bt_write_count (hd_batch h) else 0), n')
    \<and> node_close_op n' = (Inr 0, n')
    \<and> node_begin ops t n' = (Inl (err HandleClosed []), n')
    \<and> node_propose_batch ops [] n' = (Inl (err HandleClosed []), n')
    \<and> pb_persisted b n' = (Inl (err HandleClosed []), n') \<and> pb_finish b n' = (Inl (err HandleClosed []), n')
    \<and> pb_writes b n' = Some (Inl (err HandleClosed []), n')
    \<and> node_state ops n' = (Inl (err HandleClosed []), n')
    \<and> node_begin ops t (n\<lparr>nd_forked := True\<rparr>) = (Inl (err ForkedHandle []), n\<lparr>nd_forked := True\<rparr>)"
proof -
  let ?n' = "n\<lparr>nd_handle := None\<rparr>"
  have g: "guarded call ctx ?n' = (Inl (err HandleClosed []), ?n')" for call ctx
    using assms(4) by (simp add: guarded_def)
  have "node_close_op n = (Inr (if bt_phase (hd_batch h) = BP_PENDING then bt_write_count (hd_batch h) else 0), ?n')"
    using assms by (simp add: node_close_op_def node_close_def)
  moreover have "pb_writes b ?n' = Some (Inl (err HandleClosed []), ?n')"
    by (simp add: pb_writes_def pb_copy_def copy_loop.simps g)
  moreover have "node_begin ops t (n\<lparr>nd_forked := True\<rparr>) = (Inl (err ForkedHandle []), n\<lparr>nd_forked := True\<rparr>)"
    by (simp add: node_begin_def guarded_def)
  ultimately show ?thesis
    by (intro exI [of _ ?n'])
       (simp add: node_close_op_def node_begin_def node_propose_batch_def with_arg_def pb_persisted_def
        pb_finish_def node_state_def g)
qed

subsection \<open>Witnesses\<close>

definition sample_node :: "unit handle \<Rightarrow> unit node" where
  "sample_node h = \<lparr>nd_handle = Some h, nd_forked = False\<rparr>"

definition sample_pending :: pending_batch where
  "sample_pending = \<lparr>pb_token = sample_token, pb_report = report_fill sample_begun\<rparr>"

lemma sample_node_begin: "node_begin sample_core T_Tick (sample_node sample_handle) = (Inr sample_pending, sample_node sample_begun)"
proof -
  obtain report where b: "begin_transition sample_core T_Tick sample_handle = (OK, Some (sample_token, report), sample_begun)"
    using sample_begin by blast
  have "report = report_fill sample_begun" using begin_cases [OF b] by auto
  then show ?thesis
    using b by (simp add: node_begin_def guarded_def sample_node_def sample_pending_def)
qed

theorem batch_discharge_complete_witness:
  "\<exists>n1 n2. pb_writes sample_pending (sample_node sample_begun) = Some (Inr
      [\<lparr>wr_kind = WK_PROMISE, wr_ballot = 65537, wr_slot = 0, wr_trim_id = 0, wr_trim_slot = 0,
        wr_entry = no_entry, wr_requires_barrier = True\<rparr>], n1)
    \<and> pb_persisted sample_pending n1 = (Inr (), n2)
    \<and> pb_messages sample_pending n2 = Some (Inr [\<lparr>ev_configuration_id = 1, ev_sender = 1, ev_recipient = 2,
        ev_message = Prepare 65537 1 64 SCOPE_GLOBAL\<rparr>], n2)"
proof -
  have e: "hd_effects sample_begun = sample_effects" by (simp add: sample_states)
  have k: "index_of all_write_kinds 1 = Inr WK_PROMISE" "index_of all_entry_kinds 0 = Inr EK_NONE"
    "index_of all_message_kinds 1 = Inr MK_PREPARE" "index_of all_prepare_scopes 0 = Inr SCOPE_GLOBAL"
    by code_simp+
  have w: "mapE decode_write (ef_writes (hd_effects sample_begun)) = Inr
      [\<lparr>wr_kind = WK_PROMISE, wr_ballot = 65537, wr_slot = 0, wr_trim_id = 0, wr_trim_slot = 0,
        wr_entry = no_entry, wr_requires_barrier = True\<rparr>]"
    by (simp add: e sample_effects_def sample_write_def decode_write_def decode_entry_def zero_entry_def k)
  have m: "mapE decode_envelope (ef_messages (hd_effects sample_begun)) = Inr
      [\<lparr>ev_configuration_id = 1, ev_sender = 1, ev_recipient = 2,
        ev_message = Prepare 65537 1 64 SCOPE_GLOBAL\<rparr>]"
    by (simp add: e sample_effects_def sample_wire_def decode_envelope_def decode_message_def k)
  have cr: "mapE decode_committed (ef_committed (hd_effects sample_begun)) = Inr []"
    "mapE decode_request (ef_requests (hd_effects sample_begun)) = Inr []"
    by (simp_all add: e sample_effects_def)
  from batch_discharge_complete [OF sample_core_gate sample_reachable_states(1) _ sample_node_begin _ w m cr]
  show ?thesis by (auto simp: sample_node_def)
qed

lemma sample_begun_usable:
  "nd_handle (sample_node sample_begun) = Some sample_begun" "\<not> nd_forked (sample_node sample_begun)"
  "usable (pb_token sample_pending) sample_begun" "bt_phase (hd_batch sample_begun) = BP_PENDING"
  "\<not> hd_replaying sample_begun"
  by (simp_all add: sample_node_def sample_pending_def usable_def sample_eval)

theorem exit_never_confirms_witness:
  "pb_exit False sample_pending (sample_node sample_begun) = (Inl (err AbandonedBatch []), sample_node sample_begun)
    \<and> node_begin sample_core T_Tick (sample_node sample_begun) = (Inl (err BatchPending []), sample_node sample_begun)"
proof -
  note e = exit_never_confirms [OF sample_begun_usable(1-3), of False T_Tick sample_core]
  have a: "pb_exit False sample_pending (sample_node sample_begun)
    = (Inl (err AbandonedBatch []), sample_node sample_begun)"
    using e sample_begun_usable(4,5) by (simp add: sample_pending_def)
  show ?thesis using e a sample_begun_usable(4,5) by simp
qed

definition sample_config :: node_config where
  "sample_config = \<lparr>nc_node_id = 1, nc_members = [1, 2, 3], nc_configuration_id = 1, nc_priority = 0,
     nc_read_quorum = 0, nc_write_quorum = 0, nc_election_timeout_ticks = 0,
     nc_heartbeat_interval_ticks = 0, nc_resend_interval_ticks = 0, nc_campaign_disabled = False,
     nc_gate_proposals = False\<rparr>"

definition sample_journal :: "write_record list" where
  "sample_journal = [\<lparr>wr_kind = WK_PROMISE, wr_ballot = 65537, wr_slot = 0, wr_trim_id = 0,
     wr_trim_slot = 0, wr_entry = no_entry, wr_requires_barrier = True\<rparr>]"

lemma sample_ordinals: "core_ordinals sample_core"
  by (simp add: core_ordinals_def sample_core_def)

theorem restore_folds_journal_witness:
  "\<exists>n raws. node_restore sample_core sample_config sample_journal 0 4 = (Inr n, 5)
    \<and> mapE decode_write raws = Inr sample_journal \<and> folded sample_core raws () = Some ()"
proof -
  have ok: "list_all record_in_range sample_journal"
    by (simp add: sample_journal_def record_in_range_def is_width_defs)
  have "is_ok (fst (node_restore sample_core sample_config sample_journal 0 4))" by code_simp
  then obtain n ep where n: "node_restore sample_core sample_config sample_journal 0 4 = (Inr n, ep)"
    by (cases "node_restore sample_core sample_config sample_journal 0 4") (auto simp: is_ok_iff)
  from restore_folds_journal [OF sample_ordinals ok n] n show ?thesis by auto
qed

end
