(* ===== verification/Guard.thy ===== *)
theory Guard
  imports Node
begin

section \<open>\<^verbatim>\<open>_Guard\<close> and \<^verbatim>\<open>close\<close> between threads\<close>

text \<open>
  The lock and the owner of a node, at the grain of the statements of \<^verbatim>\<open>_Guard\<close> and \<^verbatim>\<open>Node.close\<close> that
  read or write them. A thread has a stack of frames, one per call on this node that it is inside;
  a signal handler or a warning hook that runs during a call may start another on top of it, and a
  signal handler may run between any two statements, in \<^verbatim>\<open>_Guard\<close> itself too. A native
  call reads the handle when it starts and leaves its effect when it returns (\<open>Running\<close>), so without the
  lock two calls could lose an effect. \<open>gs_log\<close> lists the effects in the order they returned; it is not
  state of the program.
\<close>

type_synonym thread = nat

datatype 'c call = Use "'c handle \<Rightarrow> 'c handle" | Close

text \<open>\<^verbatim>\<open>problem: type[ForkedHandle] | type[HandleClosed] | None\<close>.\<close>

datatype problem = Is_Forked | Is_Closed

datatype 'c frame =
  Waiting "'c call"      \<comment> \<open>past the owner check, at \<^verbatim>\<open>lock.acquire()\<close>\<close>
| Acquired "'c call"     \<comment> \<open>has the lock, has not set the owner\<close>
| Checking "'c call"     \<comment> \<open>is the owner, has not looked at the box\<close>
| Running "'c handle \<Rightarrow> 'c handle" "'c handle"
| Finalizing             \<comment> \<open>\<^verbatim>\<open>close\<close> inside its finalizer\<close>
| Failing problem    \<comment> \<open>\<^verbatim>\<open>problem\<close> is set, still the owner\<close>
| Leaving "problem option" \<comment> \<open>the owner is cleared, the lock not yet released\<close>

record 'c guard_state =
  gs_owner :: "thread option"
  gs_lock :: "thread option"
  gs_node :: "'c node"
  gs_frames :: "thread \<Rightarrow> 'c frame list"
  gs_log :: "'c call list"

text \<open>The outcome of a step: nothing yet, a call that returned, or one that raised.\<close>

datatype outcome = Silent | Returned | Raised error_class

fun outcome_of :: "problem option \<Rightarrow> outcome" where
  "outcome_of None = Returned"
| "outcome_of (Some Is_Forked) = Raised ForkedHandle"
| "outcome_of (Some Is_Closed) = Raised HandleClosed"

lemma outcome_of_not_reentrant [simp]: "outcome_of e \<noteq> Raised ReentrantCall" "Raised ReentrantCall \<noteq> outcome_of e"
  by (cases e rule: outcome_of.cases; simp)+

abbreviation set_frames :: "thread \<Rightarrow> 'c frame list \<Rightarrow> 'c guard_state \<Rightarrow> 'c guard_state" where
  "set_frames t fs s \<equiv> s\<lparr>gs_frames := (gs_frames s)(t := fs)\<rparr>"

text \<open>A call starts by comparing the owner with its own thread: a thread that is the owner is refused, any
  other one goes on to \<^verbatim>\<open>lock.acquire()\<close>. It may start at any point of the thread, that is, on top of any
  frame.\<close>

inductive guard_step :: "'c guard_state \<Rightarrow> thread \<Rightarrow> outcome \<Rightarrow> 'c guard_state \<Rightarrow> bool" where
  reentrant: "gs_owner s = Some t \<Longrightarrow> guard_step s t (Raised ReentrantCall) s"
| call: "gs_owner s \<noteq> Some t
    \<Longrightarrow> guard_step s t Silent (set_frames t (Waiting c # gs_frames s t) s)"
| acquire: "gs_frames s t = Waiting c # fs \<Longrightarrow> gs_lock s = None
    \<Longrightarrow> guard_step s t Silent (set_frames t (Acquired c # fs) (s\<lparr>gs_lock := Some t\<rparr>))"
| own: "gs_frames s t = Acquired c # fs
    \<Longrightarrow> guard_step s t Silent (set_frames t (Checking c # fs) (s\<lparr>gs_owner := Some t\<rparr>))"
| forked: "gs_frames s t = Checking (Use f) # fs \<Longrightarrow> nd_forked (gs_node s)
    \<Longrightarrow> guard_step s t Silent (set_frames t (Failing Is_Forked # fs) s)"
| closed: "gs_frames s t = Checking (Use f) # fs \<Longrightarrow> \<not> nd_forked (gs_node s)
    \<Longrightarrow> nd_handle (gs_node s) = None
    \<Longrightarrow> guard_step s t Silent (set_frames t (Failing Is_Closed # fs) s)"
| start: "gs_frames s t = Checking (Use f) # fs \<Longrightarrow> \<not> nd_forked (gs_node s)
    \<Longrightarrow> nd_handle (gs_node s) = Some h
    \<Longrightarrow> guard_step s t Silent (set_frames t (Running f h # fs) s)"
| finish_call: "gs_frames s t = Running f h # fs
    \<Longrightarrow> guard_step s t Silent (set_frames t (Leaving None # fs)
          (s\<lparr>gs_owner := None, gs_node := (gs_node s)\<lparr>nd_handle := Some (f h)\<rparr>,
             gs_log := gs_log s @ [Use f]\<rparr>))"
| finalize: "gs_frames s t = Checking Close # fs
    \<Longrightarrow> guard_step s t Silent (set_frames t (Finalizing # fs)
          (s\<lparr>gs_node := snd (node_close_op (gs_node s)), gs_log := gs_log s @ [Close]\<rparr>))"
| finish_close: "gs_frames s t = Finalizing # fs
    \<Longrightarrow> guard_step s t Silent (set_frames t (Leaving None # fs) (s\<lparr>gs_owner := None\<rparr>))"
| fail: "gs_frames s t = Failing e # fs
    \<Longrightarrow> guard_step s t Silent (set_frames t (Leaving (Some e) # fs) (s\<lparr>gs_owner := None\<rparr>))"
| leave: "gs_frames s t = Leaving e # fs
    \<Longrightarrow> guard_step s t (outcome_of e) (set_frames t fs (s\<lparr>gs_lock := None\<rparr>))"

inductive_cases guard_stepE: "guard_step s t out s'"

definition guard_init :: "'c node \<Rightarrow> 'c guard_state" where
  "guard_init n = \<lparr>gs_owner = None, gs_lock = None, gs_node = n, gs_frames = (\<lambda>_. []), gs_log = []\<rparr>"

text \<open>Any number of steps by any threads.\<close>

inductive guard_reachable :: "'c guard_state \<Rightarrow> 'c guard_state \<Rightarrow> bool" for s0 where
  here: "guard_reachable s0 s0"
| step: "guard_reachable s0 s \<Longrightarrow> guard_step s t out s' \<Longrightarrow> guard_reachable s0 s'"

subsection \<open>What the lock maintains\<close>

text \<open>A frame past the acquisition of the lock, and one whose thread is the owner.\<close>

fun holds_lock :: "'c frame \<Rightarrow> bool" where
  "holds_lock (Waiting _) = False"
| "holds_lock _ = True"

fun is_owner :: "'c frame \<Rightarrow> bool" where
  "is_owner (Waiting _) = False"
| "is_owner (Acquired _) = False"
| "is_owner (Leaving _) = False"
| "is_owner _ = True"

definition in_native :: "'c guard_state \<Rightarrow> thread \<Rightarrow> bool" where
  "in_native s t = (\<exists>f h fs. gs_frames s t = Running f h # fs)"

text \<open>Of a thread's frames at most one has the lock, and only the top one can be past the setting of the
  owner: a call that starts above it is refused.\<close>

definition guard_inv :: "'c guard_state \<Rightarrow> bool" where
  "guard_inv s =
     ((\<forall>t. length (filter holds_lock (gs_frames s t)) \<le> 1)
      \<and> (\<forall>t. \<not> list_ex is_owner (tl (gs_frames s t)))
      \<and> (\<forall>t. gs_lock s = Some t \<longleftrightarrow> list_ex holds_lock (gs_frames s t))
      \<and> (\<forall>t. gs_owner s = Some t \<longleftrightarrow> list_ex is_owner (gs_frames s t))
      \<and> (\<forall>t f h fs. gs_frames s t = Running f h # fs \<longrightarrow>
            nd_handle (gs_node s) = Some h \<and> \<not> nd_forked (gs_node s)))"

lemma owner_holds_lock: "is_owner f \<Longrightarrow> holds_lock f"
  by (cases f) auto

lemma guard_inv_init: "guard_inv (guard_init n)"
  by (simp add: guard_inv_def guard_init_def)

lemma guard_inv_lock: "guard_inv s \<Longrightarrow> gs_lock s = Some t \<longleftrightarrow> list_ex holds_lock (gs_frames s t)"
  and guard_inv_owner: "guard_inv s \<Longrightarrow> gs_owner s = Some t \<longleftrightarrow> list_ex is_owner (gs_frames s t)"
  by (simp_all add: guard_inv_def)

lemma none_holds: "filter holds_lock fs = [] \<longleftrightarrow> \<not> list_ex holds_lock fs"
  by (auto simp: filter_empty_conv list_ex_iff)

lemma guard_inv_top_owner:
  assumes "guard_inv s" and "gs_frames s t = f # fs"
  shows "holds_lock f \<Longrightarrow> \<not> list_ex holds_lock fs" and "\<not> list_ex is_owner fs"
    and "holds_lock f \<Longrightarrow> gs_lock s = Some t" and "is_owner f \<longleftrightarrow> gs_owner s = Some t"
    and "f = Running g h \<Longrightarrow> nd_handle (gs_node s) = Some h \<and> \<not> nd_forked (gs_node s)"
proof -
  show "holds_lock f \<Longrightarrow> \<not> list_ex holds_lock fs"
    using assms unfolding guard_inv_def none_holds [symmetric] by (auto dest!: spec [of _ t])
  show own: "\<not> list_ex is_owner fs" using assms unfolding guard_inv_def by (metis list.sel(3))
  show "holds_lock f \<Longrightarrow> gs_lock s = Some t" using guard_inv_lock [OF assms(1), of t] assms(2) by simp
  show "is_owner f \<longleftrightarrow> gs_owner s = Some t" using guard_inv_owner [OF assms(1), of t] assms(2) own by simp
  show "f = Running g h \<Longrightarrow> nd_handle (gs_node s) = Some h \<and> \<not> nd_forked (gs_node s)"
    using assms unfolding guard_inv_def by blast
qed

lemma guard_inv_owner_is_holder: "guard_inv s \<Longrightarrow> gs_owner s = Some u \<Longrightarrow> gs_lock s = Some u"
  by (metis guard_inv_lock guard_inv_owner list_ex_iff owner_holds_lock)

text \<open>A step changes the frames of its own thread, and the lock and the owner only from or to that thread.\<close>

lemma guard_inv_update:
  assumes "guard_inv s" and "gs_frames s' = (gs_frames s)(t := fs)"
    and "length (filter holds_lock fs) \<le> 1" and "\<not> list_ex is_owner (tl fs)"
    and "gs_lock s' = Some t \<longleftrightarrow> list_ex holds_lock fs"
    and "\<And>u. u \<noteq> t \<Longrightarrow> gs_lock s' = Some u \<longleftrightarrow> gs_lock s = Some u"
    and "gs_owner s' = Some t \<longleftrightarrow> list_ex is_owner fs"
    and "\<And>u. u \<noteq> t \<Longrightarrow> gs_owner s' = Some u \<longleftrightarrow> gs_owner s = Some u"
    and "\<And>f h fs'. fs = Running f h # fs' \<Longrightarrow> nd_handle (gs_node s') = Some h \<and> \<not> nd_forked (gs_node s')"
    and "gs_node s' = gs_node s \<or> gs_lock s = Some t"
  shows "guard_inv s'"
proof -
  have "gs_frames s u \<noteq> Running f h # fs'" if "u \<noteq> t" and "gs_lock s = Some t" for u f h fs'
    using guard_inv_lock [OF assms(1), of u] that by auto
  then have "nd_handle (gs_node s') = Some h \<and> \<not> nd_forked (gs_node s')"
    if "gs_frames s' u = Running f h # fs'" for u f h fs'
    using that assms(2,9,10) guard_inv_top_owner(5) [OF assms(1), of u] by (cases "u = t") auto
  moreover have "gs_lock s' = Some u \<longleftrightarrow> list_ex holds_lock (gs_frames s' u)" for u
    using assms(2,5,6) guard_inv_lock [OF assms(1), of u] by (cases "u = t") simp_all
  moreover have "gs_owner s' = Some u \<longleftrightarrow> list_ex is_owner (gs_frames s' u)" for u
    using assms(2,7,8) guard_inv_owner [OF assms(1), of u] by (cases "u = t") simp_all
  moreover have "length (filter holds_lock (gs_frames s' u)) \<le> 1 \<and> \<not> list_ex is_owner (tl (gs_frames s' u))" for u
    using assms(1,2,3,4) unfolding guard_inv_def by (cases "u = t") simp_all
  ultimately show ?thesis unfolding guard_inv_def by blast
qed

text \<open>The steps of a thread whose top frame has the lock and keeps it.\<close>

lemma guard_inv_move:
  assumes "gs_frames s t = f # fs" and "guard_inv s" and "gs_frames s' = (gs_frames s)(t := f' # fs)"
    and "holds_lock f" and "holds_lock f'" and "gs_lock s' = gs_lock s"
    and "if is_owner f' then gs_owner s' = Some t \<or> is_owner f \<and> gs_owner s' = gs_owner s
         else gs_owner s' = None"
    and "\<And>g h. f' = Running g h \<Longrightarrow> nd_handle (gs_node s') = Some h \<and> \<not> nd_forked (gs_node s')"
  shows "guard_inv s'"
proof (rule guard_inv_update [OF assms(2,3)])
  note top = guard_inv_top_owner [OF assms(2,1)]
  have lock: "gs_lock s = Some t" by (rule top(3) [OF assms(4)])
  show "gs_owner s' = Some u \<longleftrightarrow> gs_owner s = Some u" if "u \<noteq> t" for u
    using assms(7) lock top(4) guard_inv_owner_is_holder [OF assms(2), of u] that by (auto split: if_splits)
  show "length (filter holds_lock (f' # fs)) \<le> 1"
    using top(1) [OF assms(4)] by (simp add: none_holds [symmetric])
  show "gs_owner s' = Some t \<longleftrightarrow> list_ex is_owner (f' # fs)"
    using assms(7) top(2,4) by (auto split: if_splits)
  show "gs_lock s' = Some t \<longleftrightarrow> list_ex holds_lock (f' # fs)" using lock assms(5,6) by simp
  show "\<not> list_ex is_owner (tl (f' # fs))" using top(2) by simp
qed (use assms guard_inv_top_owner [OF assms(2,1)] in auto)

lemma guard_inv_step: "guard_step s t out s' \<Longrightarrow> guard_inv s \<Longrightarrow> guard_inv s'"
proof (induction rule: guard_step.induct)
  case (call s t c)
  have "\<not> list_ex is_owner (gs_frames s t)" using guard_inv_owner [OF call(2), of t] call(1) by simp
  moreover have "length (filter holds_lock (gs_frames s t)) \<le> 1" using call(2) unfolding guard_inv_def by blast
  ultimately show ?case using call(1) guard_inv_lock [OF call(2), of t]
    by (intro guard_inv_update [OF call(2), of _ t "Waiting c # gs_frames s t"]) simp_all
next
  case (acquire s t c fs)
  note top = guard_inv_top_owner [OF acquire(3,1)]
  have "\<not> list_ex holds_lock fs" using guard_inv_lock [OF acquire(3), of t] acquire(1,2) by simp
  then show ?case using acquire(2) top(2,4)
    by (intro guard_inv_update [OF acquire(3), of _ t "Acquired c # fs"]) (simp_all add: none_holds [symmetric])
next
  case (leave s t e fs)
  note top = guard_inv_top_owner [OF leave(2,1)]
  have "\<not> list_ex is_owner fs" using top(2) .
  then have tl: "\<not> list_ex is_owner (tl fs)" by (cases fs) auto
  have "Running f h # fs' \<noteq> fs" for f h fs' using top(1) by auto
  then show ?case using top tl
    by (intro guard_inv_update [OF leave(2), of _ t fs]) (simp_all add: none_holds [symmetric])
qed (assumption | (erule (1) guard_inv_move, simp, simp_all))+

lemma guard_inv_reachable: "guard_reachable s0 s \<Longrightarrow> guard_inv s0 \<Longrightarrow> guard_inv s"
  by (induction rule: guard_reachable.induct) (auto intro: guard_inv_step)

subsection \<open>Concurrent calls take effect one after another\<close>

definition run_call :: "'c call \<Rightarrow> 'c node \<Rightarrow> 'c node" where
  "run_call c n = (case c of
     Use f \<Rightarrow> snd (guarded (\<lambda>h. (OK, (), f h)) [] n) | Close \<Rightarrow> snd (node_close_op n))"

lemma guard_log_step:
  "guard_step s t out s' \<Longrightarrow> guard_inv s \<Longrightarrow> gs_node s = fold run_call (gs_log s) n
   \<Longrightarrow> gs_node s' = fold run_call (gs_log s') n"
proof (induction rule: guard_step.induct)
  case (finish_call s t f h fs)
  then have "nd_handle (gs_node s) = Some h \<and> \<not> nd_forked (gs_node s)"
    using guard_inv_top_owner(5) [OF finish_call(2,1)] by simp
  then show ?case using finish_call by (simp add: run_call_def guarded_def)
qed (simp_all add: run_call_def)

lemma guard_log_reachable:
  "guard_reachable (guard_init n) s \<Longrightarrow> gs_node s = fold run_call (gs_log s) n"
proof (induction rule: guard_reachable.induct)
  case here
  then show ?case by (simp add: guard_init_def)
next
  case (step s t out s')
  then show ?case
    using guard_log_step guard_inv_reachable [OF step(1) guard_inv_init] by blast
qed

text \<open>C21: Calls from any number of threads take effect one after another. However their statements
  interleave, at most one thread is inside a native call, the handle it was given is still the node's
  handle, and the node is what the calls that returned make of it when they run alone, in the order
  they returned, \<^verbatim>\<open>close\<close> among them: no effect is lost and no call runs on a closed handle.\<close>

theorem guard_serializes:
  assumes "guard_reachable (guard_init n) s"
  shows "gs_node s = fold run_call (gs_log s) n
    \<and> (in_native s t \<and> in_native s u \<longrightarrow> t = u)
    \<and> (gs_frames s t = Running f h # fs \<longrightarrow> nd_handle (gs_node s) = Some h)"
proof -
  have inv: "guard_inv s" by (rule guard_inv_reachable [OF assms guard_inv_init])
  have "gs_lock s = Some v" if "in_native s v" for v
    using that guard_inv_top_owner(3) [OF inv] by (fastforce simp: in_native_def)
  moreover have "nd_handle (gs_node s) = Some h" if "gs_frames s t = Running f h # fs"
    using guard_inv_top_owner(5) [OF inv that] by simp
  ultimately show ?thesis
    using guard_log_reachable [OF assms] by (metis option.inject)
qed


subsection \<open>When every call can return\<close>

text \<open>How many steps of its own a call still needs.\<close>

fun frame_steps :: "'c frame \<Rightarrow> nat" where
  "frame_steps (Waiting _) = 5"
| "frame_steps (Acquired _) = 4"
| "frame_steps (Checking _) = 3"
| "frame_steps (Running _ _) = 2"
| "frame_steps Finalizing = 2"
| "frame_steps (Failing _) = 2"
| "frame_steps (Leaving _) = 1"

abbreviation steps_left :: "'c frame list \<Rightarrow> nat" where
  "steps_left fs \<equiv> sum_list (map frame_steps fs)"

text \<open>A thread that waits for the lock on top of a call of its own that has it.\<close>

fun self_waiting :: "'c frame list \<Rightarrow> bool" where
  "self_waiting (Waiting _ # fs) = list_ex holds_lock fs"
| "self_waiting _ = False"

lemma guard_reachable_trans: "guard_reachable s s' \<Longrightarrow> guard_reachable s0 s \<Longrightarrow> guard_reachable s0 s'"
  by (induction rule: guard_reachable.induct) (auto intro: guard_reachable.step)

text \<open>The holder of the lock can go on if its call is its top frame: it needs nothing from any other
  thread.\<close>

lemma holder_steps:
  assumes "gs_frames s t = f # fs" and "holds_lock f"
  shows "\<exists>out s' gs. guard_step s t out s' \<and> gs_frames s' = (gs_frames s)(t := gs)
    \<and> (gs = fs \<and> gs_lock s' = None
       \<or> (\<exists>f'. gs = f' # fs \<and> holds_lock f' \<and> gs_lock s' = gs_lock s \<and> frame_steps f' < frame_steps f))"
proof (cases f)
  case (Checking c)
  then show ?thesis using assms
    by (cases c; cases "nd_forked (gs_node s)"; cases "nd_handle (gs_node s)")
       (fastforce dest: guard_step.intros)+
qed (use assms in \<open>fastforce dest: guard_step.intros\<close>)+

lemma holder_returns:
  assumes "gs_frames s t = f # fs" and "holds_lock f"
  shows "\<exists>s'. guard_reachable s s' \<and> gs_frames s' = (gs_frames s)(t := fs) \<and> gs_lock s' = None"
  using assms
proof (induction "frame_steps f" arbitrary: s f rule: less_induct)
  case less
  obtain out s1 gs where s1: "guard_step s t out s1" "gs_frames s1 = (gs_frames s)(t := gs)"
      "gs = fs \<and> gs_lock s1 = None
       \<or> (\<exists>f'. gs = f' # fs \<and> holds_lock f' \<and> gs_lock s1 = gs_lock s \<and> frame_steps f' < frame_steps f)"
    using holder_steps [OF less(2,3)] by blast
  have r: "guard_reachable s s1" using s1(1) by (blast intro: guard_reachable.intros)
  from s1(3) show ?case
  proof (elim disjE exE conjE)
    assume "gs = fs" "gs_lock s1 = None"
    then show ?thesis using r s1(2) by auto
  next
    fix f' assume f': "gs = f' # fs" "holds_lock f'" "frame_steps f' < frame_steps f"
    have fr: "gs_frames s1 t = f' # fs" using s1(2) f'(1) by simp
    obtain s2 where "guard_reachable s1 s2" "gs_frames s2 = (gs_frames s1)(t := fs)" "gs_lock s2 = None"
      using less(1) [OF f'(3) fr f'(2)] by blast
    then show ?thesis using guard_reachable_trans r s1(2) by fastforce
  qed
qed

text \<open>With the lock free, the calls of a thread can return one after another.\<close>

lemma waiting_returns:
  assumes "guard_inv s" and "gs_lock s = None"
  shows "\<exists>s'. guard_reachable s s' \<and> gs_frames s' = (gs_frames s)(t := []) \<and> gs_lock s' = None"
  using assms
proof (induction "gs_frames s t" arbitrary: s)
  case Nil
  then have "gs_frames s = (gs_frames s)(t := [])" by (metis fun_upd_triv)
  then show ?case using Nil guard_reachable.here by fast
next
  case (Cons f fs)
  have fr: "gs_frames s t = f # fs" using Cons(2) by simp
  obtain c where c: "gs_frames s t = Waiting c # fs"
    using guard_inv_top_owner(3) [OF Cons(3) fr] Cons(4) fr by (cases f) auto
  let ?s1 = "set_frames t (Acquired c # fs) (s\<lparr>gs_lock := Some t\<rparr>)"
  have st: "guard_step s t Silent ?s1" by (rule guard_step.acquire [OF c Cons(4)])
  have r1: "guard_reachable s ?s1" by (rule guard_reachable.step [OF guard_reachable.here st])
  obtain s2 where s2: "guard_reachable ?s1 s2" "gs_frames s2 = (gs_frames ?s1)(t := fs)" "gs_lock s2 = None"
    using holder_returns [of ?s1 t "Acquired c" fs] by auto
  have inv2: "guard_inv s2"
    by (rule guard_inv_reachable [OF s2(1) guard_inv_step [OF st Cons(3)]])
  have "fs = gs_frames s2 t" using s2(2) by simp
  from Cons(1) [OF this inv2 s2(3)] obtain s3 where
    "guard_reachable s2 s3" "gs_frames s3 = (gs_frames s2)(t := [])" "gs_lock s3 = None" by blast
  then show ?case using guard_reachable_trans [OF s2(1) r1] guard_reachable_trans s2(2) by fastforce
qed

text \<open>Where nobody waits for itself, the lock can be released.\<close>

lemma lock_released:
  assumes "guard_inv s" and "\<And>u. \<not> self_waiting (gs_frames s u)"
  shows "\<exists>s'. guard_reachable s s' \<and> gs_lock s' = None
    \<and> (\<forall>u. gs_frames s' u = gs_frames s u \<or> gs_frames s' u = tl (gs_frames s u))"
proof (cases "gs_lock s")
  case None
  then show ?thesis by (auto intro: guard_reachable.here)
next
  case (Some u)
  obtain f fs where f: "gs_frames s u = f # fs"
    using Some guard_inv_lock [OF assms(1), of u] by (cases "gs_frames s u") auto
  have "holds_lock f"
    using Some guard_inv_lock [OF assms(1), of u] f assms(2) [of u] by (cases f) auto
  from holder_returns [OF f this] show ?thesis using f by (metis fun_upd_apply list.sel(3))
qed

text \<open>A thread that waits for itself has the lock, no thread is the owner, and no step changes that.\<close>

lemma self_waiting_lock:
  assumes "guard_inv s" and "self_waiting (gs_frames s v)"
  shows "gs_lock s = Some v" and "gs_owner s = None"
proof -
  obtain c fs where fr: "gs_frames s v = Waiting c # fs" "list_ex holds_lock fs"
    using assms(2) by (auto elim: self_waiting.elims)
  show l: "gs_lock s = Some v" using guard_inv_lock [OF assms(1), of v] fr by simp
  show "gs_owner s = None"
    using guard_inv_top_owner(4) [OF assms(1) fr(1)] guard_inv_owner_is_holder [OF assms(1)] l
    by (cases "gs_owner s") auto
qed

lemma self_waiting_step:
  assumes "guard_step s t out s'" and "guard_inv s" and "self_waiting (gs_frames s v)"
  shows "out = Silent \<and> (\<exists>c. gs_frames s' t = Waiting c # gs_frames s t) \<and> self_waiting (gs_frames s' v)"
proof -
  note l = self_waiting_lock [OF assms(2,3)]
  have top: "f = Waiting c" if "gs_frames s u = f # fs" "f = Waiting c \<or> holds_lock f" for u f fs c
  proof (rule ccontr)
    assume "f \<noteq> Waiting c"
    with that have h: "holds_lock f" by simp
    then have "u = v" using guard_inv_top_owner(3) [OF assms(2) that(1)] l(1) by simp
    with assms(3) that(1) h show False by (cases f) auto
  qed
  show ?thesis using assms(1)
  proof cases
    case (call c)
    then show ?thesis using assms(3) by (cases "gs_frames s v" rule: self_waiting.cases) (auto split: if_splits)
  qed (use l top in \<open>fastforce+\<close>)
qed

lemma self_waiting_reachable:
  "guard_reachable s s' \<Longrightarrow> guard_inv s \<Longrightarrow> self_waiting (gs_frames s v) \<Longrightarrow> self_waiting (gs_frames s' v)"
  by (induction rule: guard_reachable.induct) (use self_waiting_step guard_inv_reachable in blast)+

lemma self_waiting_arises:
  assumes "guard_step s t out s'" and "guard_inv s" and "self_waiting (gs_frames s' t)"
    and "\<not> self_waiting (gs_frames s t)"
  shows "\<exists>f fs. gs_frames s t = f # fs \<and> holds_lock f \<and> \<not> is_owner f"
  using assms(1)
proof cases
  case (call c)
  then obtain f fs where f: "gs_frames s t = f # fs" "list_ex holds_lock (f # fs)"
    using assms(3) by (cases "gs_frames s t") auto
  have "holds_lock f" using f assms(4) by (cases f) auto
  then show ?thesis using f guard_inv_top_owner(4) [OF assms(2) f(1)] call(3) by auto
next
  case (leave e fs)
  then show ?thesis using assms(3) guard_inv_top_owner(1) [OF assms(2) leave(3)]
    by (auto elim: self_waiting.elims)
qed (use assms(3,4) in auto)


subsection \<open>Forking\<close>

text \<open>\<^verbatim>\<open>os.fork()\<close> by a thread: the child has that thread alone, the memory as it was, the lock included,
  and \<^verbatim>\<open>_note_fork\<close> has moved the fork generation on.\<close>

definition fork_child :: "thread \<Rightarrow> 'c guard_state \<Rightarrow> 'c guard_state" where
  "fork_child t s = s\<lparr>gs_node := (gs_node s)\<lparr>nd_forked := True\<rparr>,
     gs_frames := (\<lambda>u. if u = t then gs_frames s t else [])\<rparr>"

text \<open>A thread that is outside any call, or whose calls all wait for the lock.\<close>

definition outside :: "'c frame list \<Rightarrow> bool" where
  "outside fs = (\<not> list_ex holds_lock fs)"

lemma stuck_child_step:
  assumes "guard_step s v out s'" and "gs_lock s = Some u" and "\<And>w. outside (gs_frames s w)"
  shows "out \<in> {Silent, Raised ReentrantCall} \<and> gs_lock s' = Some u \<and> outside (gs_frames s' w)"
  using assms(1,2) assms(3) [of v] assms(3) [of w] by (cases rule: guard_step.cases) (auto simp: outside_def)

lemma stuck_child_reachable:
  assumes "guard_reachable s s'" and "gs_lock s = Some u" and "\<And>w. outside (gs_frames s w)"
  shows "gs_lock s' = Some u \<and> outside (gs_frames s' w)"
  using assms(1)
proof (induction arbitrary: w rule: guard_reachable.induct)
  case here
  then show ?case using assms(2,3) by simp
next
  case (step s' v out s'')
  then show ?case using stuck_child_step [of s' v out s'' u w] by blast
qed

text \<open>C24: A limit of the fork check. It is made with the lock held, and a fork copies a held lock. If another
  thread of the parent was inside a call when a thread forked, no call on the node ever gets past the
  lock in the child: none returns, and none raises the documented \<^verbatim>\<open>ForkedHandle\<close>.\<close>

theorem fork_during_call_hangs:
  assumes "guard_reachable (guard_init n) s" and "gs_lock s = Some u" and "t \<noteq> u"
    and "guard_reachable (fork_child t s) s'" and "guard_step s' v out s''"
  shows "out \<noteq> Raised ForkedHandle \<and> out \<noteq> Returned \<and> \<not> in_native s'' v \<and> gs_lock s'' = Some u"
proof -
  have inv: "guard_inv s" by (rule guard_inv_reachable [OF assms(1) guard_inv_init])
  have w: "outside (gs_frames s t)"
    using guard_inv_lock [OF inv, of t] assms(2,3) by (simp add: outside_def)
  have child: "gs_lock s' = Some u \<and> outside (gs_frames s' w)" for w
    by (rule stuck_child_reachable [OF assms(4)]) (use assms(2) w in \<open>simp_all add: fork_child_def outside_def\<close>)
  have "out \<in> {Silent, Raised ReentrantCall} \<and> gs_lock s'' = Some u \<and> outside (gs_frames s'' v)"
    by (rule stuck_child_step [OF assms(5)]) (simp_all add: child)
  then show ?thesis by (auto simp: in_native_def outside_def)
qed

subsection \<open>Concrete runs\<close>

text \<open>Thread 0 makes a call, up to the native call itself; thread 1 waits for it.\<close>

definition sample_use :: "unit handle \<Rightarrow> unit handle" where
  "sample_use h = h\<lparr>hd_generation := hd_generation h + 1\<rparr>"

definition sample_guard :: "(thread \<Rightarrow> unit frame list) \<Rightarrow> unit guard_state" where
  "sample_guard fs = \<lparr>gs_owner = Some 0, gs_lock = Some 0, gs_node = sample_node sample_handle,
     gs_frames = fs, gs_log = []\<rparr>"

definition sample_running :: "unit guard_state" where
  "sample_running = sample_guard ((\<lambda>_. [])(0 := [Running sample_use sample_handle]))"

lemma sample_running_reachable: "guard_reachable (guard_init (sample_node sample_handle)) sample_running"
proof -
  let ?n = "sample_node sample_handle" and ?c = "Use sample_use"
  let ?s0 = "guard_init ?n"
  let ?s1 = "set_frames 0 (Waiting ?c # gs_frames ?s0 0) ?s0"
  let ?s2 = "set_frames 0 (Acquired ?c # []) (?s1\<lparr>gs_lock := Some 0\<rparr>)"
  let ?s3 = "set_frames 0 (Checking ?c # []) (?s2\<lparr>gs_owner := Some 0\<rparr>)"
  let ?s4 = "set_frames 0 (Running sample_use sample_handle # []) ?s3"
  have r1: "guard_step ?s0 0 Silent ?s1" by (rule guard_step.call) (simp_all add: guard_init_def)
  have r2: "guard_step ?s1 0 Silent ?s2" by (rule guard_step.acquire) (simp_all add: guard_init_def)
  have r3: "guard_step ?s2 0 Silent ?s3" by (rule guard_step.own) simp
  have r4: "guard_step ?s3 0 Silent ?s4"
    by (rule guard_step.start) (simp_all add: guard_init_def sample_node_def)
  note r = guard_reachable.step [OF guard_reachable.here r1]
  have "guard_reachable ?s0 ?s4"
    by (rule guard_reachable.step [OF guard_reachable.step [OF guard_reachable.step [OF r r2] r3] r4])
  moreover have "?s4 = sample_running"
    by (simp add: sample_running_def sample_guard_def guard_init_def fun_eq_iff)
  ultimately show ?thesis by simp
qed

lemma sample_returns:
  "guard_step sample_running 0 Silent (set_frames 0 [Leaving None] (sample_running\<lparr>gs_owner := None,
     gs_node := sample_node (sample_use sample_handle), gs_log := [Use sample_use]\<rparr>))"
  using guard_step.finish_call [of sample_running 0 sample_use sample_handle "[]"]
  by (simp add: sample_running_def sample_guard_def sample_node_def)

lemma sample_reentrant: "guard_step sample_running 0 (Raised ReentrantCall) sample_running"
  by (rule guard_step.reentrant) (simp_all add: sample_running_def sample_guard_def)

theorem guard_serializes_witness:
  "nd_handle (gs_node sample_running) = Some sample_handle
    \<and> gs_node sample_running = fold run_call [] (sample_node sample_handle)"
  using guard_serializes [OF sample_running_reachable, of 0 0 sample_use sample_handle "[]"]
  by (simp add: sample_running_def sample_guard_def)


text \<open>Thread 0 has just acquired the lock; a handler that uses the node there deadlocks it.\<close>

definition sample_acquired :: "unit guard_state" where
  "sample_acquired = \<lparr>gs_owner = None, gs_lock = Some 0, gs_node = sample_node sample_handle,
     gs_frames = (\<lambda>_. [])(0 := [Acquired (Use sample_use)]), gs_log = []\<rparr>"

lemma sample_acquired_reachable: "guard_reachable (guard_init (sample_node sample_handle)) sample_acquired"
proof -
  let ?s0 = "guard_init (sample_node sample_handle)" and ?c = "Use sample_use"
  let ?s1 = "set_frames 0 (Waiting ?c # gs_frames ?s0 0) ?s0"
  have "guard_step ?s0 0 Silent ?s1" by (rule guard_step.call) (simp add: guard_init_def)
  moreover have "guard_step ?s1 0 Silent (set_frames 0 (Acquired ?c # []) (?s1\<lparr>gs_lock := Some 0\<rparr>))"
    by (rule guard_step.acquire) (simp_all add: guard_init_def)
  ultimately have "guard_reachable ?s0 (set_frames 0 (Acquired ?c # []) (?s1\<lparr>gs_lock := Some 0\<rparr>))"
    by (meson guard_reachable.here guard_reachable.step)
  then show ?thesis by (simp add: sample_acquired_def guard_init_def fun_upd_def cong: if_cong)
qed


theorem fork_during_call_hangs_witness:
  "\<exists>s''. guard_step (fork_child 1 sample_running) 1 Silent s'' \<and> gs_lock s'' = Some 0 \<and> \<not> in_native s'' 1"
proof -
  let ?s = "fork_child 1 sample_running"
  have st: "guard_step ?s 1 Silent (set_frames 1 (Waiting Close # gs_frames ?s 1) ?s)"
    by (rule guard_step.call) (simp_all add: fork_child_def sample_running_def sample_guard_def)
  have l: "gs_lock sample_running = Some 0" by (simp add: sample_running_def sample_guard_def)
  show ?thesis
    using fork_during_call_hangs [OF sample_running_reachable l _ guard_reachable.here st] st by auto
qed

end
