(* ===== verification/Program.thy ===== *)
theory Program
  imports Prelude Errors
begin

section \<open>Programs over a state\<close>

text \<open>
  The methods of a session read and change many objects, may raise, and may loop for ever. Such a
  method is a program: from a state it gives \<open>None\<close> when it does not end, and otherwise the value it
  returned or the exception it raised, and the state after it. The combinators are Python's: one
  statement after another, \<^verbatim>\<open>try ... finally\<close>, \<^verbatim>\<open>try ... except\<close> and a \<^verbatim>\<open>for\<close> loop over a list.
\<close>

type_synonym ('s, 'a) prog = "'s \<Rightarrow> ((exn + 'a) \<times> 's) option"

definition ret :: "'a \<Rightarrow> ('s, 'a) prog" where "ret x s = Some (Inr x, s)"
definition raise :: "exn \<Rightarrow> ('s, 'a) prog" where "raise e s = Some (Inl e, s)"

definition seq :: "('s, 'a) prog \<Rightarrow> ('a \<Rightarrow> ('s, 'b) prog) \<Rightarrow> ('s, 'b) prog" where
  "seq m f s = (case m s of
     None \<Rightarrow> None | Some (Inl e, s') \<Rightarrow> Some (Inl e, s') | Some (Inr x, s') \<Rightarrow> f x s')"

text \<open>An exception of the \<^verbatim>\<open>finally\<close> block replaces the one on its way.\<close>

definition finally_do :: "('s, 'a) prog \<Rightarrow> ('s, unit) prog \<Rightarrow> ('s, 'a) prog" where
  "finally_do m fin s = (case m s of
     None \<Rightarrow> None
   | Some (r, s') \<Rightarrow> (case fin s' of
       None \<Rightarrow> None | Some (Inl e, s'') \<Rightarrow> Some (Inl e, s'') | Some (Inr _, s'') \<Rightarrow> Some (r, s'')))"

definition except_do :: "('s, 'a) prog \<Rightarrow> (exn \<Rightarrow> bool) \<Rightarrow> ('s, 'a) prog \<Rightarrow> ('s, 'a) prog" where
  "except_do m caught handler s = (case m s of
     Some (Inl e, s') \<Rightarrow> (if caught e then handler s' else Some (Inl e, s')) | r \<Rightarrow> r)"

fun for_each :: "'x list \<Rightarrow> ('x \<Rightarrow> ('s, unit) prog) \<Rightarrow> ('s, unit) prog" where
  "for_each [] body = ret ()"
| "for_each (x # xs) body = seq (body x) (\<lambda>_. for_each xs body)"

definition get :: "('s \<Rightarrow> 'a) \<Rightarrow> ('s, 'a) prog" where "get f s = Some (Inr (f s), s)"
definition modify :: "('s \<Rightarrow> 's) \<Rightarrow> ('s, unit) prog" where "modify f s = Some (Inr (), f s)"
definition lift_result :: "exn + 'a \<Rightarrow> ('s, 'a) prog" where "lift_result r s = Some (r, s)"

text \<open>A call on one object of the state: one that always returns, and one that may not.\<close>

definition call_on :: "('s \<Rightarrow> 'o) \<Rightarrow> ('o \<Rightarrow> 's \<Rightarrow> 's) \<Rightarrow> ('o \<Rightarrow> (exn + 'a) \<times> 'o) \<Rightarrow> ('s, 'a) prog" where
  "call_on sel upd f s = (case f (sel s) of (r, x) \<Rightarrow> Some (r, upd x s))"

definition run_on :: "('s \<Rightarrow> 'o) \<Rightarrow> ('o \<Rightarrow> 's \<Rightarrow> 's) \<Rightarrow> ('o, 'a) prog \<Rightarrow> ('s, 'a) prog" where
  "run_on sel upd f s = (case f (sel s) of None \<Rightarrow> None | Some (r, x) \<Rightarrow> Some (r, upd x s))"

named_theorems program_simps

lemmas program_defs [program_simps] = ret_def raise_def get_def modify_def lift_result_def

lemma seq_step [program_simps]:
  "m s = Some (Inr x, s') \<Longrightarrow> seq m f s = f x s'"
  "m s = Some (Inl e, s') \<Longrightarrow> seq m f s = Some (Inl e, s')"
  "m s = None \<Longrightarrow> seq m f s = None"
  by (simp_all add: seq_def)

lemma seq_Some_iff:
  "seq m f s = Some (r, s') \<longleftrightarrow>
     (\<exists>e. m s = Some (Inl e, s') \<and> r = Inl e) \<or> (\<exists>x s1. m s = Some (Inr x, s1) \<and> f x s1 = Some (r, s'))"
  by (auto simp: seq_def split: option.splits prod.splits sum.splits)

lemma seq_InrE:
  assumes "seq m f s = Some (Inr y, s')"
  obtains x s1 where "m s = Some (Inr x, s1)" and "f x s1 = Some (Inr y, s')"
  using assms by (auto simp: seq_Some_iff)

lemma finally_Some_iff:
  "finally_do m fin s = Some (r, s') \<longleftrightarrow>
     (\<exists>r1 s1. m s = Some (r1, s1) \<and> (fin s1 = Some (Inr (), s') \<and> r = r1 \<or> (\<exists>e. fin s1 = Some (Inl e, s') \<and> r = Inl e)))"
  by (auto simp: finally_do_def split: option.splits prod.splits sum.splits)

lemma except_Some_iff:
  "except_do m caught handler s = Some (r, s') \<longleftrightarrow>
     (m s = Some (r, s') \<and> (\<forall>e. r = Inl e \<longrightarrow> \<not> caught e))
     \<or> (\<exists>e s1. m s = Some (Inl e, s1) \<and> caught e \<and> handler s1 = Some (r, s'))"
  by (auto simp: except_do_def split: option.splits prod.splits sum.splits)

text \<open>
  What every part of a program keeps, the whole keeps, whichever way it is left. \<open>keeps P m\<close> is that
  rule's assertion; a state predicate that every call keeps is an invariant of the methods built of them.
\<close>

definition keeps :: "('s \<Rightarrow> bool) \<Rightarrow> ('s, 'a) prog \<Rightarrow> bool" where
  "keeps P m = (\<forall>s r s'. P s \<longrightarrow> m s = Some (r, s') \<longrightarrow> P s')"

named_theorems keeps_intros

lemma keepsD: "keeps P m \<Longrightarrow> m s = Some (r, s') \<Longrightarrow> P s \<Longrightarrow> P s'"
  by (auto simp: keeps_def)

lemma keeps_pure [keeps_intros]:
  "keeps P (ret x)" "keeps P (raise e)" "keeps P (get f)" "keeps P (lift_result r)"
  by (simp_all add: keeps_def program_simps)

lemma keeps_seq [keeps_intros]: "keeps P m \<Longrightarrow> (\<And>x. keeps P (f x)) \<Longrightarrow> keeps P (seq m f)"
  unfolding keeps_def seq_Some_iff by blast

lemma keeps_finally [keeps_intros]: "keeps P m \<Longrightarrow> keeps P fin \<Longrightarrow> keeps P (finally_do m fin)"
  unfolding keeps_def finally_Some_iff by blast

lemma keeps_except [keeps_intros]: "keeps P m \<Longrightarrow> keeps P h \<Longrightarrow> keeps P (except_do m c h)"
  unfolding keeps_def except_Some_iff by blast

lemma keeps_for_each [keeps_intros]: "(\<And>x. keeps P (body x)) \<Longrightarrow> keeps P (for_each xs body)"
  by (induction xs) (auto intro: keeps_intros)

lemma keeps_if [keeps_intros]: "keeps P m \<Longrightarrow> keeps P m' \<Longrightarrow> keeps P (if b then m else m')"
  by simp

lemma keeps_modify: "(\<And>s. P s \<Longrightarrow> P (f s)) \<Longrightarrow> keeps P (modify f)"
  by (simp add: keeps_def modify_def)

lemma keeps_call_on:
  "(\<And>s r x. P s \<Longrightarrow> f (sel s) = (r, x) \<Longrightarrow> P (upd x s)) \<Longrightarrow> keeps P (call_on sel upd f)"
  by (auto simp: keeps_def call_on_def split: prod.splits)

lemma keeps_run_on:
  "(\<And>s r x. P s \<Longrightarrow> f (sel s) = Some (r, x) \<Longrightarrow> P (upd x s)) \<Longrightarrow> keeps P (run_on sel upd f)"
  by (auto simp: keeps_def run_on_def split: prod.splits option.splits)

end
