(* ===== verification/Session.thy ===== *)
theory Session
  imports Program Node Codec Journal
begin

section \<open>\<^verbatim>\<open>session.py\<close>: the durable participant\<close>

text \<open>
  A \<^verbatim>\<open>Session\<close> holds a node and the adapters its caller supplies: a journal, a history, a transport and
  a clock, each an object of a type of its own. What their methods do is a record of functions; a
  method may raise and changes only its own object. Times are exact rationals: the rounding of
  Python's floats is not modelled.
\<close>

record ('c, 'j, 'h, 't, 'k) adapters =
  ad_core :: "'c core_ops"
  ad_fingerprint :: int
  ad_open :: "node_id \<Rightarrow> int \<Rightarrow> 'j \<Rightarrow> (exn + unit) \<times> 'j"
  ad_append :: "write_record list \<Rightarrow> 'j \<Rightarrow> (exn + unit) \<times> 'j"
  ad_sync :: "'j \<Rightarrow> (exn + unit) \<times> 'j"
  ad_replay :: "'j \<Rightarrow> (exn + write_record list) \<times> 'j"
  ad_close_journal :: "'j \<Rightarrow> (exn + unit) \<times> 'j"
  ad_record :: "slot \<Rightarrow> bytes \<Rightarrow> int \<Rightarrow> 'h \<Rightarrow> (exn + unit) \<times> 'h"
  ad_read :: "slot \<Rightarrow> int \<Rightarrow> 'h \<Rightarrow> (exn + (slot \<times> bytes \<times> int) list) \<times> 'h"
  ad_cursor :: "'h \<Rightarrow> slot"
  ad_close_history :: "'h \<Rightarrow> (exn + unit) \<times> 'h"
  ad_send :: "node_id \<Rightarrow> bytes \<Rightarrow> 't \<Rightarrow> (exn + unit) \<times> 't"
  ad_receive :: "rat \<Rightarrow> 't \<Rightarrow> (exn + (node_id \<times> bytes) option) \<times> 't"
  ad_close_transport :: "'t \<Rightarrow> (exn + unit) \<times> 't"
  ad_monotonic :: "'k \<Rightarrow> (exn + rat) \<times> 'k"
  ad_sleep :: "rat \<Rightarrow> 'k \<Rightarrow> (exn + unit) \<times> 'k"

record ('c, 'j, 'h, 't, 'k) session =
  sn_node :: "'c node"
  sn_journal :: 'j
  sn_history :: 'h
  sn_transport :: 't
  sn_clock :: 'k
  sn_tick_interval :: rat
  sn_applied_through :: slot
  sn_last_tick :: rat

type_synonym ('c, 'j, 'h, 't, 'k, 'a) session_prog = "(('c, 'j, 'h, 't, 'k) session, 'a) prog"

subsection \<open>Tuning\<close>

text \<open>Python's \<^verbatim>\<open>round\<close> of a rational: to the nearest integer, and to the even one of two.\<close>

definition py_round :: "rat \<Rightarrow> int" where
  "py_round x =
     (let f = \<lfloor>x\<rfloor>; d = x - of_int f
      in if d < 1 / 2 then f else if 1 / 2 < d then f + 1 else if even f then f else f + 1)"

text \<open>The module's defaults, in seconds; an option left out is the engine's own default in ticks.\<close>

definition DEFAULT_TICK_INTERVAL :: rat where "DEFAULT_TICK_INTERVAL = 1 / 20"
definition DEFAULT_ELECTION_TIMEOUT :: rat where "DEFAULT_ELECTION_TIMEOUT = 1 / 2"
definition DEFAULT_HEARTBEAT_INTERVAL :: rat where "DEFAULT_HEARTBEAT_INTERVAL = 3 / 20"
definition DEFAULT_RESEND_INTERVAL :: rat where "DEFAULT_RESEND_INTERVAL = 1 / 2"

definition to_ticks :: "rat option \<Rightarrow> rat \<Rightarrow> int" where
  "to_ticks seconds tick_interval =
     (case seconds of None \<Rightarrow> 0 | Some x \<Rightarrow> max 1 (py_round (x / tick_interval)))"

definition session_node_options :: "rat \<Rightarrow> session_options \<Rightarrow> node_options" where
  "session_node_options tick_interval options =
     \<lparr>no_priority = so_priority options,
      no_read_quorum = so_read_quorum options,
      no_write_quorum = so_write_quorum options,
      no_election_timeout_ticks =
        map_option (\<lambda>x. to_ticks (Some x) tick_interval) (so_election_timeout options),
      no_heartbeat_interval_ticks =
        map_option (\<lambda>x. to_ticks (Some x) tick_interval) (so_heartbeat_interval options),
      no_resend_interval_ticks =
        map_option (\<lambda>x. to_ticks (Some x) tick_interval) (so_resend_interval options),
      no_campaign_disabled = so_campaign_disabled options,
      no_gate_proposals = so_gate_proposals options\<rparr>"

text \<open>\<^verbatim>\<open>Node(..., **tuning)\<close>: an absent option is the parameter's default.\<close>

definition opt_get :: "'a \<Rightarrow> 'a option \<Rightarrow> 'a" where
  "opt_get dflt v = (case v of None \<Rightarrow> dflt | Some x \<Rightarrow> x)"

definition node_config_of :: "node_id \<Rightarrow> node_id list \<Rightarrow> int \<Rightarrow> node_options \<Rightarrow> node_config" where
  "node_config_of node_id members configuration_id o' =
     \<lparr>nc_node_id = node_id, nc_members = members, nc_configuration_id = configuration_id,
      nc_priority = opt_get 0 (no_priority o'), nc_read_quorum = opt_get 0 (no_read_quorum o'),
      nc_write_quorum = opt_get 0 (no_write_quorum o'),
      nc_election_timeout_ticks = opt_get 0 (no_election_timeout_ticks o'),
      nc_heartbeat_interval_ticks = opt_get 0 (no_heartbeat_interval_ticks o'),
      nc_resend_interval_ticks = opt_get 0 (no_resend_interval_ticks o'),
      nc_campaign_disabled = opt_get False (no_campaign_disabled o'),
      nc_gate_proposals = opt_get False (no_gate_proposals o')\<rparr>"

text \<open>\<^verbatim>\<open>_check_timeout\<close>: the finite, non-negative duration it lets through.\<close>

definition check_timeout :: "pyfloat \<Rightarrow> exn + rat" where
  "check_timeout timeout = (case timeout of
     Fin x \<Rightarrow> (if x < 0 then Inl (err InvalidTimeout []) else Inr x)
   | _ \<Rightarrow> Inl (err InvalidTimeout []))"

subsection \<open>Calls on the objects of a session\<close>

definition on_node :: "('c, 'a) node_op \<Rightarrow> ('c, 'j, 'h, 't, 'k, 'a) session_prog" where
  "on_node = call_on sn_node (\<lambda>n. sn_node_update (\<lambda>_. n))"

definition on_batch :: "('c node, 'a) prog \<Rightarrow> ('c, 'j, 'h, 't, 'k, 'a) session_prog" where
  "on_batch = run_on sn_node (\<lambda>n. sn_node_update (\<lambda>_. n))"

definition on_journal :: "('j \<Rightarrow> (exn + 'a) \<times> 'j) \<Rightarrow> ('c, 'j, 'h, 't, 'k, 'a) session_prog" where
  "on_journal = call_on sn_journal (\<lambda>j. sn_journal_update (\<lambda>_. j))"

definition on_history :: "('h \<Rightarrow> (exn + 'a) \<times> 'h) \<Rightarrow> ('c, 'j, 'h, 't, 'k, 'a) session_prog" where
  "on_history = call_on sn_history (\<lambda>h. sn_history_update (\<lambda>_. h))"

definition on_transport :: "('t \<Rightarrow> (exn + 'a) \<times> 't) \<Rightarrow> ('c, 'j, 'h, 't, 'k, 'a) session_prog" where
  "on_transport = call_on sn_transport (\<lambda>t. sn_transport_update (\<lambda>_. t))"

definition on_clock :: "('k \<Rightarrow> (exn + 'a) \<times> 'k) \<Rightarrow> ('c, 'j, 'h, 't, 'k, 'a) session_prog" where
  "on_clock = call_on sn_clock (\<lambda>k. sn_clock_update (\<lambda>_. k))"

subsection \<open>Discharging a batch\<close>

definition session_release :: "('c, 'j, 'h, 't, 'k) adapters \<Rightarrow> committed \<Rightarrow> ('c, 'j, 'h, 't, 'k, unit) session_prog" where
  "session_release ad entry =
     seq (on_history (ad_record ad (cm_slot entry) (le_body (cm_entry entry))
            (entry_kind_value (le_kind (cm_entry entry)))))
       (\<lambda>_. modify (sn_applied_through_update (\<lambda>_. cm_slot entry)))"

definition is_transport_error :: "exn \<Rightarrow> bool" where
  "is_transport_error e = (exn_class e = Some TransportError)"

definition session_send :: "('c, 'j, 'h, 't, 'k) adapters \<Rightarrow> envelope \<Rightarrow> ('c, 'j, 'h, 't, 'k, unit) session_prog" where
  "session_send ad envelope =
     seq (lift_result (encode (ad_fingerprint ad) envelope)) (\<lambda>frame.
       except_do (on_transport (ad_send ad (ev_recipient envelope) frame)) is_transport_error (ret ()))"

definition session_serve :: "('c, 'j, 'h, 't, 'k) adapters \<Rightarrow> serve_range \<Rightarrow> ('c, 'j, 'h, 't, 'k, unit) session_prog" where
  "session_serve ad request =
     seq (on_node (node_state (ad_core ad))) (\<lambda>state.
     seq (on_history (ad_read ad (sr_first request) (sr_count request))) (\<lambda>items.
       for_each items (\<lambda>(slot, payload, kind).
         seq (lift_result (call_enum entry_kind_value all_entry_kinds kind)) (\<lambda>k.
           session_send ad \<lparr>ev_configuration_id = ns_configuration_id state,
             ev_sender = ns_node_id state, ev_recipient = sr_peer request,
             ev_message = Commit slot (mk_entry k payload)\<rparr>))))"

definition discharge_body :: "('c, 'j, 'h, 't, 'k) adapters \<Rightarrow> pending_batch \<Rightarrow> ('c, 'j, 'h, 't, 'k, unit) session_prog" where
  "discharge_body ad b =
     seq (on_batch (pb_writes b)) (\<lambda>records.
     seq (if records \<noteq> [] then seq (on_journal (ad_append ad records)) (\<lambda>_. on_journal (ad_sync ad))
          else ret ()) (\<lambda>_.
     seq (on_node (pb_persisted b)) (\<lambda>_.
     seq (seq (on_batch (pb_committed b)) (\<lambda>entries. for_each entries (session_release ad))) (\<lambda>_.
     seq (seq (on_batch (pb_messages b)) (\<lambda>envelopes. for_each envelopes (session_send ad))) (\<lambda>_.
       seq (on_batch (pb_requests b)) (\<lambda>requests. for_each requests (session_serve ad)))))))"

definition session_discharge :: "('c, 'j, 'h, 't, 'k) adapters \<Rightarrow> pending_batch \<Rightarrow> ('c, 'j, 'h, 't, 'k, unit) session_prog" where
  "session_discharge ad b =
     seq (finally_do (discharge_body ad b) (on_node (pb_finish b))) (\<lambda>_.
     seq (get sn_applied_through) (\<lambda>applied.
       if applied \<noteq> 0 then on_node (node_advance_memory_floor (ad_core ad) applied) else ret ()))"

text \<open>\<^verbatim>\<open>with self._node.<transition>() as batch: <body>\<close>.\<close>

definition with_batch :: "('c, pending_batch) node_op \<Rightarrow> (pending_batch \<Rightarrow> ('c, 'j, 'h, 't, 'k, 'a) session_prog)
    \<Rightarrow> ('c, 'j, 'h, 't, 'k, 'a) session_prog" where
  "with_batch begin body = seq (on_node begin) (\<lambda>b s.
     case body b s of
       None \<Rightarrow> None
     | Some (r, s') \<Rightarrow> seq (on_node (pb_exit (\<not> is_ok r) b)) (\<lambda>_. lift_result r) s')"

subsection \<open>Driving the node\<close>

definition monotonic :: "('c, 'j, 'h, 't, 'k) adapters \<Rightarrow> ('c, 'j, 'h, 't, 'k, rat) session_prog" where
  "monotonic ad = on_clock (ad_monotonic ad)"

definition maybe_tick :: "('c, 'j, 'h, 't, 'k) adapters \<Rightarrow> ('c, 'j, 'h, 't, 'k, unit) session_prog" where
  "maybe_tick ad =
     seq (monotonic ad) (\<lambda>now.
     seq (get (\<lambda>s. now - sn_last_tick s < sn_tick_interval s)) (\<lambda>early.
       if early then ret ()
       else seq (modify (sn_last_tick_update (\<lambda>_. now))) (\<lambda>_.
         with_batch (node_tick (ad_core ad)) (session_discharge ad))))"

definition session_campaign :: "('c, 'j, 'h, 't, 'k) adapters \<Rightarrow> ('c, 'j, 'h, 't, 'k, unit) session_prog" where
  "session_campaign ad = with_batch (node_campaign (ad_core ad)) (session_discharge ad)"

text \<open>One round of the loop of \<^verbatim>\<open>poll\<close>: how many frames it processed, and whether the loop returns.\<close>

definition poll_round :: "('c, 'j, 'h, 't, 'k) adapters \<Rightarrow> rat \<Rightarrow> rat \<Rightarrow> ('c, 'j, 'h, 't, 'k, nat \<times> bool) session_prog" where
  "poll_round ad timeout deadline =
     seq (maybe_tick ad) (\<lambda>_.
     seq (monotonic ad) (\<lambda>now.
       let remaining = deadline - now in
       seq (on_transport (ad_receive ad (max remaining 0))) (\<lambda>received. case received of
         None \<Rightarrow>
           if remaining \<le> 0 then ret (0, True)
           else seq (get sn_tick_interval) (\<lambda>tick.
             seq (on_clock (ad_sleep ad (min tick remaining))) (\<lambda>_. ret (0, False)))
       | Some (peer, frame) \<Rightarrow>
           seq (lift_result (decode (ad_fingerprint ad) frame)) (\<lambda>envelope.
           seq (with_batch (node_step (ad_core ad) envelope) (session_discharge ad)) (\<lambda>_.
             if 0 < timeout then seq (monotonic ad) (\<lambda>now. ret (1, deadline \<le> now)) else ret (1, False))))))"

partial_function (option) poll_loop ::
  "('c, 'j, 'h, 't, 'k) adapters \<Rightarrow> rat \<Rightarrow> rat \<Rightarrow> nat \<Rightarrow> ('c, 'j, 'h, 't, 'k, nat) session_prog" where
  "poll_loop ad timeout deadline processed s =
     (case poll_round ad timeout deadline s of
        None \<Rightarrow> None
      | Some (r, s') \<Rightarrow> (case r of
          Inl e \<Rightarrow> Some (Inl e, s')
        | Inr (k, stop) \<Rightarrow>
            if stop then Some (Inr (processed + k), s') else poll_loop ad timeout deadline (processed + k) s'))"

declare poll_loop.simps [code]

definition session_poll :: "('c, 'j, 'h, 't, 'k) adapters \<Rightarrow> pyfloat \<Rightarrow> ('c, 'j, 'h, 't, 'k, nat) session_prog" where
  "session_poll ad timeout =
     seq (lift_result (check_timeout timeout)) (\<lambda>timeout.
     seq (monotonic ad) (\<lambda>now. poll_loop ad timeout (now + timeout) 0))"

subsection \<open>Reading entries\<close>

definition is_trimmed :: "exn \<Rightarrow> bool" where "is_trimmed e = (exn_class e = Some Trimmed)"

definition entry_at :: "('c, 'j, 'h, 't, 'k) adapters \<Rightarrow> slot \<Rightarrow> ('c, 'j, 'h, 't, 'k, log_entry option) session_prog" where
  "entry_at ad slot =
     seq (on_history (ad_read ad slot 1)) (\<lambda>retained.
       case find (\<lambda>(found, _). found = slot) retained of
         Some (_, payload, kind) \<Rightarrow>
           seq (lift_result (call_enum entry_kind_value all_entry_kinds kind)) (\<lambda>k.
             ret (Some (mk_entry k payload)))
       | None \<Rightarrow>
           except_do
             (seq (on_node (node_read_decided (ad_core ad) slot 1)) (\<lambda>decided.
                ret (case decided of [] \<Rightarrow> None | d # _ \<Rightarrow> Some (cm_entry d))))
             is_trimmed (ret None))"

text \<open>The list of the generator \<^verbatim>\<open>entries\<close>, when nothing else runs between its items.\<close>

fun entries_from :: "('c, 'j, 'h, 't, 'k) adapters \<Rightarrow> slot list \<Rightarrow> ('c, 'j, 'h, 't, 'k, committed list) session_prog" where
  "entries_from ad [] = ret []"
| "entries_from ad (position # rest) =
     seq (entry_at ad position) (\<lambda>found. case found of
       None \<Rightarrow> ret []
     | Some entry \<Rightarrow>
         seq (entries_from ad rest) (\<lambda>es. ret (\<lparr>cm_slot = position, cm_entry = entry\<rparr> # es)))"

definition last_committed :: "('c, 'j, 'h, 't, 'k) adapters \<Rightarrow> ('c, 'j, 'h, 't, 'k, slot) session_prog" where
  "last_committed ad = seq (on_node (node_state (ad_core ad))) (\<lambda>st. ret (ns_decided_through st))"

definition session_state :: "('c, 'j, 'h, 't, 'k) adapters \<Rightarrow> ('c, 'j, 'h, 't, 'k, node_state) session_prog" where
  "session_state ad = on_node (node_state (ad_core ad))"

definition session_node_id :: "('c, 'j, 'h, 't, 'k) adapters \<Rightarrow> ('c, 'j, 'h, 't, 'k, node_id) session_prog" where
  "session_node_id ad = seq (on_node (node_state (ad_core ad))) (\<lambda>st. ret (ns_node_id st))"

definition session_is_leader :: "('c, 'j, 'h, 't, 'k) adapters \<Rightarrow> ('c, 'j, 'h, 't, 'k, bool) session_prog" where
  "session_is_leader ad = seq (on_node (node_state (ad_core ad))) (\<lambda>st. ret (node_state_is_leader st))"

definition session_leader :: "('c, 'j, 'h, 't, 'k) adapters \<Rightarrow> ('c, 'j, 'h, 't, 'k, node_id option) session_prog" where
  "session_leader ad = seq (on_node (node_state (ad_core ad))) (\<lambda>st. ret (ns_leader st))"

definition session_entries :: "('c, 'j, 'h, 't, 'k) adapters \<Rightarrow> slot \<Rightarrow> int option
    \<Rightarrow> ('c, 'j, 'h, 't, 'k, committed list) session_prog" where
  "session_entries ad start limit =
     (let start = max start 1 in
      seq (last_committed ad) (\<lambda>released.
        let stop = (case limit of None \<Rightarrow> released | Some l \<Rightarrow> min released (start + l - 1))
        in entries_from ad [start..stop]))"

definition committed_since :: "('c, 'j, 'h, 't, 'k) adapters \<Rightarrow> slot \<Rightarrow> int
    \<Rightarrow> ('c, 'j, 'h, 't, 'k, committed list) session_prog" where
  "committed_since ad slot limit = session_entries ad slot (Some limit)"

definition session_getitem :: "('c, 'j, 'h, 't, 'k) adapters \<Rightarrow> slot \<Rightarrow> ('c, 'j, 'h, 't, 'k, committed) session_prog" where
  "session_getitem ad slot =
     seq (if 1 \<le> slot then entry_at ad slot else ret None) (\<lambda>found. case found of
       None \<Rightarrow> raise (KeyErr slot)
     | Some entry \<Rightarrow> ret \<lparr>cm_slot = slot, cm_entry = entry\<rparr>)"

subsection \<open>Appending\<close>

fun entry_kind_name :: "entry_kind \<Rightarrow> string" where
  "entry_kind_name EK_NONE = ''NONE''"
| "entry_kind_name EK_COMMAND = ''COMMAND''"
| "entry_kind_name EK_NOOP = ''NOOP''"
| "entry_kind_name EK_STOP_SIGN = ''STOP_SIGN''"

text \<open>The loop that waits for the slot to be released.\<close>

definition wait_round :: "('c, 'j, 'h, 't, 'k) adapters \<Rightarrow> slot \<Rightarrow> rat \<Rightarrow> rat \<Rightarrow> ('c, 'j, 'h, 't, 'k, bool) session_prog" where
  "wait_round ad slot timeout deadline =
     seq (last_committed ad) (\<lambda>decided_through.
       if slot \<le> decided_through then ret True
       else seq (monotonic ad) (\<lambda>now.
         if deadline \<le> now
         then raise (err CommitTimeout [(''admitted'', PBool True), (''slot'', PInt slot),
                                        (''seconds'', PFloat (Fin timeout))])
         else seq (monotonic ad) (\<lambda>now.
           seq (get sn_tick_interval) (\<lambda>tick.
             seq (session_poll ad (Fin (min tick (max (deadline - now) 0)))) (\<lambda>_. ret False)))))"

partial_function (option) wait_loop ::
  "('c, 'j, 'h, 't, 'k) adapters \<Rightarrow> slot \<Rightarrow> rat \<Rightarrow> rat \<Rightarrow> ('c, 'j, 'h, 't, 'k, unit) session_prog" where
  "wait_loop ad slot timeout deadline s =
     (case wait_round ad slot timeout deadline s of
        None \<Rightarrow> None
      | Some (r, s') \<Rightarrow> (case r of
          Inl e \<Rightarrow> Some (Inl e, s')
        | Inr done \<Rightarrow> if done then Some (Inr (), s') else wait_loop ad slot timeout deadline s'))"

declare wait_loop.simps [code]

definition not_leader_error :: "node_state \<Rightarrow> exn" where
  "not_leader_error st = err NotLeader
     [(''leader'', case ns_leader st of None \<Rightarrow> PNone | Some l \<Rightarrow> PInt l),
      (''node_id'', PInt (ns_node_id st))]"

definition append_receipt :: "('c, 'j, 'h, 't, 'k) adapters \<Rightarrow> bytes \<Rightarrow> slot \<Rightarrow> ('c, 'j, 'h, 't, 'k, receipt) session_prog" where
  "append_receipt ad value slot =
     seq (entry_at ad slot) (\<lambda>found.
     seq (on_node (node_state (ad_core ad))) (\<lambda>state.
       case found of
         None \<Rightarrow> raise (err CommitTimeout [(''admitted'', PBool True), (''slot'', PInt slot)])
       | Some entry \<Rightarrow>
           if le_kind entry \<noteq> EK_COMMAND \<or> le_body entry \<noteq> value
           then raise (err ProposalLost [(''slot'', PInt slot),
                  (''submitted_bytes'', PInt (int (length value))),
                  (''decided_kind'', PStr (entry_kind_name (le_kind entry)))])
           else ret \<lparr>rc_configuration_id = ns_configuration_id state, rc_slot = slot, rc_entry = entry\<rparr>))"

definition session_append :: "('c, 'j, 'h, 't, 'k) adapters \<Rightarrow> bytes \<Rightarrow> pyfloat \<Rightarrow> ('c, 'j, 'h, 't, 'k, receipt) session_prog" where
  "session_append ad value timeout =
     seq (lift_result (check_timeout timeout)) (\<lambda>timeout.
     seq (monotonic ad) (\<lambda>now.
       let deadline = now + timeout in
       seq (session_poll ad (Fin 0)) (\<lambda>_.
       seq (with_batch (node_propose (ad_core ad) value) (\<lambda>b.
              seq (session_discharge ad b) (\<lambda>_. ret (pb_status b, pb_assigned_slot b)))) (\<lambda>(status, slot).
       seq (if status = class_code NotLeader
            then seq (on_node (node_state (ad_core ad))) (\<lambda>state. raise (not_leader_error state))
            else ret ()) (\<lambda>_.
       seq (lift_result (raise_for status [(''value_bytes'', PInt (int (length value)))])) (\<lambda>_.
       seq (wait_loop ad slot timeout deadline) (\<lambda>_. append_receipt ad value slot)))))))"

subsection \<open>Opening and closing\<close>

definition session_close :: "('c, 'j, 'h, 't, 'k) adapters \<Rightarrow> ('c, 'j, 'h, 't, 'k, unit) session_prog" where
  "session_close ad =
     finally_do (seq (on_node node_close_op) (\<lambda>_. ret ()))
       (finally_do (on_journal (ad_close_journal ad))
         (finally_do (on_transport (ad_close_transport ad))
           (on_history (ad_close_history ad))))"

text \<open>\<^verbatim>\<open>__init__\<close>: the session, or the exception, with the journal, the clock and the library's epoch
  counter as they are then.\<close>

definition session_init :: "('c, 'j, 'h, 't, 'k) adapters \<Rightarrow> node_id \<Rightarrow> node_id list \<Rightarrow> int \<Rightarrow> 'j \<Rightarrow> 't \<Rightarrow> 'h \<Rightarrow> 'k
    \<Rightarrow> pyfloat \<Rightarrow> session_options \<Rightarrow> int \<Rightarrow> (exn + ('c, 'j, 'h, 't, 'k) session) \<times> 'j \<times> 'k \<times> int" where
  "session_init ad node_id members configuration_id journal transport history clock tick_interval options epoch =
     (case check_timeout tick_interval of
        Inl e \<Rightarrow> (Inl e, journal, clock, epoch)
      | Inr tick \<Rightarrow>
         if tick \<le> 0 then (Inl (err InvalidTimeout []), journal, clock, epoch)
         else case ad_monotonic ad clock of
           (Inl e, clock) \<Rightarrow> (Inl e, journal, clock, epoch)
         | (Inr now, clock) \<Rightarrow>
            (let nc = node_config_of node_id members configuration_id (session_node_options tick options)
             in case ad_open ad node_id configuration_id journal of
               (Inl e, journal) \<Rightarrow> (Inl e, journal, clock, epoch)
             | (Inr _, journal) \<Rightarrow>
                (case ad_replay ad journal of
                   (Inl e, journal) \<Rightarrow> (Inl e, journal, clock, epoch)
                 | (Inr existing, journal) \<Rightarrow>
                    (let applied = (if existing \<noteq> [] then ad_cursor ad history else 0)
                     in case (if existing \<noteq> [] then node_restore (ad_core ad) nc existing applied epoch
                              else node_init (ad_core ad) nc epoch) of
                       (Inl e, epoch) \<Rightarrow> (Inl e, journal, clock, epoch)
                     | (Inr n, epoch) \<Rightarrow>
                        (Inr \<lparr>sn_node = n, sn_journal = journal, sn_history = history,
                              sn_transport = transport, sn_clock = clock, sn_tick_interval = tick,
                              sn_applied_through = applied, sn_last_tick = now\<rparr>,
                         journal, clock, epoch)))))"

end
