(* ===== verification/Node_Reach.thy ===== *)
theory Node_Reach
  imports Program Node
begin

section \<open>Every method of a node drives the bridge\<close>

text \<open>
  Whatever a method of \<^verbatim>\<open>Node\<close> or \<^verbatim>\<open>PendingBatch\<close> does to the handle, it does by calls of the bridge, so a
  node whose handle is in a reachable state of the bridge's protocol keeps it in one. The invariants of
  the theory \<open>Bridge\<close> therefore hold under every use of the Python classes.
\<close>

definition node_ok :: "'c core_ops \<Rightarrow> 'c node \<Rightarrow> bool" where
  "node_ok ops n = (\<forall>h. nd_handle n = Some h \<longrightarrow> bridge_reachable ops h)"

definition op_keeps :: "('o \<Rightarrow> bool) \<Rightarrow> ('o \<Rightarrow> 'r \<times> 'o) \<Rightarrow> bool" where
  "op_keeps P f = (\<forall>x r x'. P x \<longrightarrow> f x = (r, x') \<longrightarrow> P x')"

named_theorems node_keeps

lemma op_keepsD: "op_keeps P f \<Longrightarrow> f x = (r, x') \<Longrightarrow> P x \<Longrightarrow> P x'"
  by (auto simp: op_keeps_def)

lemma guarded_keeps:
  assumes "\<And>h st x h'. call h = (st, x, h') \<Longrightarrow> h' = h \<or> bridge_step ops h h'"
  shows "op_keeps (node_ok ops) (guarded call ctx)"
  unfolding op_keeps_def
proof (intro allI impI)
  fix n r n' assume ok: "node_ok ops n" and g: "guarded call ctx n = (r, n')"
  show "node_ok ops n'"
  proof (cases "\<not> nd_forked n \<and> nd_handle n \<noteq> None")
    case True
    then obtain h st x h' where h: "nd_handle n = Some h" "call h = (st, x, h')"
      "n' = n\<lparr>nd_handle := Some h'\<rparr>"
      using g by (auto simp: guarded_def split: prod.splits)
    then show ?thesis using assms [OF h(2)] ok by (auto simp: node_ok_def intro: Step)
  next
    case False
    then show ?thesis using g ok by (auto simp: guarded_def split: option.splits if_splits)
  qed
qed

lemma read_only_keeps [node_keeps]: "op_keeps (node_ok ops) (guarded (read_only call) ctx)"
  by (rule guarded_keeps) (auto simp: read_only_def split: prod.splits)

lemma no_value_keeps:
  assumes "\<And>h st h'. call h = (st, h') \<Longrightarrow> bridge_step ops h h'"
  shows "op_keeps (node_ok ops) (guarded (no_value call) ctx)"
  by (rule guarded_keeps) (use assms in \<open>auto simp: no_value_def split: prod.splits\<close>)

lemma native_keeps [node_keeps]:
  "op_keeps (node_ok ops) (guarded (no_value (confirm t)) ctx)"
  "op_keeps (node_ok ops) (guarded (no_value (finish t)) ctx)"
  "op_keeps (node_ok ops) (guarded (no_value (bridge_advance_floor ops through)) ctx)"
  "op_keeps (node_ok ops) (guarded (no_value (bridge_set_campaign ops e)) ctx)"
  "op_keeps (node_ok ops) (guarded (no_value (replay_apply ops w)) ctx)"
  "op_keeps (node_ok ops) (guarded (no_value (replay_restore ops through)) ctx)"
  by (rule no_value_keeps, erule bridge_step.intros)+

lemma begin_keeps [node_keeps]: "op_keeps (node_ok ops) (guarded (begin_transition ops t) ctx)"
  by (rule guarded_keeps) (blast intro: bridge_step.Begin)

lemma copy_keeps [node_keeps]:
  "op_keeps (node_ok ops) (guarded (copy_writes t off want) ctx)"
  "op_keeps (node_ok ops) (guarded (copy_messages t off want) ctx)"
  by (rule guarded_keeps, blast intro: bridge_step.intros)+

text \<open>The copy loop, by induction on its rounds.\<close>

lemma copy_loop_keeps:
  assumes "copy_loop copy dec avail width offset out n = Some y"
    and "\<And>off want. op_keeps P (guarded (copy off want) [])" and "P n"
  shows "P (snd y)"
  using assms
proof (induction rule: copy_loop.raw_induct [rotated, consumes 1, case_names round])
  case (round loop copy dec avail width offset out n y)
  show ?case
  proof (cases "offset < avail")
    case False
    then show ?thesis using round by auto
  next
    case True
    obtain r1 n1 where g: "guarded (copy offset (min width (avail - offset))) [] n = (r1, n1)" by fastforce
    have "P n1" by (rule op_keepsD [OF round(3) g round(4)])
    then show ?thesis using round(1) [OF _ round(3)] round(2) True g
      by (cases r1) (auto split: sum.splits)
  qed
qed

lemma pb_copy_keeps [node_keeps]:
  assumes "\<And>off want. op_keeps P (guarded (copy off want) [])"
  shows "keeps P (pb_copy copy dec avail chunk)"
  unfolding keeps_def
proof (intro allI impI)
  fix n r n' assume "P n" and c: "pb_copy copy dec avail chunk n = Some (r, n')"
  show "P n'"
  proof (cases "avail = 0")
    case True
    then show ?thesis using c op_keepsD [OF assms _ \<open>P n\<close>, of 0 0]
      by (auto simp: pb_copy_def split: prod.splits sum.splits)
  next
    case False
    then show ?thesis using c copy_loop_keeps [OF _ assms \<open>P n\<close>] by (fastforce simp: pb_copy_def)
  qed
qed

lemma batch_keeps [node_keeps]:
  "keeps (node_ok ops) (pb_writes b)" "keeps (node_ok ops) (pb_messages b)"
  "keeps (node_ok ops) (pb_committed b)" "keeps (node_ok ops) (pb_requests b)"
  unfolding pb_writes_def pb_messages_def pb_committed_def pb_requests_def
  by (rule pb_copy_keeps, rule node_keeps)+

text \<open>A method that works on the result of one native call.\<close>

lemma op_keeps_map:
  assumes "op_keeps P f" and "\<And>x r x'. f x = (r, x') \<Longrightarrow> snd (g x) = x'"
  shows "op_keeps P g"
  using assms unfolding op_keeps_def by (metis prod.collapse sndI)

lemma op_keeps_with_arg [node_keeps]:
  "(\<And>x. op_keeps P (f x)) \<Longrightarrow> op_keeps P (with_arg arg f)"
  by (cases arg) (simp_all add: op_keeps_def with_arg_def)

lemma node_begin_keeps [node_keeps]: "op_keeps (node_ok ops) (node_begin ops t)"
  by (rule op_keeps_map [OF begin_keeps [of ops t "[]"]])
     (auto simp: node_begin_def split: prod.splits sum.splits option.splits)

lemma node_methods_keep [node_keeps]:
  "op_keeps (node_ok ops) (node_campaign ops)" "op_keeps (node_ok ops) (node_tick ops)"
  "op_keeps (node_ok ops) (node_propose ops value)" "op_keeps (node_ok ops) (node_propose_batch ops values)"
  "op_keeps (node_ok ops) (node_step ops env)" "op_keeps (node_ok ops) (node_reconnected ops peer)"
  "op_keeps (node_ok ops) (node_request_catch_up ops peer from_slot)"
  "op_keeps (node_ok ops) (node_install_chosen_trim ops trim_id slot)"
  "op_keeps (node_ok ops) (node_advance_memory_floor ops through)"
  "op_keeps (node_ok ops) (node_set_campaign_enabled ops e)"
  "op_keeps (node_ok ops) (pb_persisted b)" "op_keeps (node_ok ops) (pb_finish b)"
  "op_keeps (node_ok ops) (node_decided_span ops from_slot)"
  unfolding node_campaign_def node_tick_def node_propose_def node_propose_batch_def node_step_def
    node_reconnected_def node_request_catch_up_def node_install_chosen_trim_def
    node_advance_memory_floor_def node_set_campaign_enabled_def pb_persisted_def pb_finish_def
    node_decided_span_def
  by (intro node_keeps)+

lemma pb_refresh_keeps [node_keeps]: "op_keeps (node_ok ops) (pb_refresh b)"
  by (rule op_keeps_map [OF read_only_keeps [of ops "batch_report (pb_token b)" "[]"]])
     (auto simp: pb_refresh_def split: prod.splits sum.splits option.splits)

lemma pb_exit_keeps [node_keeps]: "op_keeps (node_ok ops) (pb_exit raised b)"
  unfolding op_keeps_def
proof (intro allI impI)
  fix n r n' assume ok: "node_ok ops n" and e: "pb_exit raised b n = (r, n')"
  obtain r1 n1 where f: "pb_refresh b n = (r1, n1)" by fastforce
  have "node_ok ops n1" by (rule op_keepsD [OF pb_refresh_keeps f ok])
  then show "node_ok ops n'" using e f op_keepsD [OF node_methods_keep(12)]
    by (auto simp: pb_exit_def split: sum.splits option.splits if_splits)
qed

lemma node_queries_keep [node_keeps]:
  "op_keeps (node_ok ops) (node_state ops)" "op_keeps (node_ok ops) (node_read_decided ops from_slot limit)"
  by (rule op_keeps_map [OF read_only_keeps [of ops "node_state_of ops" "[]"]],
      auto simp: node_state_def split: prod.splits sum.splits option.splits)
     (auto simp: op_keeps_def node_read_decided_def dest: op_keepsD [OF read_only_keeps]
       split: prod.splits sum.splits if_splits)

lemma node_close_keeps [node_keeps]: "op_keeps (node_ok ops) node_close_op"
  by (auto simp: op_keeps_def node_close_op_def node_ok_def split: option.splits)

subsection \<open>Direct use of a node\<close>

text \<open>Whatever a host can do with a node that it holds, and with batches, stale ones and those of other nodes
  included: begin any transition (the methods of \<^verbatim>\<open>Node\<close> that marshal an argument raise before that, or
  begin), read and discharge batches in any order, query, and close. Each may raise.\<close>

inductive direct_use :: "'c core_ops \<Rightarrow> 'c node \<Rightarrow> 'c node \<Rightarrow> bool" for ops n where
  Use_Begin: "node_begin ops t n = (r1, n') \<Longrightarrow> direct_use ops n n'"
| Use_Refresh: "pb_refresh b n = (r2, n') \<Longrightarrow> direct_use ops n n'"
| Use_Phase: "pb_phase b n = (r3, n') \<Longrightarrow> direct_use ops n n'"
| Use_Writes: "pb_writes b n = Some (r4, n') \<Longrightarrow> direct_use ops n n'"
| Use_Persisted: "pb_persisted b n = (r5, n') \<Longrightarrow> direct_use ops n n'"
| Use_Messages: "pb_messages b n = Some (r6, n') \<Longrightarrow> direct_use ops n n'"
| Use_Committed: "pb_committed b n = Some (r7, n') \<Longrightarrow> direct_use ops n n'"
| Use_Requests: "pb_requests b n = Some (r8, n') \<Longrightarrow> direct_use ops n n'"
| Use_Assigned: "pb_assigned_slots b n = (r9, n') \<Longrightarrow> direct_use ops n n'"
| Use_Finish: "pb_finish b n = (r10, n') \<Longrightarrow> direct_use ops n n'"
| Use_Exit: "pb_exit raised b n = (r11, n') \<Longrightarrow> direct_use ops n n'"
| Use_Floor: "node_advance_memory_floor ops through n = (r12, n') \<Longrightarrow> direct_use ops n n'"
| Use_Campaigns: "node_set_campaign_enabled ops enabled n = (r13, n') \<Longrightarrow> direct_use ops n n'"
| Use_State: "node_state ops n = (r14, n') \<Longrightarrow> direct_use ops n n'"
| Use_Span: "node_decided_span ops from_slot n = (r15, n') \<Longrightarrow> direct_use ops n n'"
| Use_Read: "node_read_decided ops from_slot limit n = (r16, n') \<Longrightarrow> direct_use ops n n'"
| Use_Close: "node_close_op n = (r17, n') \<Longrightarrow> direct_use ops n n'"

lemma pb_more_keeps [node_keeps]:
  "op_keeps (node_ok ops) (pb_assigned_slots b)" "op_keeps (node_ok ops) (pb_phase b)"
proof -
  show "op_keeps (node_ok ops) (pb_assigned_slots b)"
    by (auto simp: op_keeps_def pb_assigned_slots_def dest: op_keepsD [OF read_only_keeps] split: if_splits)
  show "op_keeps (node_ok ops) (pb_phase b)"
    by (rule op_keeps_map [OF pb_refresh_keeps [of ops b]])
       (auto simp: pb_phase_def split: prod.splits sum.splits option.splits)
qed

lemma direct_use_ok: "direct_use ops n n' \<Longrightarrow> node_ok ops n \<Longrightarrow> node_ok ops n'"
  by (erule direct_use.cases) (blast dest: op_keepsD [rotated] keepsD [rotated] intro: node_keeps)+

end
