(* ===== verification/Session_Laws.thy ===== *)
theory Session_Laws
  imports Session Node_Reach
begin

section \<open>What a session guarantees\<close>

subsection \<open>Frame rules\<close>

text \<open>A call on one object of the session leaves the others alone.\<close>

lemma on_node_keeps [keeps_intros]:
  "op_keeps P f \<Longrightarrow> keeps (\<lambda>s. P (sn_node s)) (on_node f)"
  "keeps P m \<Longrightarrow> keeps (\<lambda>s. P (sn_node s)) (on_batch m)"
  unfolding on_node_def on_batch_def
  by (rule keeps_call_on, auto dest: op_keepsD) (rule keeps_run_on, auto dest: keepsD)

lemma other_object_keeps [keeps_intros]:
  "keeps (\<lambda>s. P (sn_node s)) (on_journal fj)" "keeps (\<lambda>s. P (sn_node s)) (on_history fh)"
  "keeps (\<lambda>s. P (sn_node s)) (on_transport ft)" "keeps (\<lambda>s. P (sn_node s)) (on_clock fk)"
  "keeps (\<lambda>s. Q (sn_journal s)) (on_node fn)" "keeps (\<lambda>s. Q (sn_journal s)) (on_batch fb)"
  "keeps (\<lambda>s. Q (sn_journal s)) (on_history fh)" "keeps (\<lambda>s. Q (sn_journal s)) (on_transport ft)"
  "keeps (\<lambda>s. Q (sn_journal s)) (on_clock fk)"
  "keeps (\<lambda>s. R (sn_history s)) (on_node fn)" "keeps (\<lambda>s. R (sn_history s)) (on_batch fb)"
  "keeps (\<lambda>s. R (sn_history s)) (on_journal fj)" "keeps (\<lambda>s. R (sn_history s)) (on_transport ft)"
  "keeps (\<lambda>s. R (sn_history s)) (on_clock fk)"
  "keeps (\<lambda>s. S (sn_transport s)) (on_node fn)" "keeps (\<lambda>s. S (sn_transport s)) (on_batch fb)"
  "keeps (\<lambda>s. S (sn_transport s)) (on_journal fj)" "keeps (\<lambda>s. S (sn_transport s)) (on_history fh)"
  "keeps (\<lambda>s. S (sn_transport s)) (on_clock fk)"
  unfolding on_node_def on_batch_def on_journal_def on_history_def on_transport_def on_clock_def
  by ((rule keeps_call_on keeps_run_on), simp)+

lemma modify_keeps [keeps_intros]:
  "keeps (\<lambda>s. P (sn_node s)) (modify (sn_applied_through_update f))"
  "keeps (\<lambda>s. Q (sn_journal s)) (modify (sn_applied_through_update f))"
  "keeps (\<lambda>s. S (sn_transport s)) (modify (sn_applied_through_update f))"
  "keeps (\<lambda>s. P (sn_node s)) (modify (sn_last_tick_update g))"
  by (rule keeps_modify, simp)+

lemma with_batch_keeps_all:
  assumes "keeps P (on_node begin)" and "\<And>b. keeps P (body b)"
    and "\<And>raised b. keeps P (on_node (pb_exit raised b))"
  shows "keeps P (with_batch begin body)"
proof -
  have "keeps P (\<lambda>s. case body b s of None \<Rightarrow> None
      | Some (r, s') \<Rightarrow> seq (on_node (pb_exit (\<not> is_ok r) b)) (\<lambda>_. lift_result r) s')" for b
    unfolding keeps_def
  proof (intro allI impI)
    fix s r s' assume P: "P s" and e: "(case body b s of None \<Rightarrow> None
      | Some (r, s') \<Rightarrow> seq (on_node (pb_exit (\<not> is_ok r) b)) (\<lambda>_. lift_result r) s') = Some (r, s')"
    obtain r1 s1 where b: "body b s = Some (r1, s1)"
      and x: "seq (on_node (pb_exit (\<not> is_ok r1) b)) (\<lambda>_. lift_result r1) s1 = Some (r, s')"
      using e by (auto split: option.splits prod.splits)
    have "keeps P (seq (on_node (pb_exit (\<not> is_ok r1) b)) (\<lambda>_. lift_result r1))"
      by (intro keeps_intros assms(3))
    from keepsD [OF this x keepsD [OF assms(2) b P]] show "P s'" .
  qed
  then show ?thesis unfolding with_batch_def by (intro keeps_seq assms(1))
qed

lemma with_batch_keeps [keeps_intros]:
  assumes "op_keeps P begin" and "\<And>b. keeps (\<lambda>s. P (sn_node s)) (body b)"
    and "\<And>raised b. op_keeps P (pb_exit raised b)"
  shows "keeps (\<lambda>s. P (sn_node s)) (with_batch begin body)"
  by (intro with_batch_keeps_all on_node_keeps assms)

subsection \<open>A session never leaves the bridge's protocol\<close>

abbreviation session_ok :: "'c core_ops \<Rightarrow> ('c, 'j, 'h, 't, 'k) session \<Rightarrow> bool" where
  "session_ok ops s \<equiv> node_ok ops (sn_node s)"

lemma outputs_keep [keeps_intros]:
  "keeps (session_ok (ad_core ad)) (session_release ad entry)"
  "keeps (session_ok (ad_core ad)) (session_send ad envelope)"
  unfolding session_release_def session_send_def by (intro keeps_intros)+

lemma serve_keeps [keeps_intros]: "keeps (session_ok (ad_core ad)) (session_serve ad request)"
  unfolding session_serve_def
  by (intro keeps_intros node_keeps) (auto intro!: keeps_intros)

lemma discharge_keeps [keeps_intros]: "keeps (session_ok (ad_core ad)) (session_discharge ad b)"
  unfolding session_discharge_def discharge_body_def
  by (intro keeps_intros node_keeps)

lemma driving_keeps [keeps_intros]:
  "keeps (session_ok (ad_core ad)) (maybe_tick ad)" "keeps (session_ok (ad_core ad)) (session_campaign ad)"
  unfolding maybe_tick_def session_campaign_def monotonic_def by (intro keeps_intros node_keeps)+

lemma poll_round_keeps [keeps_intros]: "keeps (session_ok (ad_core ad)) (poll_round ad timeout deadline)"
  unfolding poll_round_def monotonic_def Let_def
  by (intro keeps_intros node_keeps) (auto split: option.splits intro!: keeps_intros node_keeps)

lemma poll_loop_keeps [keeps_intros]: "keeps P (poll_loop ad timeout deadline processed)"
  if "keeps P (poll_round ad timeout deadline)"
proof -
  have "P (snd y)" if "poll_loop ad timeout deadline processed s = Some y"
      and "keeps P (poll_round ad timeout deadline)" and "P s" for y s
    using that
  proof (induction rule: poll_loop.raw_induct [rotated, consumes 1, case_names round])
    case (round loop ad timeout deadline processed s y)
    from round(2) obtain r s1 where r: "poll_round ad timeout deadline s = Some (r, s1)"
      by (auto split: option.splits)
    have "P s1" by (rule keepsD [OF round(3) r round(4)])
    then show ?case using round(1) [OF _ round(3)] round(2) r
      by (cases r) (auto split: if_splits prod.splits)
  qed
  then show ?thesis using that by (fastforce simp: keeps_def)
qed

lemma wait_loop_keeps [keeps_intros]: "keeps P (wait_loop ad slot timeout deadline)"
  if "keeps P (wait_round ad slot timeout deadline)"
proof -
  have "P (snd y)" if "wait_loop ad slot timeout deadline s = Some y"
      and "keeps P (wait_round ad slot timeout deadline)" and "P s" for y s
    using that
  proof (induction rule: wait_loop.raw_induct [rotated, consumes 1, case_names round])
    case (round loop ad slot timeout deadline s y)
    from round(2) obtain r s1 where r: "wait_round ad slot timeout deadline s = Some (r, s1)"
      by (auto split: option.splits)
    have "P s1" by (rule keepsD [OF round(3) r round(4)])
    then show ?case using round(1) [OF _ round(3)] round(2) r
      by (cases r) (auto split: if_splits)
  qed
  then show ?thesis using that by (fastforce simp: keeps_def)
qed

lemma session_poll_keeps [keeps_intros]: "keeps (session_ok (ad_core ad)) (session_poll ad timeout)"
  unfolding session_poll_def monotonic_def by (intro keeps_intros)

lemma entry_at_keeps [keeps_intros]: "keeps (session_ok (ad_core ad)) (entry_at ad slot)"
  unfolding entry_at_def
  by (intro keeps_intros node_keeps) (auto split: option.splits intro!: keeps_intros node_keeps)

lemma last_committed_keeps [keeps_intros]: "keeps (session_ok (ad_core ad)) (last_committed ad)"
  unfolding last_committed_def by (intro keeps_intros node_keeps)

lemma wait_round_keeps [keeps_intros]: "keeps (session_ok (ad_core ad)) (wait_round ad slot timeout deadline)"
  unfolding wait_round_def monotonic_def by (intro keeps_intros node_keeps)

lemma append_receipt_keeps [keeps_intros]: "keeps (session_ok (ad_core ad)) (append_receipt ad value slot)"
  unfolding append_receipt_def
  by (intro keeps_intros node_keeps) (auto split: option.splits intro!: keeps_intros)

lemma session_append_keeps [keeps_intros]: "keeps (session_ok (ad_core ad)) (session_append ad value timeout)"
  unfolding session_append_def monotonic_def Let_def
  by (intro keeps_intros node_keeps) (auto intro!: keeps_intros node_keeps)

lemma entries_from_keeps [keeps_intros]: "keeps (session_ok (ad_core ad)) (entries_from ad slots)"
  by (induction slots) (auto split: option.splits intro!: keeps_intros)

lemma reading_keeps [keeps_intros]:
  "keeps (session_ok (ad_core ad)) (session_entries ad start limit)"
  "keeps (session_ok (ad_core ad)) (committed_since ad start limit')"
  "keeps (session_ok (ad_core ad)) (session_getitem ad slot)"
  unfolding session_entries_def committed_since_def session_getitem_def Let_def
  by (auto split: option.splits intro!: keeps_intros)

lemma session_close_keeps [keeps_intros]: "keeps (session_ok (ad_core ad)) (session_close ad)"
  unfolding session_close_def by (intro keeps_intros node_keeps)

text \<open>Opening: a fresh or a restored node starts within the protocol.\<close>

lemma node_init_ok:
  assumes "node_init ops nc epoch = (Inr n, epoch')"
  shows "node_ok ops n"
  using assms by (auto simp: node_init_def node_open_def node_ok_def bindE_eq_Inr
      intro: Opened split: sum.splits prod.splits if_splits)

lemma replay_records_keeps: "op_keeps (node_ok ops) (replay_records ops raw i records)"
proof (induction records arbitrary: raw i)
  case Nil
  then show ?case by (simp add: op_keeps_def)
next
  case (Cons rec recs)
  show ?case
    unfolding op_keeps_def
    by (auto split: sum.splits prod.splits dest: op_keepsD [OF Cons.IH] op_keepsD [OF native_keeps(5)])
qed

lemma node_restore_ok:
  assumes "node_restore ops nc records through epoch = (Inr n, epoch')"
  shows "node_ok ops n"
proof -
  obtain cfg st h where c: "build_config nc = Inr cfg" "node_open_for_replay ops cfg epoch = (st, h, epoch')"
    and "st = OK"
    using assms by (auto simp: node_restore_def split: sum.splits prod.splits) (auto simp: bindE_eq_Inr)
  let ?n0 = "\<lparr>nd_handle = h, nd_forked = False\<rparr>"
  have ok: "node_ok ops ?n0"
    using c(2) \<open>st = OK\<close> by (auto simp: node_open_for_replay_def node_ok_def intro: Opened split: if_splits)
  obtain n1 where n1: "replay_records ops zero_write 0 records ?n0 = (Inr (), n1)"
    and r: "guarded (no_value (replay_restore ops (c_u64 through))) [(''floor'', PInt through)] n1 = (Inr (), n)"
    using assms c \<open>st = OK\<close>
    by (auto simp: node_restore_def bindE_eq_Inr split: sum.splits prod.splits)
  show ?thesis
    by (rule op_keepsD [OF native_keeps(6) r]) (rule op_keepsD [OF replay_records_keeps n1 ok])
qed

lemma session_init_ok:
  assumes "session_init ad node_id members configuration_id j t h k tick options epoch = (Inr s, rest)"
  shows "session_ok (ad_core ad) s"
  using assms
  by (auto simp: session_init_def Let_def intro: node_init_ok node_restore_ok
      split: sum.splits prod.splits if_splits)

text \<open>Any use of a session: its constructor, then its methods in any order, each of which may raise, and
  any method of the node that \<^verbatim>\<open>session.node\<close> gives its host.\<close>

inductive session_reachable :: "('c, 'j, 'h, 't, 'k) adapters \<Rightarrow> ('c, 'j, 'h, 't, 'k) session \<Rightarrow> bool" for ad where
  Init: "session_init ad node_id members conf j t h k tick options epoch = (Inr s, rest) \<Longrightarrow> session_reachable ad s"
| Poll: "session_reachable ad s \<Longrightarrow> session_poll ad timeout s = Some (r, s') \<Longrightarrow> session_reachable ad s'"
| Append: "session_reachable ad s \<Longrightarrow> session_append ad value timeout s = Some (r, s') \<Longrightarrow> session_reachable ad s'"
| Campaign: "session_reachable ad s \<Longrightarrow> session_campaign ad s = Some (r, s') \<Longrightarrow> session_reachable ad s'"
| Discharge: "session_reachable ad s \<Longrightarrow> session_discharge ad b s = Some (r, s') \<Longrightarrow> session_reachable ad s'"
| Entries: "session_reachable ad s \<Longrightarrow> session_entries ad start limit s = Some (r, s') \<Longrightarrow> session_reachable ad s'"
| Getitem: "session_reachable ad s \<Longrightarrow> session_getitem ad slot s = Some (r, s') \<Longrightarrow> session_reachable ad s'"
| Close: "session_reachable ad s \<Longrightarrow> session_close ad s = Some (r, s') \<Longrightarrow> session_reachable ad s'"
| Direct: "session_reachable ad s \<Longrightarrow> direct_use (ad_core ad) (sn_node s) n \<Longrightarrow> session_reachable ad (s\<lparr>sn_node := n\<rparr>)"

lemma session_reachable_ok: "session_reachable ad s \<Longrightarrow> session_ok (ad_core ad) s"
proof (induction rule: session_reachable.induct)
  case (Init node_id members conf j t h k tick options epoch s rest)
  then show ?case by (rule session_init_ok)
next
  case (Direct s n)
  then show ?case using direct_use_ok by simp
qed (auto elim!: keepsD [rotated] intro: keeps_intros node_keeps)

text \<open>C7: A session keeps the durability contract whatever happens around it. Through any sequence of its
  methods, with adapters that fail anywhere, exceptions included, and with its host driving the node
  directly in between (begin, read, confirm and finish batches, its own or stale ones, in any order, move
  the floor, query, close): the core's gate, which forbids reading outputs before their writes are
  confirmed, is never violated; it is open outside an unconfirmed batch; and a confirmed batch had every
  write copied out.\<close>

theorem session_keeps_contract:
  assumes "core_gate (ad_core ad)" and "session_reachable ad s" and "nd_handle (sn_node s) = Some h"
  shows "\<not> hd_violated h \<and> (bt_phase (hd_batch h) \<noteq> BP_PENDING \<longrightarrow> \<not> ef_pending (hd_effects h))
    \<and> (bt_phase (hd_batch h) = BP_CONFIRMED \<and> hd_live h \<longrightarrow>
         bt_write_count (hd_batch h) \<le> bt_writes_copied_through (hd_batch h))"
proof -
  have "bridge_reachable (ad_core ad) h"
    using session_reachable_ok [OF assms(2)] assms(3) by (simp add: node_ok_def)
  then have "bridge_inv h" by (rule bridge_inv_reachable [OF _ assms(1)])
  then show ?thesis unfolding bridge_inv_def by blast
qed

subsection \<open>The durability order\<close>

lemma seq_assoc: "seq (seq m f) g = seq m (\<lambda>x. seq (f x) g)"
  by (rule ext) (auto simp: seq_def split: option.splits sum.splits)

text \<open>What a batch hands out once it is durable.\<close>

definition outputs :: "('c, 'j, 'h, 't, 'k) adapters \<Rightarrow> committed list \<Rightarrow> envelope list \<Rightarrow> serve_range list
    \<Rightarrow> ('c, 'j, 'h, 't, 'k, unit) session_prog" where
  "outputs ad cs ms rs =
     seq (for_each cs (session_release ad)) (\<lambda>_.
     seq (for_each ms (session_send ad)) (\<lambda>_. for_each rs (session_serve ad)))"

text \<open>Recording, sending and serving leave the node as it is.\<close>

lemma node_state_same: "node_state ops n = (r, n') \<Longrightarrow> n' = n"
  by (cases "nd_handle n")
     (auto simp: node_state_def guarded_def read_only_def same_handle split: if_splits sum.splits prod.splits option.splits)

lemma outputs_keep_node:
  "keeps (\<lambda>s. sn_node s = n) (session_release ad entry)" "keeps (\<lambda>s. sn_node s = n) (session_send ad envelope)"
  "keeps (\<lambda>s. sn_node s = n) (session_serve ad request)"
proof -
  have st: "keeps (\<lambda>s. sn_node s = n) (on_node (node_state (ad_core ad)))"
    using on_node_keeps(1) [of "\<lambda>x. x = n" "node_state (ad_core ad)"] node_state_same by (auto simp: op_keeps_def)
  note other = other_object_keeps [of "\<lambda>x. x = n"] modify_keeps(1) [of "\<lambda>x. x = n"]
  show r: "keeps (\<lambda>s. sn_node s = n) (session_release ad entry)"
    unfolding session_release_def by (intro keeps_intros other)
  show t: "keeps (\<lambda>s. sn_node s = n) (session_send ad envelope)" for envelope
    unfolding session_send_def by (intro keeps_intros other)
  show "keeps (\<lambda>s. sn_node s = n) (session_serve ad request)"
    unfolding session_serve_def by (intro keeps_intros other st) (auto intro!: keeps_intros t)
qed

lemma outputs_same_node: "outputs ad cs ms rs s = Some (r, s') \<Longrightarrow> sn_node s' = sn_node s"
  using keepsD [of "\<lambda>x. sn_node x = sn_node s" "outputs ad cs ms rs" s r s']
  by (simp add: outputs_def keeps_seq keeps_for_each outputs_keep_node)

lemma outputs_keep_journal: "outputs ad cs ms rs s = Some (r, s') \<Longrightarrow> sn_journal s' = sn_journal s"
proof -
  have "keeps (\<lambda>x. sn_journal x = sn_journal s) (outputs ad cs ms rs)"
    unfolding outputs_def session_release_def session_send_def session_serve_def
    by (intro keeps_intros other_object_keeps(5-9) [of "\<lambda>x. x = sn_journal s"] modify_keeps(2) [of "\<lambda>x. x = sn_journal s"])
       (auto intro!: keeps_intros other_object_keeps(5-9) [of "\<lambda>x. x = sn_journal s"])
  then show "outputs ad cs ms rs s = Some (r, s') \<Longrightarrow> sn_journal s' = sn_journal s"
    using keepsD by fastforce
qed

text \<open>Finishing the batch and advancing the floor touch the node only.\<close>

lemma on_node_Some: "on_node f s = Some (r, s') \<longleftrightarrow> (\<exists>n. f (sn_node s) = (r, n) \<and> s' = s\<lparr>sn_node := n\<rparr>)"
  by (auto simp: on_node_def call_on_def split: prod.splits)

lemma on_batch_Some: "on_batch m s = Some (r, s') \<longleftrightarrow> (\<exists>n. m (sn_node s) = Some (r, n) \<and> s' = s\<lparr>sn_node := n\<rparr>)"
  by (auto simp: on_batch_def run_on_def split: prod.splits option.splits)

lemma on_journal_Some:
  "on_journal f s = Some (r, s') \<longleftrightarrow> (\<exists>j. f (sn_journal s) = (r, j) \<and> s' = s\<lparr>sn_journal := j\<rparr>)"
  by (auto simp: on_journal_def call_on_def split: prod.splits)

lemmas on_Some = on_node_Some on_batch_Some on_journal_Some

lemma discharge_after_body:
  assumes "session_discharge ad b s = Some (r, s')"
  obtains r1 s1 n where "discharge_body ad b s = Some (r1, s1)" and "s' = s1\<lparr>sn_node := n\<rparr>"
  using assms that unfolding session_discharge_def seq_Some_iff finally_Some_iff get_def
  by (auto simp: on_Some ret_def split: if_splits)

text \<open>Everything after the confirmation leaves the journal alone.\<close>

definition discharge_outputs :: "('c, 'j, 'h, 't, 'k) adapters \<Rightarrow> pending_batch \<Rightarrow> ('c, 'j, 'h, 't, 'k, unit) session_prog" where
  "discharge_outputs ad b =
     seq (seq (on_batch (pb_committed b)) (\<lambda>entries. for_each entries (session_release ad))) (\<lambda>_.
     seq (seq (on_batch (pb_messages b)) (\<lambda>envelopes. for_each envelopes (session_send ad))) (\<lambda>_.
       seq (on_batch (pb_requests b)) (\<lambda>requests. for_each requests (session_serve ad))))"

lemma discharge_body_stages:
  "discharge_body ad b =
     seq (on_batch (pb_writes b)) (\<lambda>records.
     seq (if records \<noteq> [] then seq (on_journal (ad_append ad records)) (\<lambda>_. on_journal (ad_sync ad))
          else ret ()) (\<lambda>_.
     seq (on_node (pb_persisted b)) (\<lambda>_. discharge_outputs ad b)))"
  by (simp only: discharge_body_def discharge_outputs_def)

lemma discharge_outputs_journal:
  assumes "discharge_outputs ad b s = Some (r, s')"
  shows "sn_journal s' = sn_journal s"
proof -
  note other = other_object_keeps(5-9) [of "\<lambda>x. x = sn_journal s"] modify_keeps(2) [of "\<lambda>x. x = sn_journal s"]
  have "keeps (\<lambda>x. sn_journal x = sn_journal s) (discharge_outputs ad b)"
    unfolding discharge_outputs_def session_release_def session_send_def session_serve_def
    by (intro keeps_intros other) (auto intro!: keeps_intros other)
  from keepsD [OF this assms] show ?thesis by simp
qed

text \<open>C6: Nothing a batch produces becomes visible before its records are durable. If discharging a batch
  has changed the transport or the history at all, whatever it returned or raised in the end, then every
  record of the batch was read, appended to the journal and synced, both calls returned, in that order
  and nothing else was done to the journal, and the batch was then confirmed.\<close>

theorem durable_before_visible:
  assumes "session_discharge ad b s = Some (r, s')"
    and "sn_transport s' \<noteq> sn_transport s \<or> sn_history s' \<noteq> sn_history s"
  shows "\<exists>records n1 n2. pb_writes b (sn_node s) = Some (Inr records, n1)
    \<and> (if records = [] then sn_journal s' = sn_journal s
       else \<exists>j. ad_append ad records (sn_journal s) = (Inr (), j) \<and> ad_sync ad j = (Inr (), sn_journal s'))
    \<and> pb_persisted b n1 = (Inr (), n2)"
proof -
  obtain r1 s1 n where body: "discharge_body ad b s = Some (r1, s1)" and s': "s' = s1\<lparr>sn_node := n\<rparr>"
    using discharge_after_body [OF assms(1)] .
  have vis: "sn_transport s1 \<noteq> sn_transport s \<or> sn_history s1 \<noteq> sn_history s" using assms(2) s' by simp
  obtain records n1 s2 s3 n2 where w: "pb_writes b (sn_node s) = Some (Inr records, n1)"
    and j: "(if records \<noteq> [] then seq (on_journal (ad_append ad records)) (\<lambda>_. on_journal (ad_sync ad)) else ret ())
            (s\<lparr>sn_node := n1\<rparr>) = Some (Inr (), s2)"
    and p: "pb_persisted b (sn_node s2) = (Inr (), n2)" "s3 = s2\<lparr>sn_node := n2\<rparr>"
    and o': "discharge_outputs ad b s3 = Some (r1, s1)"
    using body vis unfolding discharge_body_stages
    by (fastforce simp: seq_Some_iff on_Some ret_def split: if_splits)
  have "sn_journal s1 = sn_journal s2" using discharge_outputs_journal [OF o'] p(2) by simp
  moreover have "sn_node s2 = n1" using j by (auto simp: seq_Some_iff on_Some ret_def split: if_splits)
  moreover have "if records = [] then sn_journal s2 = sn_journal s
      else \<exists>j. ad_append ad records (sn_journal s) = (Inr (), j) \<and> ad_sync ad j = (Inr (), sn_journal s2)"
    using j by (auto simp: seq_Some_iff on_Some ret_def split: if_splits)
  ultimately show ?thesis using w p(1) s' by auto
qed

lemma seq_cong_results:
  "(\<And>x s1. m s = Some (Inr x, s1) \<Longrightarrow> f x s1 = g x s1) \<Longrightarrow> seq m f s = seq m g s"
  by (auto simp: seq_def split: option.splits sum.splits)

lemma on_batch_same:
  "m (sn_node s) = Some (Inr x, sn_node s) \<Longrightarrow> seq (on_batch m) f s = f x s"
  by (cases s) (simp add: seq_def on_batch_def run_on_def)

text \<open>On a confirmed batch the outputs are the decoded lists, whatever the adapters do in between.\<close>

lemma discharge_outputs_eq:
  assumes "pb_committed b n = Some (Inr cs, n)" and "pb_messages b n = Some (Inr ms, n)"
    and "pb_requests b n = Some (Inr rs, n)" and "sn_node s = n"
  shows "discharge_outputs ad b s = outputs ad cs ms rs s"
proof -
  have same: "keeps (\<lambda>s. sn_node s = n) (for_each cs (session_release ad))"
    "keeps (\<lambda>s. sn_node s = n) (for_each ms (session_send ad))"
    by (intro keeps_for_each outputs_keep_node)+
  have "discharge_outputs ad b s = seq (for_each cs (session_release ad)) (\<lambda>_.
      seq (seq (on_batch (pb_messages b)) (\<lambda>envelopes. for_each envelopes (session_send ad))) (\<lambda>_.
        seq (on_batch (pb_requests b)) (\<lambda>requests. for_each requests (session_serve ad)))) s"
    unfolding discharge_outputs_def seq_assoc by (rule on_batch_same) (simp add: assms)
  also have "\<dots> = outputs ad cs ms rs s"
    unfolding outputs_def seq_assoc
  proof (rule seq_cong_results)
    fix x s1 assume s1: "for_each cs (session_release ad) s = Some (Inr x, s1)"
    have n1: "sn_node s1 = n" using keepsD [OF same(1) s1] assms(4) by simp
    have "seq (on_batch (pb_messages b)) (\<lambda>envelopes. seq (for_each envelopes (session_send ad)) (\<lambda>_.
        seq (on_batch (pb_requests b)) (\<lambda>requests. for_each requests (session_serve ad)))) s1
      = seq (for_each ms (session_send ad)) (\<lambda>_.
          seq (on_batch (pb_requests b)) (\<lambda>requests. for_each requests (session_serve ad))) s1"
      by (rule on_batch_same) (simp add: assms(2) n1)
    also have "\<dots> = seq (for_each ms (session_send ad)) (\<lambda>_. for_each rs (session_serve ad)) s1"
    proof (rule seq_cong_results)
      fix x s2 assume "for_each ms (session_send ad) s1 = Some (Inr x, s2)"
      from keepsD [OF same(2) this] n1
      show "seq (on_batch (pb_requests b)) (\<lambda>requests. for_each requests (session_serve ad)) s2
        = for_each rs (session_serve ad) s2"
        by (intro on_batch_same) (simp add: assms(3))
    qed
    finally show "seq (on_batch (pb_messages b)) (\<lambda>envelopes. seq (for_each envelopes (session_send ad)) (\<lambda>_.
        seq (on_batch (pb_requests b)) (\<lambda>requests. for_each requests (session_serve ad)))) s1
      = seq (for_each ms (session_send ad)) (\<lambda>_. for_each rs (session_serve ad)) s1" .
  qed
  finally show ?thesis .
qed

lemma discharge_of_turn:
  assumes "core_gate (ad_core ad)" and "bridge_reachable (ad_core ad) h0" and "nd_handle (sn_node s) = Some h0"
    and "node_begin (ad_core ad) t (sn_node s) = (Inr b, n)" and "nd_handle n = Some h"
    and "mapE decode_write (ef_writes (hd_effects h)) = Inr ws"
    and "mapE decode_envelope (ef_messages (hd_effects h)) = Inr ms"
    and "mapE decode_committed (ef_committed (hd_effects h)) = Inr cs"
    and "mapE decode_request (ef_requests (hd_effects h)) = Inr rs"
    and "if ws = [] then j' = sn_journal s
         else ad_append ad ws (sn_journal s) = (Inr (), j) \<and> ad_sync ad j = (Inr (), j')"
  shows "\<exists>n2 n3 h3. nd_handle n3 = Some h3 \<and> fst (batch_open h3) = OK
    \<and> session_discharge ad b (s\<lparr>sn_node := n\<rparr>) =
        (case outputs ad cs ms rs (s\<lparr>sn_node := n2, sn_journal := j'\<rparr>) of
           None \<Rightarrow> None
         | Some (Inl e, s1) \<Rightarrow> Some (Inl e, s1\<lparr>sn_node := n3\<rparr>)
         | Some (Inr _, s1) \<Rightarrow>
             (if sn_applied_through s1 \<noteq> 0
              then on_node (node_advance_memory_floor (ad_core ad) (sn_applied_through s1)) else ret ())
             (s1\<lparr>sn_node := n3\<rparr>))"
proof -
  obtain n1 n2 n3 h3 where st: "pb_writes b n = Some (Inr ws, n1)" "pb_persisted b n1 = (Inr (), n2)"
    "pb_messages b n2 = Some (Inr ms, n2)" "pb_committed b n2 = Some (Inr cs, n2)"
    "pb_requests b n2 = Some (Inr rs, n2)" "pb_finish b n2 = (Inr (), n3)"
    "nd_handle n3 = Some h3" "fst (batch_open h3) = OK"
    using discharge_stages [OF assms(1-5)] assms(6-9) by auto
  let ?s2 = "s\<lparr>sn_node := n2, sn_journal := j'\<rparr>"
  have "discharge_body ad b (s\<lparr>sn_node := n\<rparr>) = discharge_outputs ad b ?s2"
    using st(1,2) assms(10) unfolding discharge_body_stages
    by (cases s) (auto simp: seq_def on_batch_def run_on_def on_node_def on_journal_def call_on_def ret_def
        split: if_splits)
  also have "\<dots> = outputs ad cs ms rs ?s2" by (rule discharge_outputs_eq [OF st(4,3,5)]) simp
  finally have body: "discharge_body ad b (s\<lparr>sn_node := n\<rparr>) = outputs ad cs ms rs ?s2" .
  have "on_node (pb_finish b) s1 = Some (Inr (), s1\<lparr>sn_node := n3\<rparr>)"
    if "outputs ad cs ms rs ?s2 = Some (r, s1)" for r s1
    using outputs_same_node [OF that] st(6) by (simp add: on_node_Some)
  then have "session_discharge ad b (s\<lparr>sn_node := n\<rparr>) =
        (case outputs ad cs ms rs ?s2 of
           None \<Rightarrow> None
         | Some (Inl e, s1) \<Rightarrow> Some (Inl e, s1\<lparr>sn_node := n3\<rparr>)
         | Some (Inr _, s1) \<Rightarrow>
             (if sn_applied_through s1 \<noteq> 0
              then on_node (node_advance_memory_floor (ad_core ad) (sn_applied_through s1)) else ret ())
             (s1\<lparr>sn_node := n3\<rparr>))"
    unfolding session_discharge_def
    by (cases "outputs ad cs ms rs ?s2") (auto simp: seq_def finally_do_def body get_def split: sum.splits)
  with st(7,8) show ?thesis by blast
qed

text \<open>C8: What a discharge does, exactly. After any transition, when the journal takes the records: the
  released entries are recorded, the messages sent and the requests served, every one, in this order,
  up to the first adapter that raises; then, raised or not, the batch is finished and the node can
  begin its next transition; and then, if nothing raised, the memory floor moves to the last entry
  recorded.\<close>

theorem discharge_in_order:
  assumes "core_gate (ad_core ad)" and "bridge_reachable (ad_core ad) h0" and "nd_handle (sn_node s) = Some h0"
    and "node_begin (ad_core ad) t (sn_node s) = (Inr b, n)" and "nd_handle n = Some h"
    and "mapE decode_write (ef_writes (hd_effects h)) = Inr ws"
    and "mapE decode_envelope (ef_messages (hd_effects h)) = Inr ms"
    and "mapE decode_committed (ef_committed (hd_effects h)) = Inr cs"
    and "mapE decode_request (ef_requests (hd_effects h)) = Inr rs"
    and "if ws = [] then j' = sn_journal s
         else ad_append ad ws (sn_journal s) = (Inr (), j) \<and> ad_sync ad j = (Inr (), j')"
  shows "\<exists>n2 n3 h3. nd_handle n3 = Some h3 \<and> fst (batch_open h3) = OK
    \<and> session_discharge ad b (s\<lparr>sn_node := n\<rparr>) =
        (case outputs ad cs ms rs (s\<lparr>sn_node := n2, sn_journal := j'\<rparr>) of
           None \<Rightarrow> None
         | Some (Inl e, s1) \<Rightarrow> Some (Inl e, s1\<lparr>sn_node := n3\<rparr>)
         | Some (Inr _, s1) \<Rightarrow>
             (if sn_applied_through s1 \<noteq> 0
              then on_node (node_advance_memory_floor (ad_core ad) (sn_applied_through s1)) else ret ())
             (s1\<lparr>sn_node := n3\<rparr>))"
  by (rule discharge_of_turn [OF assms])

lemma failed_journal_turn:
  assumes "core_gate (ad_core ad)" and "bridge_reachable (ad_core ad) h0" and "nd_handle (sn_node s) = Some h0"
    and "node_begin (ad_core ad) t (sn_node s) = (Inr b, n)" and "nd_handle n = Some h"
    and "mapE decode_write (ef_writes (hd_effects h)) = Inr ws" and "ws \<noteq> []"
    and "ad_append ad ws (sn_journal s) = (Inl e, j)
         \<or> (\<exists>j1. ad_append ad ws (sn_journal s) = (Inr (), j1) \<and> ad_sync ad j1 = (Inl e, j))"
  shows "\<exists>n'. with_batch (node_begin (ad_core ad) t) (session_discharge ad) s
        = Some (Inl (err WritesUnconfirmed []), s\<lparr>sn_node := n', sn_journal := j\<rparr>)
    \<and> (\<exists>h'. nd_handle n' = Some h' \<and> bt_phase (hd_batch h') = BP_PENDING)
    \<and> (transition_status t' = OK \<longrightarrow> node_begin (ad_core ad) t' n' = (Inl (err BatchPending []), n'))"
proof -
  have bt: "begin_transition (ad_core ad) t h0 = (OK, Some (pb_token b, pb_report b), h)"
    using node_begin_cases [OF assms(4,3)] assms(5) by auto
  note f = begun_facts [OF assms(1,2) bt]
  obtain n1 k where n1: "pb_writes b n = Some (Inr ws, n1)" "\<not> nd_forked n1"
    "nd_handle n1 = Some (with_copied k h)"
    using discharge_stages [OF assms(1-5)] assms(6) by auto
  have pend: "bt_phase (hd_batch (with_copied k h)) = BP_PENDING"
    using f(10) assms(6,7) by (cases "ef_writes (hd_effects h)") auto
  have us: "usable (pb_token b) (with_copied k h)" using f(1) by (simp add: usable_def)
  note fin = finish_unconfirmed [OF n1(3,2) us pend]
  have "discharge_body ad b (s\<lparr>sn_node := n\<rparr>) = Some (Inl e, s\<lparr>sn_node := n1, sn_journal := j\<rparr>)"
    using n1(1) assms(7,8) unfolding discharge_body_def
    by (cases s) (auto simp: seq_def on_batch_def run_on_def on_journal_def call_on_def)
  then have d: "session_discharge ad b (s\<lparr>sn_node := n\<rparr>)
      = Some (Inl (err WritesUnconfirmed []), s\<lparr>sn_node := n1, sn_journal := j\<rparr>)"
    using fin by (simp add: session_discharge_def seq_def finally_do_def on_node_def call_on_def)
  have "pb_exit True b n1 = (Inr (), n1)" using exit_phases [OF n1(3,2) us] pend by simp
  then have "with_batch (node_begin (ad_core ad) t) (session_discharge ad) s
        = Some (Inl (err WritesUnconfirmed []), s\<lparr>sn_node := n1, sn_journal := j\<rparr>)"
    using assms(4) d by (simp add: with_batch_def seq_def on_node_def call_on_def lift_result_def)
  moreover have "node_begin (ad_core ad) t' n1 = (Inl (err BatchPending []), n1)" if "transition_status t' = OK"
    using begin_blocked [OF n1(3,2) _ pend _ that] us f(9) by (simp add: usable_def)
  ultimately show ?thesis using n1(3) pend by blast
qed

text \<open>C11: When the journal fails, nothing leaves, and the cause is lost. If appending or syncing the records of a
  batch raises any exception, nothing is recorded or sent and the node refuses every later transition
  with \<^verbatim>\<open>BatchPending\<close>, so it never runs on unconfirmed writes. But the \<^verbatim>\<open>finally\<close> clause finishes a batch
  that is not confirmed: the caller gets \<^verbatim>\<open>WritesUnconfirmed\<close> in place of the journal's exception, the
  \<^verbatim>\<open>StorageError\<close> that \<^verbatim>\<open>discharge\<close> documents.\<close>

theorem journal_failure_blocks:
  assumes "core_gate (ad_core ad)" and "bridge_reachable (ad_core ad) h0" and "nd_handle (sn_node s) = Some h0"
    and "node_begin (ad_core ad) t (sn_node s) = (Inr b, n)" and "nd_handle n = Some h"
    and "mapE decode_write (ef_writes (hd_effects h)) = Inr ws" and "ws \<noteq> []"
    and "ad_append ad ws (sn_journal s) = (Inl e, j)
         \<or> (\<exists>j1. ad_append ad ws (sn_journal s) = (Inr (), j1) \<and> ad_sync ad j1 = (Inl e, j))"
  shows "\<exists>n'. with_batch (node_begin (ad_core ad) t) (session_discharge ad) s
        = Some (Inl (err WritesUnconfirmed []), s\<lparr>sn_node := n', sn_journal := j\<rparr>)
    \<and> (transition_status t' = OK \<longrightarrow> node_begin (ad_core ad) t' n' = (Inl (err BatchPending []), n'))"
  using failed_journal_turn [OF assms] by blast

subsection \<open>Receipts\<close>

lemma wait_loop_released:
  assumes "wait_loop ad slot timeout deadline s = Some (Inr (), s')"
  shows "\<exists>s1 d. last_committed ad s1 = Some (Inr d, s') \<and> slot \<le> d"
proof -
  have "y = (Inr (), s') \<longrightarrow> (\<exists>s1 d. last_committed ad s1 = Some (Inr d, s') \<and> slot \<le> d)"
    if "wait_loop ad slot timeout deadline s = Some y" for y
    using that
  proof (induction rule: wait_loop.raw_induct [rotated, consumes 1, case_names round])
    case (round loop ad slot timeout deadline s y)
    from round(2) obtain r s1 where r: "wait_round ad slot timeout deadline s = Some (r, s1)"
      by (auto split: option.splits)
    show ?case
    proof (cases r)
      case (Inr finished)
      show ?thesis
      proof (cases finished)
        case True
        then have "\<exists>d. last_committed ad s = Some (Inr d, s1) \<and> slot \<le> d"
          using r Inr unfolding wait_round_def by (auto simp: seq_Some_iff ret_def raise_def split: if_splits)
        then show ?thesis using round(2) r Inr True by auto
      next
        case False
        then show ?thesis using round(1) [of ad slot timeout deadline s1 y] round(2) r Inr by auto
      qed
    qed (use round(2) r in auto)
  qed
  then show ?thesis using assms by blast
qed

lemma append_receipt_Inr:
  assumes "append_receipt ad value slot s = Some (Inr r, s')"
  shows "rc_slot r = slot \<and> le_kind (rc_entry r) = EK_COMMAND \<and> receipt_value r = value
    \<and> (\<exists>s1. entry_at ad slot s = Some (Inr (Some (rc_entry r)), s1))"
  using assms unfolding append_receipt_def
  apply (elim seq_InrE)
  subgoal for found s1 st s2
    by (cases found) (auto simp: ret_def raise_def receipt_value_def split: if_splits)
  done

text \<open>C9: A receipt is never a guess. When \<^verbatim>\<open>append\<close> returns one, the node had just reported the receipt's slot
  as released, and the entry this participant then held at that slot, read from its history or its
  window, is a command with exactly the submitted bytes; the receipt carries that entry. (Another
  value decided in the slot is never reported as success.)\<close>

theorem receipt_is_true:
  assumes "session_append ad value timeout s = Some (Inr r, s')"
  shows "le_kind (rc_entry r) = EK_COMMAND \<and> receipt_value r = value
    \<and> (\<exists>s1 d s2 s3. last_committed ad s1 = Some (Inr d, s2) \<and> rc_slot r \<le> d
        \<and> entry_at ad (rc_slot r) s2 = Some (Inr (Some (rc_entry r)), s3))"
proof -
  obtain timeout' deadline slot s1 s2 where "wait_loop ad slot timeout' deadline s1 = Some (Inr (), s2)"
    and "append_receipt ad value slot s2 = Some (Inr r, s')"
    using assms unfolding session_append_def Let_def by (auto simp: seq_Some_iff split: prod.splits)
  then show ?thesis using wait_loop_released [of ad slot timeout' deadline s1 s2] append_receipt_Inr [of ad "value" slot s2 r s']
    by auto
qed

subsection \<open>Reading the log\<close>

lemma entries_from_facts:
  assumes "entries_from ad slots s = Some (Inr es, s')"
  shows "map cm_slot es = take (length es) slots
    \<and> (\<forall>c\<in>set es. \<exists>s1 s2. entry_at ad (cm_slot c) s1 = Some (Inr (Some (cm_entry c)), s2))
    \<and> (length es < length slots \<longrightarrow> (\<exists>s1 s2. entry_at ad (slots ! length es) s1 = Some (Inr None, s2)))"
  using assms
proof (induction slots arbitrary: s es)
  case (Cons position rest)
  obtain found s1 where f: "entry_at ad position s = Some (Inr found, s1)"
    and r: "(case found of None \<Rightarrow> ret [] | Some entry \<Rightarrow>
         seq (entries_from ad rest) (\<lambda>es. ret (\<lparr>cm_slot = position, cm_entry = entry\<rparr> # es))) s1 = Some (Inr es, s')"
    using Cons.prems by (auto elim: seq_InrE)
  show ?case
  proof (cases found)
    case None
    then show ?thesis using f r by (auto simp: ret_def)
  next
    case (Some entry)
    then obtain es' s2 where "entries_from ad rest s1 = Some (Inr es', s2)" "s2 = s'"
      "es = \<lparr>cm_slot = position, cm_entry = entry\<rparr> # es'"
      using r by (auto simp: seq_Some_iff ret_def)
    then show ?thesis using Cons.IH [of s1 es'] f Some by auto
  qed
qed (simp add: ret_def)

lemma upto_prefix: "b \<le> c \<Longrightarrow> n \<le> length [a..b] \<Longrightarrow> take n [a..b] = take n [a..c]" for a b c :: int
  by (rule nth_equalityI) (auto simp: nth_upto)

text \<open>C12: \<^verbatim>\<open>entries\<close> lists the released prefix without gaps: what it yields has consecutive slots from the
  start asked for (or 1), none beyond the last the node has released and no more than the limit; each
  entry is the one this participant holds at its slot; and it stops before that bound only at a slot
  for which neither the history nor the node's window has an entry.\<close>

theorem entries_contiguous:
  assumes "session_entries ad start limit s = Some (Inr es, s')"
  shows "\<exists>d s1. last_committed ad s = Some (Inr d, s1)
    \<and> map cm_slot es = take (length es) [max start 1..d]
    \<and> (\<forall>l. limit = Some l \<longrightarrow> int (length es) \<le> max l 0)
    \<and> (\<forall>c\<in>set es. \<exists>s1 s2. entry_at ad (cm_slot c) s1 = Some (Inr (Some (cm_entry c)), s2))
    \<and> (max start 1 + int (length es) \<le> d \<and> (\<forall>l. limit = Some l \<longrightarrow> int (length es) < l) \<longrightarrow>
        (\<exists>s1 s2. entry_at ad (max start 1 + int (length es)) s1 = Some (Inr None, s2)))"
proof -
  let ?a = "max start 1"
  obtain d s1 where d: "last_committed ad s = Some (Inr d, s1)"
    and es: "entries_from ad [?a..case limit of None \<Rightarrow> d | Some l \<Rightarrow> min d (?a + l - 1)] s1 = Some (Inr es, s')"
    using assms unfolding session_entries_def Let_def by (auto simp: seq_Some_iff)
  define stop where "stop = (case limit of None \<Rightarrow> d | Some l \<Rightarrow> min d (?a + l - 1))"
  note f = entries_from_facts [OF es [folded stop_def]]
  have le: "stop \<le> d" by (auto simp: stop_def split: option.split)
  have len: "length es \<le> length [?a..stop]" using arg_cong [OF conjunct1 [OF f], of length] by simp
  have "map cm_slot es = take (length es) [?a..d]" using f upto_prefix [OF le len] by simp
  moreover have "\<forall>l. limit = Some l \<longrightarrow> int (length es) \<le> max l 0" using len by (auto simp: stop_def)
  moreover have "\<exists>s1 s2. entry_at ad (?a + int (length es)) s1 = Some (Inr None, s2)"
    if "?a + int (length es) \<le> d" "\<forall>l. limit = Some l \<longrightarrow> int (length es) < l"
  proof -
    have "?a + int (length es) \<le> stop" using that by (auto simp: stop_def split: option.split)
    then show ?thesis using f by (auto simp: nth_upto)
  qed
  ultimately show ?thesis using d f by blast
qed

subsection \<open>Durations and closing\<close>

lemma py_round_nearest: "\<bar>of_int (py_round x) - x\<bar> \<le> 1 / 2"
proof -
  have "of_int \<lfloor>x\<rfloor> \<le> x" "x < of_int \<lfloor>x\<rfloor> + 1" by linarith+
  then show ?thesis by (simp add: py_round_def Let_def abs_le_iff field_simps)
qed

text \<open>With the default interval the module's defaults are the engine's, in ticks.\<close>

lemma default_ticks:
  "to_ticks (Some DEFAULT_ELECTION_TIMEOUT) DEFAULT_TICK_INTERVAL = 10"
  "to_ticks (Some DEFAULT_HEARTBEAT_INTERVAL) DEFAULT_TICK_INTERVAL = 3"
  "to_ticks (Some DEFAULT_RESEND_INTERVAL) DEFAULT_TICK_INTERVAL = 10"
  by code_simp+

text \<open>Durations become whole ticks faithfully: for a positive tick, the result is at least one tick and
  never further than half a tick from the duration asked for, unless that was less than half a tick;
  and \<^verbatim>\<open>_check_timeout\<close> lets through exactly the finite durations that are not negative.\<close>

lemma ticks_faithful:
  assumes "0 < tick"
  shows "1 \<le> to_ticks (Some seconds) tick
    \<and> (tick / 2 \<le> seconds \<longrightarrow> \<bar>of_int (to_ticks (Some seconds) tick) * tick - seconds\<bar> \<le> tick / 2)
    \<and> (check_timeout timeout = Inr x \<longleftrightarrow> timeout = Fin x \<and> 0 \<le> x)"
proof -
  let ?q = "seconds / tick"
  have near: "\<bar>of_int (to_ticks (Some seconds) tick) - ?q\<bar> \<le> 1 / 2" if "tick / 2 \<le> seconds"
  proof -
    have q: "1 / 2 \<le> ?q" using that assms by (simp add: field_simps)
    show ?thesis
    proof (cases "1 \<le> py_round ?q")
      case True
      then show ?thesis using py_round_nearest [of ?q] by (simp add: to_ticks_def)
    next
      case False
      then have "of_int (py_round ?q) \<le> (0 :: rat)" by simp
      then have "?q \<le> 1 / 2" using py_round_nearest [of ?q] by linarith
      then show ?thesis using False q by (simp add: to_ticks_def)
    qed
  qed
  have "\<bar>of_int (to_ticks (Some seconds) tick) * tick - seconds\<bar> \<le> tick / 2" if "tick / 2 \<le> seconds"
  proof -
    have "\<bar>of_int (to_ticks (Some seconds) tick) * tick - seconds\<bar>
        = \<bar>of_int (to_ticks (Some seconds) tick) - ?q\<bar> * tick"
      using assms by (simp add: abs_if field_simps)
    also have "\<dots> \<le> 1 / 2 * tick" using near [OF that] assms by (intro mult_right_mono) simp_all
    finally show ?thesis by simp
  qed
  then show ?thesis by (auto simp: to_ticks_def check_timeout_def split: pyfloat.splits if_splits)
qed

text \<open>\<^verbatim>\<open>close\<close> closes everything: whatever any of the four raises, the node, the journal, the transport and
  the history are each closed, once; and what is raised in the end is the exception of the last that
  raised.\<close>

lemma close_closes_all:
  assumes "node_close_op (sn_node s) = (rn, n)" and "ad_close_journal ad (sn_journal s) = (rj, j)"
    and "ad_close_transport ad (sn_transport s) = (rt, t)" and "ad_close_history ad (sn_history s) = (rh, h)"
  shows "session_close ad s = Some (if is_ok rh then if is_ok rt then rj else rt else rh,
     s\<lparr>sn_node := n, sn_journal := j, sn_transport := t, sn_history := h\<rparr>) \<and> nd_handle n = None"
  using assms
  by (auto simp: session_close_def finally_do_def seq_def on_node_def on_journal_def on_transport_def
      on_history_def call_on_def ret_def is_ok_iff node_close_op_def split: option.splits sum.splits)

end
