(* ===== verification/Method_Laws.thy ===== *)
theory Method_Laws
  imports Session_Laws
begin

section \<open>What the calls of a session keep, its methods keep\<close>

text \<open>
  A method of a session is made of turns - a transition and the discharge of its batch - and of calls on
  its objects. A predicate that a turn and every such call keep is an invariant of all methods.
\<close>

subsection \<open>Transitions\<close>

definition begins :: "'c core_ops \<Rightarrow> ('c, pending_batch) node_op \<Rightarrow> bool" where
  "begins ops begin = (\<forall>n r n'. begin n = (r, n') \<longrightarrow>
     (case r of Inl _ \<Rightarrow> n' = n | Inr b \<Rightarrow> \<exists>t. node_begin ops t n = (Inr b, n')))"

lemma refused_same: "node_begin ops t n = (Inl e, n') \<Longrightarrow> n' = n"
proof -
  assume r: "node_begin ops t n = (Inl e, n')"
  show "n' = n"
  proof (cases "\<not> nd_forked n \<and> nd_handle n \<noteq> None")
    case True
    then obtain h st x h' where h: "nd_handle n = Some h" "begin_transition ops t h = (st, x, h')" by (metis option.exhaust prod_cases3)
    from begin_cases [OF h(2)] show ?thesis using r h True same_handle [OF h(1)]
      by (auto simp: node_begin_def guarded_def bindE_eq_Inr split: sum.splits option.splits)
  qed (use r in \<open>auto simp: node_begin_def guarded_def split: if_splits option.splits\<close>)
qed

lemma node_begin_begins: "begins ops (node_begin ops t)"
  by (auto simp: begins_def dest: refused_same split: sum.split)

lemma methods_begin:
  "begins ops (node_step ops env)" "begins ops (node_propose ops v)" "begins ops (node_tick ops)" "begins ops (node_campaign ops)"
  by (auto simp: begins_def node_step_def node_propose_def node_tick_def node_campaign_def with_arg_def
      dest: refused_same split: sum.splits)

text \<open>While a batch is open no transition begins.\<close>

definition batch_is_open :: "'c node \<Rightarrow> bool" where
  "batch_is_open n = (\<forall>h. nd_handle n = Some h \<longrightarrow> bt_phase (hd_batch h) \<in> {BP_PENDING, BP_CONFIRMED})"

lemma begun_is_open:
  assumes "node_begin ops t n = (Inr b, n')"
  shows "\<not> batch_is_open n \<and> batch_is_open n'"
proof -
  obtain h where h: "nd_handle n = Some h"
    using assms by (auto simp: node_begin_def guarded_def split: if_splits option.splits)
  obtain h' where "n' = n\<lparr>nd_handle := Some h'\<rparr>" "begin_transition ops t h = (OK, Some (pb_token b, pb_report b), h')"
    using node_begin_cases [OF assms h] by auto
  then show ?thesis using begin_cases h by (fastforce simp: batch_is_open_def)
qed

subsection \<open>Reads leave the node as it is\<close>

lemma read_only_same: "guarded (read_only f) ctx n = (r, n') \<Longrightarrow> n' = n"
  by (auto simp: guarded_def read_only_def same_handle split: if_splits option.splits prod.splits)

lemma node_read_decided_same: "node_read_decided ops from_slot limit n = (r, n') \<Longrightarrow> n' = n"
  by (auto simp: node_read_decided_def dest: read_only_same split: if_splits prod.splits sum.splits)

lemma reads_keep_all:
  "keeps P (on_node (node_state ops))" "keeps P (on_node (node_read_decided ops from_slot limit))"
  by (auto simp: keeps_def on_node_Some dest!: node_state_same node_read_decided_same)

subsection \<open>The methods\<close>

locale method_invariant =
  fixes ad :: "('c, 'j, 'h, 't, 'k) adapters" and P :: "('c, 'j, 'h, 't, 'k) session \<Rightarrow> bool"
  assumes turn: "begins (ad_core ad) begin \<Longrightarrow> keeps P (with_batch begin (session_discharge ad))"
    and propose: "keeps P (with_batch (node_propose (ad_core ad) value)
      (\<lambda>b. seq (session_discharge ad b) (\<lambda>_. ret (pb_status b, pb_assigned_slot b))))"
    and history: "keeps P (on_history (ad_read ad slot n))"
    and receiving: "keeps P (on_transport (ad_receive ad timeout))"
    and now: "keeps P (on_clock (ad_monotonic ad))" and sleep: "keeps P (on_clock (ad_sleep ad timeout))"
    and last_tick: "keeps P (modify (sn_last_tick_update g))"
begin

lemma node_reads: "keeps P (on_node (node_state (ad_core ad)))" "keeps P (on_node (node_read_decided (ad_core ad) slot k))"
  by (rule reads_keep_all)+

lemmas rules = keeps_pure keeps_seq keeps_finally keeps_except keeps_for_each keeps_if node_reads propose history receiving now
  sleep last_tick turn [OF methods_begin(1)] turn [OF methods_begin(3)] turn [OF methods_begin(4)]

lemma tick_keeps: "keeps P (maybe_tick ad)"
  unfolding maybe_tick_def monotonic_def by (intro rules)

lemma campaign_keeps: "keeps P (session_campaign ad)"
  unfolding session_campaign_def by (intro rules)

lemma round_keeps: "keeps P (poll_round ad timeout deadline)"
  unfolding poll_round_def monotonic_def Let_def
  by (intro rules tick_keeps) (auto split: option.splits intro!: rules)

lemma poll_keeps: "keeps P (session_poll ad timeout)"
  unfolding session_poll_def monotonic_def by (intro rules poll_loop_keeps round_keeps)

lemma reads_keep: "keeps P (entry_at ad slot)" "keeps P (last_committed ad)" "keeps P (session_state ad)"
  unfolding entry_at_def last_committed_def session_state_def
  by (intro rules, auto split: option.splits intro!: rules)+

lemma entries_list_keeps: "keeps P (entries_from ad slots)"
  by (induction slots) (auto split: option.splits intro!: rules reads_keep)

lemma entries_keep: "keeps P (session_entries ad start limit)"
  unfolding session_entries_def Let_def by (intro rules reads_keep entries_list_keeps)

lemma receipt_keeps: "keeps P (append_receipt ad value slot)"
  unfolding append_receipt_def
  by (intro rules reads_keep) (auto split: option.splits intro!: rules)

lemma wait_keeps: "keeps P (wait_loop ad slot timeout deadline)"
proof -
  have "keeps P (wait_round ad slot timeout deadline)"
    unfolding wait_round_def monotonic_def by (intro rules reads_keep poll_keeps)
  then show ?thesis by (rule wait_loop_keeps)
qed

lemma append_keeps: "keeps P (session_append ad value timeout)"
  unfolding session_append_def monotonic_def Let_def
  by (intro rules poll_keeps) (auto intro!: rules wait_keeps receipt_keeps)

end

end
