(* ===== verification/Durable.thy ===== *)
theory Durable
  imports Method_Laws Journal
begin

section \<open>A session over a \<^verbatim>\<open>FileJournal\<close>, and crashes\<close>

text \<open>
  A session whose journal is the directory of a \<^verbatim>\<open>FileJournal\<close> from its creation on, with system calls that
  fail as a list of outcomes says, and any other adapters. The journal object carries the run of the theory
  \<open>Journal\<close>: the journal, the disk, and what was appended and synced so far, which the program does not keep.
\<close>

subsection \<open>The journal as an adapter\<close>

type_synonym file_store = "run \<times> io list"

fun next_io :: "io list \<Rightarrow> io \<times> io list" where
  "next_io [] = (IoOk, [])"
| "next_io (out # outs) = (out, outs)"

definition fresh_store :: "io list \<Rightarrow> file_store" where
  "fresh_store ios = (new_run new_journal empty_disk, ios)"

definition store_open :: "int \<Rightarrow> int \<Rightarrow> int \<Rightarrow> file_store \<Rightarrow> (exn + unit) \<times> file_store" where
  "store_open fp node conf = (\<lambda>(w, ios).
     (case next_io ios of (out1, ios) \<Rightarrow> (case next_io ios of (out2, ios) \<Rightarrow> (case next_io ios of (out3, ios) \<Rightarrow>
      (case fj_open out1 out2 out3 fp node conf (rn_journal w) (rn_disk w) of (r, j, d) \<Rightarrow>
         (r, w\<lparr>rn_journal := j, rn_disk := d\<rparr>, ios))))))"

definition store_append :: "write_record list \<Rightarrow> file_store \<Rightarrow> (exn + unit) \<times> file_store" where
  "store_append records = (\<lambda>(w, ios).
     (case next_io ios of (out, ios) \<Rightarrow>
      (case fj_append out records (rn_journal w) (rn_disk w) of (r, j, d) \<Rightarrow>
         (r, note_append records r j d w, ios))))"

definition store_sync :: "file_store \<Rightarrow> (exn + unit) \<times> file_store" where
  "store_sync = (\<lambda>(w, ios).
     (case next_io ios of (out, ios) \<Rightarrow>
      (case fj_sync out (rn_journal w) (rn_disk w) of (r, j, d) \<Rightarrow>
         (r, note_sync r j d w, ios))))"

definition store_replay :: "file_store \<Rightarrow> (exn + write_record list) \<times> file_store" where
  "store_replay = (\<lambda>(w, ios).
     (case next_io ios of (out, ios) \<Rightarrow>
      (case fj_replay out (rn_journal w) (rn_disk w) of (r, j, d) \<Rightarrow>
         (r, w\<lparr>rn_journal := j, rn_disk := d, rn_failed := (rn_failed w \<or> \<not> is_ok r)\<rparr>, ios))))"

type_synonym ('c, 'h, 't, 'k) file_session = "('c, file_store, 'h, 't, 'k) session"

definition on_files :: "('c, file_store, 'h, 't, 'k) adapters \<Rightarrow> ('c, file_store, 'h, 't, 'k) adapters" where
  "on_files ad = ad\<lparr>ad_open := store_open (ad_fingerprint ad), ad_append := store_append, ad_sync := store_sync,
     ad_replay := store_replay\<rparr>"

lemma on_files_simps [simp]:
  "ad_core (on_files ad) = ad_core ad" "ad_append (on_files ad) = store_append" "ad_sync (on_files ad) = store_sync"
  "ad_open (on_files ad) = store_open (ad_fingerprint ad)" "ad_replay (on_files ad) = store_replay"
  by (simp_all add: on_files_def)

subsection \<open>A turn\<close>

text \<open>What a discharge does to the journal, and what it must have done before anything is visible.\<close>

lemma discharge_journal_cases:
  assumes "session_discharge ad b s = Some (r, s')" and "pb_writes b (sn_node s) = Some (res, n1)"
  shows "(sn_journal s' = sn_journal s
       \<and> ((\<exists>e. res = Inl e) \<and> sn_transport s' = sn_transport s \<and> sn_history s' = sn_history s \<or> res = Inr []))
    \<or> (\<exists>ws e. res = Inr ws \<and> ws \<noteq> [] \<and> (ad_append ad ws (sn_journal s) = (Inl e, sn_journal s')
         \<or> (\<exists>j. ad_append ad ws (sn_journal s) = (Inr (), j) \<and> ad_sync ad j = (Inl e, sn_journal s')))
         \<and> sn_transport s' = sn_transport s \<and> sn_history s' = sn_history s)
    \<or> (\<exists>ws j. res = Inr ws \<and> ws \<noteq> [] \<and> ad_append ad ws (sn_journal s) = (Inr (), j)
         \<and> ad_sync ad j = (Inr (), sn_journal s'))"
proof -
  obtain r1 s1 n where body: "discharge_body ad b s = Some (r1, s1)" and s': "s' = s1\<lparr>sn_node := n\<rparr>"
    using discharge_after_body [OF assms(1)] .
  show ?thesis using body assms(2) unfolding discharge_body_stages s'
    by (cases res) (auto simp: seq_Some_iff on_Some ret_def dest: discharge_outputs_journal split: if_splits)
qed

text \<open>The journal holds everything a session has confirmed: it is a run of the journal's own, in which everything
  appended is synced, or a system call has failed and the node has an open batch, so that no later turn
  begins. \<open>base\<close> are records known to be durable.\<close>

definition core_fits :: "'c core_ops \<Rightarrow> bool" where
  "core_fits ops = (\<forall>t c ef e slots c' ef'. co_transition ops t c ef = (e, slots, c', ef') \<longrightarrow>
     (\<forall>x \<in> set (ef_writes ef'). \<forall>rec. decode_write x = Inr rec \<longrightarrow> record_ok rec))"

definition stored :: "'c core_ops \<Rightarrow> int \<Rightarrow> int \<Rightarrow> int \<Rightarrow> write_record list \<Rightarrow> ('c, 'h, 't, 'k) file_session \<Rightarrow> bool" where
  "stored ops fp node conf base s =
     (session_ok ops s \<and> run_reachable fp node conf (fst (sn_journal s)) \<and> \<not> rn_spoiled (fst (sn_journal s))
      \<and> prefix base (rn_synced (fst (sn_journal s)))
      \<and> (if rn_failed (fst (sn_journal s)) then batch_is_open (sn_node s)
         else rn_synced (fst (sn_journal s)) = rn_appended (fst (sn_journal s))))"

lemma mapE_all: "mapE f xs = Inr ys \<Longrightarrow> \<forall>x \<in> set xs. \<forall>y. f x = Inr y \<longrightarrow> Q y \<Longrightarrow> list_all Q ys"
  by (induction xs arbitrary: ys) (auto simp: bindE_eq_Inr)

lemma store_append_run:
  assumes "store_append ws (w, ios) = (r, w', ios')" and "run_reachable fp node conf w" and "\<not> rn_failed w" and "list_all record_ok ws"
    and "ws \<noteq> []"
  shows "run_reachable fp node conf w' \<and> rn_appended w' = rn_appended w @ ws \<and> rn_synced w' = rn_synced w \<and> rn_failed w' = (\<not> is_ok r)
    \<and> rn_spoiled w' = rn_spoiled w \<and> (is_ok r \<longrightarrow> fj_file (rn_journal w') \<and> \<not> fj_synced (rn_journal w'))"
proof -
  obtain out j d where f: "fj_append out ws (rn_journal w) (rn_disk w) = (r, j, d)" and w': "w' = note_append ws r j d w"
    using assms(1) by (auto simp: store_append_def split: prod.splits)
  have "is_ok r \<Longrightarrow> fj_file j \<and> \<not> fj_synced j"
    using f assms(5) by (auto simp: fj_append_def split: if_splits sum.splits prod.splits)
  with run_reachable.Step [OF assms(2) run_step.Append [OF assms(4) f]] assms(3) show ?thesis
    by (simp add: w' note_append_def)
qed

lemma store_sync_run:
  assumes "store_sync (w, ios) = (r, w', ios')" and "run_reachable fp node conf w" and "\<not> rn_failed w"
    and "fj_file (rn_journal w)" and "\<not> fj_synced (rn_journal w)"
  shows "run_reachable fp node conf w' \<and> rn_appended w' = rn_appended w
    \<and> rn_synced w' = (if is_ok r then rn_appended w else rn_synced w) \<and> rn_failed w' = (\<not> is_ok r) \<and> rn_spoiled w' = rn_spoiled w"
proof -
  obtain out j d where f: "fj_sync out (rn_journal w) (rn_disk w) = (r, j, d)" and w': "w' = note_sync r j d w"
    using assms(1) by (auto simp: store_sync_def split: prod.splits)
  from run_reachable.Step [OF assms(2) run_step.Sync [OF f]] assms(3-5) show ?thesis
    by (simp add: w' note_sync_def covered_def)
qed

lemma begun_records_fit:
  assumes "core_fits ops" and "begin_transition ops t h0 = (OK, r, h)" and "mapE decode_write (ef_writes (hd_effects h)) = Inr ws"
  shows "list_all record_ok ws"
  using assms(3)
proof (rule mapE_all, intro ballI allI impI)
  fix x rec assume "x \<in> set (ef_writes (hd_effects h))" "decode_write x = Inr rec"
  then show "record_ok rec" using begin_cases [OF assms(2)] assms(1) unfolding core_fits_def by fastforce
qed

text \<open>A turn that began: how the state after it comes from the discharge.\<close>

lemma turn_begun:
  assumes "with_batch (node_begin ops t) m s = Some (r, s')" and "node_begin ops t (sn_node s) = (Inr b, n)"
  obtains r1 s1 n' where "m b (s\<lparr>sn_node := n\<rparr>) = Some (r1, s1)" and "s' = s1\<lparr>sn_node := n'\<rparr>"
  using assms by (auto simp: with_batch_def seq_Some_iff on_node_Some lift_result_def split: option.splits)

lemma turn_stored:
  assumes "core_gate (ad_core ad)" and "core_fits (ad_core ad)" and "stored (ad_core ad) fp node conf base s"
    and "with_batch (node_begin (ad_core ad) t) (session_discharge (on_files ad)) s = Some (r, s')"
    and "node_begin (ad_core ad) t (sn_node s) = (Inr b, n)"
  shows "stored (ad_core ad) fp node conf base s'
    \<and> (sn_transport s' \<noteq> sn_transport s \<or> sn_history s' \<noteq> sn_history s \<longrightarrow>
         (\<exists>ws n1. pb_writes b n = Some (Inr ws, n1)
            \<and> stored (ad_core ad) fp node conf (rn_appended (fst (sn_journal s)) @ ws) s'))"
proof -
  let ?st = "stored (ad_core ad) fp node conf"
  obtain w ios where wj: "sn_journal s = (w, ios)" by fastforce
  obtain h0 where h0: "nd_handle (sn_node s) = Some h0"
    using assms(5) by (auto simp: node_begin_def guarded_def split: if_splits option.splits)
  have br: "bridge_reachable (ad_core ad) h0" using assms(3) h0 by (simp add: stored_def node_ok_def)
  obtain h where h: "nd_handle n = Some h" and bt: "begin_transition (ad_core ad) t h0 = (OK, Some (pb_token b, pb_report b), h)"
    using node_begin_cases [OF assms(5) h0] by auto
  obtain n1 where n1: "pb_writes b n = Some (mapE decode_write (ef_writes (hd_effects h)), n1)"
    using discharge_stages [OF assms(1) br h0 assms(5) h] by blast
  have nf: "\<not> rn_failed w" and eq: "rn_synced w = rn_appended w" and rr: "run_reachable fp node conf w" and bs: "prefix base (rn_synced w)"
    and sp: "\<not> rn_spoiled w"
    using assms(3) begun_is_open [OF assms(5)] by (auto simp: stored_def wj split: if_splits)
  have ok': "session_ok (ad_core ad) s'"
  proof -
    have "keeps (session_ok (ad_core (on_files ad))) (with_batch (node_begin (ad_core (on_files ad)) t) (session_discharge (on_files ad)))"
      by (intro keeps_intros node_keeps)
    from keepsD [OF this] show ?thesis using assms(3,4) by (simp add: stored_def)
  qed
  note fits = begun_records_fit [OF assms(2) bt]
  obtain r1 s1 n' where d: "session_discharge (on_files ad) b (s\<lparr>sn_node := n\<rparr>) = Some (r1, s1)" and s': "s' = s1\<lparr>sn_node := n'\<rparr>"
    using turn_begun [OF assms(4,5)] .
  have pw: "pb_writes b (sn_node (s\<lparr>sn_node := n\<rparr>)) = Some (mapE decode_write (ef_writes (hd_effects h)), n1)"
    using n1 by simp
  consider (same) "sn_journal s' = (w, ios)" "(\<exists>e. mapE decode_write (ef_writes (hd_effects h)) = Inl e)
        \<and> sn_transport s' = sn_transport s \<and> sn_history s' = sn_history s \<or> mapE decode_write (ef_writes (hd_effects h)) = Inr []"
    | (failed) ws e where "mapE decode_write (ef_writes (hd_effects h)) = Inr ws" "ws \<noteq> []"
        "store_append ws (w, ios) = (Inl e, sn_journal s') \<or> (\<exists>j. store_append ws (w, ios) = (Inr (), j) \<and> store_sync j = (Inl e, sn_journal s'))"
        "sn_transport s' = sn_transport s" "sn_history s' = sn_history s"
    | (synced) ws j where "mapE decode_write (ef_writes (hd_effects h)) = Inr ws" "ws \<noteq> []"
        "store_append ws (w, ios) = (Inr (), j)" "store_sync j = (Inr (), sn_journal s')"
    using discharge_journal_cases [OF d pw] unfolding s' by (auto simp: wj)
  then show ?thesis
  proof cases
    case same
    then have "?st base s'" "?st (rn_appended w) s'" using ok' nf eq rr bs sp by (simp_all add: stored_def)
    then show ?thesis using same(2) n1 by (auto simp: wj)
  next
    case (failed ws e)
    obtain w' ios' where w': "sn_journal s' = (w', ios')" by fastforce
    have "run_reachable fp node conf w' \<and> rn_synced w' = rn_synced w \<and> rn_failed w' \<and> \<not> rn_spoiled w'"
      using failed(3)
    proof
      assume "store_append ws (w, ios) = (Inl e, sn_journal s')"
      then show ?thesis using store_append_run [OF _ rr nf fits [OF failed(1)] failed(2)] sp unfolding w' by fastforce
    next
      assume "\<exists>j. store_append ws (w, ios) = (Inr (), j) \<and> store_sync j = (Inl e, sn_journal s')"
      then obtain w1 ios1 where a: "store_append ws (w, ios) = (Inr (), w1, ios1)" and b: "store_sync (w1, ios1) = (Inl e, w', ios')"
        unfolding w' by (metis surj_pair)
      have a1: "run_reachable fp node conf w1 \<and> rn_synced w1 = rn_synced w \<and> \<not> rn_failed w1 \<and> \<not> rn_spoiled w1
          \<and> fj_file (rn_journal w1) \<and> \<not> fj_synced (rn_journal w1)"
        using store_append_run [OF a rr nf fits [OF failed(1)] failed(2)] sp by simp
      then show ?thesis using store_sync_run [OF b, of fp node conf] by simp
    qed
    moreover have "batch_is_open (sn_node s')"
    proof -
      have f: "ad_append (on_files ad) ws (sn_journal s) = (Inl e, sn_journal s')
          \<or> (\<exists>j1. ad_append (on_files ad) ws (sn_journal s) = (Inr (), j1) \<and> ad_sync (on_files ad) j1 = (Inl e, sn_journal s'))"
        using failed(3) by (simp add: wj)
      from failed_journal_turn [of "on_files ad", unfolded on_files_simps(1), OF assms(1) br h0 assms(5) h failed(1,2) this]
      obtain n2 h2 where n2: "s' = s\<lparr>sn_node := n2, sn_journal := sn_journal s'\<rparr>" "nd_handle n2 = Some h2"
        "bt_phase (hd_batch h2) = BP_PENDING"
        using failed_journal_turn [of "on_files ad" h0 s t b n h ws e "sn_journal s'" T_Tick]
          assms(1,4,5) br h0 h failed(1,2) f unfolding on_files_simps(1) by (metis Pair_inject option.inject)
      have "sn_node s' = n2" using arg_cong [OF n2(1), of sn_node] by simp
      then show ?thesis using n2(2,3) by (simp add: batch_is_open_def)
    qed
    ultimately show ?thesis using ok' bs failed(4,5) by (simp add: stored_def w')
  next
    case (synced ws j)
    obtain w1 ios1 where j: "j = (w1, ios1)" by fastforce
    obtain w' ios' where w': "sn_journal s' = (w', ios')" by fastforce
    have a: "run_reachable fp node conf w1 \<and> rn_appended w1 = rn_appended w @ ws \<and> rn_synced w1 = rn_synced w \<and> \<not> rn_failed w1
        \<and> \<not> rn_spoiled w1 \<and> fj_file (rn_journal w1) \<and> \<not> fj_synced (rn_journal w1)"
      using store_append_run [OF synced(3) [unfolded j] rr nf fits [OF synced(1)] synced(2)] sp by (simp add: is_ok_iff)
    have "run_reachable fp node conf w' \<and> rn_appended w' = rn_appended w @ ws \<and> rn_synced w' = rn_appended w @ ws \<and> \<not> rn_failed w'
        \<and> \<not> rn_spoiled w'"
      using store_sync_run [of w1 ios1 "Inr ()" w' ios' fp node conf] synced(4) a by (simp add: j w' is_ok_iff)
    then show ?thesis using ok' bs eq n1 synced(1) by (auto simp: stored_def w' wj intro: prefix_order.trans)
  qed
qed

subsection \<open>Every method\<close>

lemma with_batch_ret:
  assumes "with_batch begin (\<lambda>b. seq (m b) (\<lambda>_. ret (f b))) s = Some (r, s')"
  shows "\<exists>r'. with_batch begin m s = Some (r', s')"
  using assms
  by (fastforce simp: with_batch_def seq_Some_iff lift_result_def ret_def is_ok_def split: option.splits sum.splits)

lemma with_batch_cases:
  assumes "begins ops begin" and "with_batch begin m s = Some (r, s')"
  shows "s' = s \<or> (\<exists>t b n. node_begin ops t (sn_node s) = (Inr b, n) \<and> with_batch (node_begin ops t) m s = Some (r, s'))"
proof -
  obtain x n where b: "begin (sn_node s) = (x, n)" by fastforce
  show ?thesis
  proof (cases x)
    case (Inl e)
    then have "n = sn_node s" using assms(1) b unfolding begins_def by fastforce
    then show ?thesis using assms(2) b Inl by (auto simp: with_batch_def seq_Some_iff on_node_Some)
  next
    case (Inr p)
    then obtain t where t: "node_begin ops t (sn_node s) = (Inr p, n)" using assms(1) b by (fastforce simp: begins_def)
    then have "with_batch (node_begin ops t) m s = Some (r, s')"
      using assms(2) b Inr by (simp add: with_batch_def seq_def on_node_def call_on_def)
    with t show ?thesis by blast
  qed
qed

lemma turn_keeps_stored:
  assumes "core_gate (ad_core ad)" and "core_fits (ad_core ad)" and "begins (ad_core ad) begin"
  shows "keeps (stored (ad_core ad) fp node conf base) (with_batch begin (session_discharge (on_files ad)))"
  unfolding keeps_def using with_batch_cases [OF assms(3)] turn_stored [OF assms(1,2)] by blast

definition good_core :: "'c core_ops \<Rightarrow> bool" where
  "good_core ops = (core_gate ops \<and> core_fits ops)"

lemma stored_frames:
  "keeps (\<lambda>s. good_core ops \<longrightarrow> stored ops fp node conf base s) (on_history fh)"
  "keeps (\<lambda>s. good_core ops \<longrightarrow> stored ops fp node conf base s) (on_transport ft)"
  "keeps (\<lambda>s. good_core ops \<longrightarrow> stored ops fp node conf base s) (on_clock fk)"
  "keeps (\<lambda>s. good_core ops \<longrightarrow> stored ops fp node conf base s) (modify (sn_last_tick_update g))"
  unfolding on_history_def on_transport_def on_clock_def
  by ((rule keeps_call_on keeps_modify), simp add: stored_def)+

interpretation files: method_invariant "on_files ad" "\<lambda>s. good_core (ad_core ad) \<longrightarrow> stored (ad_core ad) fp node conf base s"
  for ad :: "('c, file_store, 'h, 't, 'k) adapters" and fp node conf base
proof (unfold_locales, goal_cases)
  case (1 start)
  then show ?case using turn_keeps_stored [of ad start fp node conf base] by (auto simp: keeps_def good_core_def)
next
  case (2 v)
  have "keeps (\<lambda>s. good_core (ad_core ad) \<longrightarrow> stored (ad_core ad) fp node conf base s)
      (with_batch (node_propose (ad_core ad) v) (session_discharge (on_files ad)))"
    using turn_keeps_stored [of ad "node_propose (ad_core ad) v" fp node conf base] methods_begin(2)
    by (auto simp: keeps_def good_core_def)
  then show ?case using with_batch_ret unfolding keeps_def by fastforce
qed (rule stored_frames)+

lemma fresh_stored:
  assumes "session_init (on_files ad) node members conf (fresh_store ios) tr hi k tick options epoch = (Inr s, rest)"
  shows "stored (ad_core ad) (ad_fingerprint ad) node conf [] s"
proof -
  obtain w ios1 ios2 w' recs where o: "store_open (ad_fingerprint ad) node conf (fresh_store ios) = (Inr (), w, ios1)"
    and p: "store_replay (w, ios1) = (Inr recs, w', ios2)" and j: "sn_journal s = (w', ios2)"
    using assms by (auto simp: session_init_def Let_def split: sum.splits prod.splits if_splits)
  obtain o1 o2 o3 j d where f: "fj_open o1 o2 o3 (ad_fingerprint ad) node conf new_journal empty_disk = (Inr (), j, d)"
    and w: "w = new_run j d"
    using o by (auto simp: store_open_def fresh_store_def new_run_def split: prod.splits)
  have "fj_open IoOk IoOk IoOk (ad_fingerprint ad) node conf new_journal empty_disk = (Inr (), j, d)"
    using f by (auto simp: fj_open_def fj_open_file_def Let_def new_journal_def empty_disk_def file_bytes_def file_write_def
        file_fsync_def split: if_splits sum.splits prod.splits io.splits)
  then have r: "run_reachable (ad_fingerprint ad) node conf w" unfolding w by (rule Created)
  obtain out j2 d2 where q: "fj_replay out (rn_journal w) (rn_disk w) = (Inr recs, j2, d2)"
    and w': "w' = w\<lparr>rn_journal := j2, rn_disk := d2, rn_failed := (rn_failed w \<or> \<not> is_ok (Inr recs :: exn + write_record list))\<rparr>"
    using p by (auto simp: store_replay_def split: prod.splits)
  from run_reachable.Step [OF r run_step.Replay [OF q]] show ?thesis
    using session_init_ok [OF assms] by (simp add: stored_def j w' w new_run_def)
qed

text \<open>What a host may do with such a session, short of closing it.\<close>

inductive files_path :: "('c, file_store, 'h, 't, 'k) adapters \<Rightarrow> ('c, 'h, 't, 'k) file_session
    \<Rightarrow> ('c, 'h, 't, 'k) file_session \<Rightarrow> bool" for ad s0 where
  here: "files_path ad s0 s0"
| turn: "files_path ad s0 s \<Longrightarrow> with_batch (node_begin (ad_core ad) t) (session_discharge (on_files ad)) s = Some (r, s')
    \<Longrightarrow> files_path ad s0 s'"
| poll: "files_path ad s0 s \<Longrightarrow> session_poll (on_files ad) timeout s = Some (r1, s') \<Longrightarrow> files_path ad s0 s'"
| append: "files_path ad s0 s \<Longrightarrow> session_append (on_files ad) value timeout s = Some (r2, s') \<Longrightarrow> files_path ad s0 s'"
| campaign: "files_path ad s0 s \<Longrightarrow> session_campaign (on_files ad) s = Some (r3, s') \<Longrightarrow> files_path ad s0 s'"
| entries: "files_path ad s0 s \<Longrightarrow> session_entries (on_files ad) start limit s = Some (r4, s') \<Longrightarrow> files_path ad s0 s'"

lemma files_path_stored:
  assumes "files_path ad s0 s" and "good_core (ad_core ad)" and "stored (ad_core ad) fp node conf base s0"
  shows "stored (ad_core ad) fp node conf base s"
  using assms(1)
proof (induction rule: files_path.induct)
  case (turn s t r s')
  show ?case using keepsD [OF turn_keeps_stored [of ad "node_begin (ad_core ad) t"] turn(2,3)] assms(2) node_begin_begins
    by (auto simp: good_core_def)
next
  case (poll s timeout r s')
  show ?case using keepsD [OF files.poll_keeps poll(2)] poll(3) assms(2) by blast
next
  case (append s v timeout r s')
  show ?case using keepsD [OF files.append_keeps append(2)] append(3) assms(2) by blast
next
  case (campaign s r s')
  show ?case using keepsD [OF files.campaign_keeps campaign(2)] campaign(3) assms(2) by blast
next
  case (entries s start limit r s')
  show ?case using keepsD [OF files.entries_keep entries(2)] entries(3) assms(2) by blast
qed (rule assms(3))

text \<open>C2: What a participant has let anyone see, it remembers after a crash. Take a session over a \<^verbatim>\<open>FileJournal\<close> in a
  fresh directory, used in any way, with system calls that fail anywhere; a transition of it whose discharge
  sent a message or recorded an entry, whatever it raised in the end; any further use; and then a crash
  that keeps the durable bytes and any number of the others. The same node reopens the journal, and
  replays all records appended before that transition, then every record of it, then some of those
  appended after it, in order, and nothing else.\<close>

theorem visible_survives_crash:
  assumes "core_gate (ad_core ad)" and "core_fits (ad_core ad)"
    and "is_u64 (ad_fingerprint ad)" and "is_u16 node" and "is_u64 conf"
    and "session_init (on_files ad) node members conf (fresh_store ios) tr hi clk tick options epoch = (Inr s0, rest)"
    and "files_path ad s0 s1"
    and "with_batch (node_begin (ad_core ad) t) (session_discharge (on_files ad)) s1 = Some (r, s2)"
    and "sn_transport s2 \<noteq> sn_transport s1 \<or> sn_history s2 \<noteq> sn_history s1"
    and "files_path ad s2 s3"
  shows "\<exists>b n ws n1 j d rs. node_begin (ad_core ad) t (sn_node s1) = (Inr b, n) \<and> pb_writes b n = Some (Inr ws, n1)
    \<and> fj_open o1 o2 o3 (ad_fingerprint ad) node conf new_journal (crash k (rn_disk (fst (sn_journal s3)))) = (Inr (), j, d)
    \<and> fst (fj_replay IoOk j d) = Inr rs
    \<and> prefix (rn_appended (fst (sn_journal s1)) @ ws) rs \<and> prefix rs (rn_appended (fst (sn_journal s3)))"
proof -
  let ?st = "stored (ad_core ad) (ad_fingerprint ad) node conf"
  have good: "good_core (ad_core ad)" using assms(1,2) by (simp add: good_core_def)
  have 1: "?st [] s1" by (rule files_path_stored [OF assms(7) good fresh_stored [OF assms(6)]])
  obtain b n where b: "node_begin (ad_core ad) t (sn_node s1) = (Inr b, n)"
  proof (cases "node_begin (ad_core ad) t (sn_node s1)")
    case (Pair x n)
    show ?thesis
    proof (cases x)
      case (Inl e)
      then have "s2 = s1" using assms(8) Pair refused_same [of _ t "sn_node s1" e n]
        by (auto simp: with_batch_def seq_Some_iff on_node_Some)
      then show ?thesis using assms(9) by simp
    qed (use Pair that in blast)
  qed
  obtain ws n1 where ws: "pb_writes b n = Some (Inr ws, n1)" and 2: "?st (rn_appended (fst (sn_journal s1)) @ ws) s2"
    using turn_stored [OF assms(1,2) 1 assms(8) b] assms(9) by blast
  have 3: "?st (rn_appended (fst (sn_journal s1)) @ ws) s3" by (rule files_path_stored [OF assms(10) good 2])
  then have "run_reachable (ad_fingerprint ad) node conf (fst (sn_journal s3))"
    and p: "prefix (rn_appended (fst (sn_journal s1)) @ ws) (rn_synced (fst (sn_journal s3)))"
    and sp: "\<not> rn_spoiled (fst (sn_journal s3))" by (simp_all add: stored_def)
  from reopened_after_crash [OF assms(3-5) this(1)] p b ws sp show ?thesis by (meson prefix_order.trans)
qed

end
