(* ===== verification/Session_Ends.thy ===== *)
theory Session_Ends
  imports Session_Laws
begin

section \<open>The methods of a session end\<close>

text \<open>
  \<^verbatim>\<open>poll\<close> and \<^verbatim>\<open>append\<close> loop until a deadline passes. Whether they return rests on the adapters: a clock
  that is not turned back and that moves on by a sleep, and a transport that does not hand out frames
  for ever. What a batch discharge needs to end is proved for every transition of a reachable node.
\<close>

definition returns :: "('s, 'a) prog \<Rightarrow> 's \<Rightarrow> bool" where
  "returns m s = (\<exists>r s'. m s = Some (r, s'))"

named_theorems returns_intros

lemma returns_pure [returns_intros]:
  "returns (ret x) s" "returns (raise e) s" "returns (get f) s" "returns (modify g) s" "returns (lift_result r) s"
  by (simp_all add: returns_def program_simps)

lemma returns_call_on [returns_intros]: "returns (call_on sel upd f) s"
  by (simp add: returns_def call_on_def split: prod.split)

lemma returns_seq:
  "returns m s \<Longrightarrow> (\<And>x s1. m s = Some (Inr x, s1) \<Longrightarrow> returns (f x) s1) \<Longrightarrow> returns (seq m f) s"
  by (auto simp: returns_def seq_def split: option.splits sum.splits prod.splits)

lemma returns_seq_total [returns_intros]:
  "returns m s \<Longrightarrow> (\<And>x s1. returns (f x) s1) \<Longrightarrow> returns (seq m f) s"
  by (rule returns_seq)

lemma returns_finally [returns_intros]:
  "returns m s \<Longrightarrow> (\<And>s1. returns fin s1) \<Longrightarrow> returns (finally_do m fin) s"
  unfolding returns_def finally_do_def by (fastforce split: option.splits sum.splits prod.splits)

lemma returns_except [returns_intros]:
  "returns m s \<Longrightarrow> (\<And>s1. returns h s1) \<Longrightarrow> returns (except_do m c h) s"
  unfolding returns_def except_do_def by (fastforce split: option.splits sum.splits prod.splits)

lemma returns_for_each [returns_intros]: "(\<And>x s1. returns (body x) s1) \<Longrightarrow> returns (for_each xs body) s"
  by (induction xs arbitrary: s) (auto intro: returns_intros)

lemma returns_if [returns_intros]: "returns m s \<Longrightarrow> returns m' s \<Longrightarrow> returns (if b then m else m') s"
  by simp

lemma returns_on [returns_intros]:
  "returns (on_node f) s" "returns (on_journal fj) s" "returns (on_history fh) s"
  "returns (on_transport ft) s" "returns (on_clock fk) s"
  unfolding on_node_def on_journal_def on_history_def on_transport_def on_clock_def
  by (rule returns_call_on)+

subsection \<open>Discharging\<close>

lemma outputs_return [returns_intros]:
  "returns (session_release ad entry) s" "returns (session_send ad envelope) s"
  unfolding session_release_def session_send_def by (intro returns_intros)+

lemma serve_returns [returns_intros]: "returns (session_serve ad request) s"
  unfolding session_serve_def by (intro returns_intros) (auto intro!: returns_intros)

text \<open>The reads of a confirmed batch return, decoded or with the first exception of a decoder.\<close>

lemma on_batch_read:
  assumes "m n = Some (r, n)" and "sn_node s = n"
  shows "returns (on_batch m) s" and "on_batch m s = Some (x, s') \<Longrightarrow> sn_node s' = n"
  using assms by (auto simp: returns_def on_batch_def run_on_def)

lemma discharge_outputs_return:
  assumes "pb_committed b n = Some (cs, n)" and "pb_messages b n = Some (ms, n)"
    and "pb_requests b n = Some (rs, n)" and "sn_node s = n"
  shows "returns (discharge_outputs ad b) s"
proof -
  have same: "keeps (\<lambda>s. sn_node s = n) (for_each cs' (session_release ad))"
    "keeps (\<lambda>s. sn_node s = n) (for_each ms' (session_send ad))" for cs' ms'
    by (intro keeps_for_each outputs_keep_node)+
  note read1 = on_batch_read [where m = "pb_committed b", OF assms(1)]
  note read2 = on_batch_read [where m = "pb_messages b", OF assms(2)]
  note read3 = on_batch_read(1) [where m = "pb_requests b", OF assms(3)]
  show ?thesis
    unfolding discharge_outputs_def seq_assoc
  proof (rule returns_seq)
    show "returns (on_batch (pb_committed b)) s" by (rule read1(1) [OF assms(4)])
    fix entries s1 assume "on_batch (pb_committed b) s = Some (Inr entries, s1)"
    from read1(2) [OF assms(4) this] have n1: "sn_node s1 = n" .
    show "returns (seq (for_each entries (session_release ad)) (\<lambda>_.
        seq (on_batch (pb_messages b)) (\<lambda>envelopes. seq (for_each envelopes (session_send ad)) (\<lambda>_.
          seq (on_batch (pb_requests b)) (\<lambda>requests. for_each requests (session_serve ad)))))) s1"
    proof (rule returns_seq)
      show "returns (for_each entries (session_release ad)) s1" by (intro returns_intros)
      fix u s2 assume "for_each entries (session_release ad) s1 = Some (Inr u, s2)"
      from keepsD [OF same(1) this n1] have n2: "sn_node s2 = n" .
      show "returns (seq (on_batch (pb_messages b)) (\<lambda>envelopes. seq (for_each envelopes (session_send ad)) (\<lambda>_.
          seq (on_batch (pb_requests b)) (\<lambda>requests. for_each requests (session_serve ad))))) s2"
      proof (rule returns_seq)
        show "returns (on_batch (pb_messages b)) s2" by (rule read2(1) [OF n2])
        fix envelopes s3 assume "on_batch (pb_messages b) s2 = Some (Inr envelopes, s3)"
        from read2(2) [OF n2 this] have n3: "sn_node s3 = n" .
        show "returns (seq (for_each envelopes (session_send ad)) (\<lambda>_.
            seq (on_batch (pb_requests b)) (\<lambda>requests. for_each requests (session_serve ad)))) s3"
        proof (rule returns_seq)
          show "returns (for_each envelopes (session_send ad)) s3" by (intro returns_intros)
          fix u s4 assume "for_each envelopes (session_send ad) s3 = Some (Inr u, s4)"
          from keepsD [OF same(2) this n3] have "sn_node s4 = n" .
          then show "returns (seq (on_batch (pb_requests b)) (\<lambda>requests. for_each requests (session_serve ad))) s4"
            by (intro returns_seq read3 returns_intros)
        qed
      qed
    qed
  qed
qed

lemma discharge_returns:
  assumes "core_gate (ad_core ad)" and "session_ok (ad_core ad) s"
    and "node_begin (ad_core ad) t (sn_node s) = (Inr b, n)" and "sn_node s1 = n"
  shows "returns (session_discharge ad b) s1"
proof -
  obtain h0 where h0: "nd_handle (sn_node s) = Some h0"
    using assms(3) by (auto simp: node_begin_def guarded_def split: if_splits option.splits)
  then have r: "bridge_reachable (ad_core ad) h0" using assms(2) by (simp add: node_ok_def)
  obtain h where h: "nd_handle n = Some h" using node_begin_cases [OF assms(3) h0] by auto
  obtain n1 n2 where w: "pb_writes b n = Some (mapE decode_write (ef_writes (hd_effects h)), n1)"
    and c: "is_ok (mapE decode_write (ef_writes (hd_effects h))) \<longrightarrow> pb_persisted b n1 = (Inr (), n2)
      \<and> pb_messages b n2 = Some (mapE decode_envelope (ef_messages (hd_effects h)), n2)
      \<and> pb_committed b n2 = Some (mapE decode_committed (ef_committed (hd_effects h)), n2)
      \<and> pb_requests b n2 = Some (mapE decode_request (ef_requests (hd_effects h)), n2)"
    using discharge_stages [OF assms(1) r h0 assms(3) h] by blast
  have "returns (discharge_body ad b) s1"
    unfolding discharge_body_stages
  proof (rule returns_seq)
    show "returns (on_batch (pb_writes b)) s1"
      using w assms(4) by (simp add: returns_def on_batch_def run_on_def)
    fix records s2 assume s2: "on_batch (pb_writes b) s1 = Some (Inr records, s2)"
    then have n2: "sn_node s2 = n1" "is_ok (mapE decode_write (ef_writes (hd_effects h)))"
      using w assms(4) by (auto simp: on_batch_Some)
    note o = discharge_outputs_return [of b n2]
    show "returns (seq (if records \<noteq> [] then seq (on_journal (ad_append ad records)) (\<lambda>_. on_journal (ad_sync ad))
        else ret ()) (\<lambda>_. seq (on_node (pb_persisted b)) (\<lambda>_. discharge_outputs ad b))) s2"
    proof (intro returns_seq returns_if returns_intros)
      fix u s3 assume s3: "(if records \<noteq> [] then seq (on_journal (ad_append ad records)) (\<lambda>_. on_journal (ad_sync ad))
        else ret ()) s2 = Some (Inr u, s3)"
      fix v s4 assume s4: "on_node (pb_persisted b) s3 = Some (Inr v, s4)"
      have "sn_node s3 = n1" using s3 n2(1) by (auto simp: seq_Some_iff on_Some ret_def split: if_splits)
      then have "sn_node s4 = n2" using s4 c n2(2) by (auto simp: on_node_Some)
      then show "returns (discharge_outputs ad b) s4" using c n2(2) by (intro discharge_outputs_return) auto
    qed
  qed
  then show ?thesis unfolding session_discharge_def by (intro returns_intros)
qed

lemma with_batch_returns:
  assumes "core_gate (ad_core ad)" and "session_ok (ad_core ad) s"
    and "\<And>b n. begin (sn_node s) = (Inr b, n) \<Longrightarrow> \<exists>t. node_begin (ad_core ad) t (sn_node s) = (Inr b, n)"
    and "\<And>b s1. returns (session_discharge ad b) s1 \<Longrightarrow> returns (body b) s1"
  shows "returns (with_batch begin body) s"
proof (cases "begin (sn_node s)")
  case (Pair r n)
  show ?thesis
  proof (cases r)
    case (Inl e)
    then show ?thesis using Pair by (simp add: returns_def with_batch_def seq_def on_node_def call_on_def)
  next
    case (Inr b)
    then obtain t where t: "node_begin (ad_core ad) t (sn_node s) = (Inr b, n)" using assms(3) Pair by blast
    have "returns (body b) (s\<lparr>sn_node := n\<rparr>)"
      by (rule assms(4), rule discharge_returns [OF assms(1,2) t]) simp
    then obtain r1 s1 where "body b (s\<lparr>sn_node := n\<rparr>) = Some (r1, s1)" by (auto simp: returns_def)
    moreover have "returns (seq (on_node (pb_exit (\<not> is_ok r1) b)) (\<lambda>_. lift_result r1 :: ('a, 'b, 'c, 'd, 'e, 'f) session_prog)) s1"
      by (intro returns_intros)
    moreover have "on_node begin s = Some (Inr b, s\<lparr>sn_node := n\<rparr>)" using Pair Inr by (simp add: on_node_Some)
    ultimately show ?thesis by (simp add: returns_def with_batch_def seq_step(1))
  qed
qed

lemma step_is_begin:
  "node_step ops env n = (Inr b, n') \<Longrightarrow> \<exists>t. node_begin ops t n = (Inr b, n')"
  "node_propose ops v n = (Inr b, n') \<Longrightarrow> \<exists>t. node_begin ops t n = (Inr b, n')"
  by (auto simp: node_step_def node_propose_def with_arg_def split: sum.splits)

lemma maybe_tick_returns:
  assumes "core_gate (ad_core ad)" and "session_ok (ad_core ad) s"
  shows "returns (maybe_tick ad) s"
  unfolding maybe_tick_def
proof (intro returns_seq returns_if returns_intros)
  show "returns (monotonic ad) s" unfolding monotonic_def by (intro returns_intros)
  fix now s1 early s2 u s3
  assume "monotonic ad s = Some (Inr now, s1)"
    and "get (\<lambda>s. now - sn_last_tick s < sn_tick_interval s) s1 = Some (Inr early, s2)"
    and "modify (sn_last_tick_update (\<lambda>_. now)) s2 = Some (Inr u, s3)"
  then have "sn_node s3 = sn_node s"
    by (auto simp: monotonic_def on_clock_def call_on_def get_def modify_def split: prod.splits)
  then show "returns (with_batch (node_tick (ad_core ad)) (session_discharge ad)) s3"
    using assms by (intro with_batch_returns) (auto simp: node_tick_def)
qed

subsection \<open>The clock and the traffic\<close>

text \<open>What ending rests on. \<open>now\<close> is the time a clock would report: reading it never goes back, and a sleep
  that returns has lasted as long as it was asked to. \<open>queued\<close> bounds the frames still to come: sending
  adds none, and receiving one leaves fewer.\<close>

definition clock_runs :: "('c, 'j, 'h, 't, 'k) adapters \<Rightarrow> ('k \<Rightarrow> rat) \<Rightarrow> bool" where
  "clock_runs ad now =
     ((\<forall>k r k'. ad_monotonic ad k = (r, k') \<longrightarrow> now k \<le> now k' \<and> (\<forall>v. r = Inr v \<longrightarrow> now k \<le> v \<and> v \<le> now k'))
      \<and> (\<forall>d k r k'. ad_sleep ad d k = (r, k') \<longrightarrow> now k \<le> now k' \<and> (is_ok r \<longrightarrow> now k + d \<le> now k')))"

definition traffic_ends :: "('c, 'j, 'h, 't, 'k) adapters \<Rightarrow> ('t \<Rightarrow> nat) \<Rightarrow> bool" where
  "traffic_ends ad queued =
     ((\<forall>p f t r t'. ad_send ad p f t = (r, t') \<longrightarrow> queued t' \<le> queued t)
      \<and> (\<forall>d t r t'. ad_receive ad d t = (r, t') \<longrightarrow>
           queued t' \<le> queued t \<and> (\<forall>x. r = Inr (Some x) \<longrightarrow> queued t' < queued t)))"

text \<open>At least this late, at most this much traffic left, and the tick as it was.\<close>

definition onward :: "('k \<Rightarrow> rat) \<Rightarrow> ('t \<Rightarrow> nat) \<Rightarrow> rat \<Rightarrow> nat \<Rightarrow> rat \<Rightarrow> ('c, 'j, 'h, 't, 'k) session \<Rightarrow> bool" where
  "onward now queued c m tick s = (c \<le> now (sn_clock s) \<and> queued (sn_transport s) \<le> m \<and> sn_tick_interval s = tick)"

named_theorems onward_intros

lemma onward_calls [onward_intros]:
  "keeps (onward now queued c m tick) (on_node f)" "keeps (onward now queued c m tick) (on_batch fb)"
  "keeps (onward now queued c m tick) (on_journal fj)" "keeps (onward now queued c m tick) (on_history fh)"
  "keeps (onward now queued c m tick) (modify (sn_applied_through_update g))"
  "keeps (onward now queued c m tick) (modify (sn_last_tick_update g'))"
  unfolding on_node_def on_batch_def on_journal_def on_history_def
  by ((rule keeps_call_on keeps_run_on keeps_modify), simp add: onward_def)+

lemma onward_adapters [onward_intros]:
  "clock_runs ad now \<Longrightarrow> keeps (onward now queued c m tick) (on_clock (ad_monotonic ad))"
  "clock_runs ad now \<Longrightarrow> keeps (onward now queued c m tick) (on_clock (ad_sleep ad d))"
  "traffic_ends ad queued \<Longrightarrow> keeps (onward now queued c m tick) (on_transport (ad_send ad p f))"
  "traffic_ends ad queued \<Longrightarrow> keeps (onward now queued c m tick) (on_transport (ad_receive ad d))"
  unfolding on_clock_def on_transport_def
  by ((rule keeps_call_on), force simp: onward_def clock_runs_def traffic_ends_def)+

lemma onward_with_batch [onward_intros]:
  assumes "\<And>b. keeps (onward now queued c m tick) (body b)"
  shows "keeps (onward now queued c m tick) (with_batch begin body)"
  by (intro with_batch_keeps_all onward_intros assms)

lemma onward_send [onward_intros]:
  "traffic_ends ad queued \<Longrightarrow> keeps (onward now queued c m tick) (session_send ad envelope)"
  unfolding session_send_def by (intro keeps_intros onward_intros)

lemma onward_serve [onward_intros]:
  "traffic_ends ad queued \<Longrightarrow> keeps (onward now queued c m tick) (session_serve ad request)"
  unfolding session_serve_def by (intro keeps_intros onward_intros) (auto intro!: keeps_intros onward_intros)

lemma onward_discharge [onward_intros]:
  "traffic_ends ad queued \<Longrightarrow> keeps (onward now queued c m tick) (session_discharge ad b)"
  unfolding session_discharge_def discharge_body_def session_release_def by (intro keeps_intros onward_intros)

lemma onward_maybe_tick [onward_intros]:
  "clock_runs ad now \<Longrightarrow> traffic_ends ad queued \<Longrightarrow> keeps (onward now queued c m tick) (maybe_tick ad)"
  unfolding maybe_tick_def monotonic_def by (intro keeps_intros onward_intros)

text \<open>How many more rounds the loops can make: one per tick until the deadline and one per frame.\<close>

definition ticks_to :: "rat \<Rightarrow> rat \<Rightarrow> rat \<Rightarrow> nat" where
  "ticks_to deadline tick time = nat \<lceil>(deadline - time) / tick\<rceil>"

lemma ticks_to_mono: "0 < tick \<Longrightarrow> time \<le> time' \<Longrightarrow> ticks_to deadline tick time' \<le> ticks_to deadline tick time"
  unfolding ticks_to_def by (intro nat_mono ceiling_mono divide_right_mono) simp_all

lemma ticks_to_less:
  assumes "0 < tick" and "time < deadline" and "time + min tick (deadline - time) \<le> time'"
  shows "ticks_to deadline tick time' < ticks_to deadline tick time"
proof -
  have pos: "0 < \<lceil>(deadline - time) / tick\<rceil>" using assms by simp
  have "\<lceil>(deadline - time') / tick\<rceil> < \<lceil>(deadline - time) / tick\<rceil>"
  proof (cases "tick \<le> deadline - time")
    case True
    then have "(deadline - time') / tick \<le> (deadline - time - tick) / tick"
      using assms by (intro divide_right_mono) (simp_all add: min_def)
    then have "(deadline - time') / tick \<le> (deadline - time) / tick - 1"
      using assms(1) by (simp add: diff_divide_distrib)
    then have "\<lceil>(deadline - time') / tick\<rceil> \<le> \<lceil>(deadline - time) / tick - 1\<rceil>" by (rule ceiling_mono)
    then show ?thesis by simp
  next
    case False
    then have "(deadline - time') / tick \<le> 0" using assms by (simp add: field_simps min_def)
    then show ?thesis using pos by linarith
  qed
  with pos show ?thesis unfolding ticks_to_def by linarith
qed

definition fuel :: "('k \<Rightarrow> rat) \<Rightarrow> ('t \<Rightarrow> nat) \<Rightarrow> rat \<Rightarrow> ('c, 'j, 'h, 't, 'k) session \<Rightarrow> nat" where
  "fuel now queued deadline s = ticks_to deadline (sn_tick_interval s) (now (sn_clock s)) + queued (sn_transport s)"

subsection \<open>Polling ends\<close>

lemma on_transport_Some:
  "on_transport f s = Some (r, s') \<longleftrightarrow> (\<exists>t. f (sn_transport s) = (r, t) \<and> s' = s\<lparr>sn_transport := t\<rparr>)"
  by (auto simp: on_transport_def call_on_def split: prod.splits)

lemma on_clock_Some:
  "on_clock f s = Some (r, s') \<longleftrightarrow> (\<exists>k. f (sn_clock s) = (r, k) \<and> s' = s\<lparr>sn_clock := k\<rparr>)"
  by (auto simp: on_clock_def call_on_def split: prod.splits)

lemma poll_round_returns:
  assumes "core_gate (ad_core ad)" and "session_ok (ad_core ad) s"
  shows "returns (poll_round ad timeout deadline) s"
  unfolding poll_round_def Let_def monotonic_def
proof (intro returns_seq returns_intros)
  show "returns (maybe_tick ad) s" by (rule maybe_tick_returns [OF assms])
  fix u s1 now s2 received s3
  assume s1: "maybe_tick ad s = Some (Inr u, s1)" and s2: "on_clock (ad_monotonic ad) s1 = Some (Inr now, s2)"
    and s3: "on_transport (ad_receive ad (max (deadline - now) 0)) s2 = Some (Inr received, s3)"
  have "session_ok (ad_core ad) s1" by (rule keepsD [OF driving_keeps(1) s1 assms(2)])
  then have ok: "session_ok (ad_core ad) s3" using s2 s3 by (auto simp: on_clock_Some on_transport_Some)
  show "returns (case received of
         None \<Rightarrow>
           if deadline - now \<le> 0 then ret (0, True)
           else seq (get sn_tick_interval) (\<lambda>tick.
             seq (on_clock (ad_sleep ad (min tick (deadline - now)))) (\<lambda>_. ret (0, False)))
       | Some (peer, frame) \<Rightarrow>
           seq (lift_result (decode (ad_fingerprint ad) frame)) (\<lambda>envelope.
           seq (with_batch (node_step (ad_core ad) envelope) (session_discharge ad)) (\<lambda>_.
             if 0 < timeout then seq (on_clock (ad_monotonic ad)) (\<lambda>now. ret (1, deadline \<le> now))
             else ret (1, False)))) s3"
  proof (cases received)
    case None
    then show ?thesis by (simp only: option.case) (intro returns_intros)
  next
    case (Some pf)
    obtain peer frame where pf: "pf = (peer, frame)" by fastforce
    show ?thesis unfolding Some pf option.case prod.case
    proof (intro returns_seq returns_if returns_intros)
      fix envelope s4 assume "lift_result (decode (ad_fingerprint ad) frame) s3 = Some (Inr envelope, s4)"
      then have "s4 = s3" by (simp add: lift_result_def)
      then show "returns (with_batch (node_step (ad_core ad) envelope) (session_discharge ad)) s4"
        using ok by (intro with_batch_returns [OF assms(1)] step_is_begin(1)) auto
    qed
  qed
qed

text \<open>A round that does not end the loop comes nearer to the deadline or uses up a frame; one that does, at
  a positive timeout, has reached it.\<close>

lemma poll_round_progress:
  assumes "clock_runs ad now" and "traffic_ends ad queued" and "0 < sn_tick_interval s"
    and "poll_round ad timeout deadline s = Some (Inr (k, stop), s')"
  shows "if stop then deadline \<le> now (sn_clock s') else fuel now queued deadline s' < fuel now queued deadline s"
    and "onward now queued (now (sn_clock s)) (queued (sn_transport s)) (sn_tick_interval s) s'"
proof -
  let ?P = "\<lambda>s. onward now queued (now (sn_clock s)) (queued (sn_transport s)) (sn_tick_interval s)"
  have onward_refl: "?P x x" for x by (simp add: onward_def)
  obtain u s1 v s2 received s3 where s1: "maybe_tick ad s = Some (Inr u, s1)"
    and s2: "on_clock (ad_monotonic ad) s1 = Some (Inr v, s2)"
    and s3: "on_transport (ad_receive ad (max (deadline - v) 0)) s2 = Some (Inr received, s3)"
    and rest: "(case received of
         None \<Rightarrow>
           if deadline - v \<le> 0 then ret (0, True)
           else seq (get sn_tick_interval) (\<lambda>tick.
             seq (on_clock (ad_sleep ad (min tick (deadline - v)))) (\<lambda>_. ret (0, False)))
       | Some (peer, frame) \<Rightarrow>
           seq (lift_result (decode (ad_fingerprint ad) frame)) (\<lambda>envelope.
           seq (with_batch (node_step (ad_core ad) envelope) (session_discharge ad)) (\<lambda>_.
             if 0 < timeout then seq (on_clock (ad_monotonic ad)) (\<lambda>now. ret (1, deadline \<le> now))
             else ret (1, False)))) s3 = Some (Inr (k, stop), s')"
    using assms(4) unfolding poll_round_def Let_def monotonic_def by (elim seq_InrE) blast
  have "keeps (?P s) (maybe_tick ad)" by (intro onward_intros assms(1,2))
  from keepsD [OF this s1 onward_refl] have o1: "?P s s1" .
  have t2: "now (sn_clock s1) \<le> v" "v \<le> now (sn_clock s2)" "sn_transport s2 = sn_transport s1"
      "sn_tick_interval s2 = sn_tick_interval s1"
    using s2 assms(1) by (auto simp: on_clock_Some clock_runs_def)
  have t3: "sn_clock s3 = sn_clock s2" "queued (sn_transport s3) \<le> queued (sn_transport s2)"
      "sn_tick_interval s3 = sn_tick_interval s2" "received \<noteq> None \<Longrightarrow> queued (sn_transport s3) < queued (sn_transport s2)"
    using s3 assms(2) unfolding on_transport_Some traffic_ends_def by fastforce+
  have o3: "?P s s3" using o1 t2 t3 by (auto simp: onward_def)
  have "(if stop then deadline \<le> now (sn_clock s') else fuel now queued deadline s' < fuel now queued deadline s)
      \<and> ?P s s'"
  proof (cases received)
    case None
    show ?thesis
    proof (cases "deadline - v \<le> 0")
      case True
      then show ?thesis using rest None o3 t2(2) t3(1) by (auto simp: ret_def)
    next
      case False
      let ?d = "min (sn_tick_interval s) (deadline - v)"
      obtain r' k' where sl: "ad_sleep ad ?d (sn_clock s3) = (Inr r', k')" "s' = s3\<lparr>sn_clock := k'\<rparr>" "\<not> stop"
        using rest None False o3 by (auto simp: seq_Some_iff get_def ret_def on_clock_Some onward_def)
      have late: "v + ?d \<le> now k'" "now (sn_clock s3) \<le> now k'"
        using sl(1) assms(1) t2(2) t3(1) by (fastforce simp: clock_runs_def)+
      have "now (sn_clock s) \<le> v" using o1 t2(1) by (simp add: onward_def)
      then have "ticks_to deadline (sn_tick_interval s) (now k') < ticks_to deadline (sn_tick_interval s) (now (sn_clock s))"
        using False assms(3) ticks_to_less [of "sn_tick_interval s" v deadline "now k'"] late(1)
          ticks_to_mono [of "sn_tick_interval s" "now (sn_clock s)" v deadline] by linarith
      then show ?thesis using sl(2,3) o3 late(2) by (auto simp: fuel_def onward_def)
    qed
  next
    case (Some pf)
    obtain peer frame where pf: "pf = (peer, frame)" by fastforce
    obtain envelope u' s4 where s4: "with_batch (node_step (ad_core ad) envelope) (session_discharge ad) s3 = Some (Inr u', s4)"
      and last: "(if 0 < timeout then seq (on_clock (ad_monotonic ad)) (\<lambda>now. ret (1, deadline \<le> now)) else ret (1, False)) s4
        = Some (Inr (k, stop), s')"
      using rest unfolding Some pf option.case prod.case
      by (auto simp: seq_Some_iff [of "lift_result r" for r] lift_result_def elim: seq_InrE)
    have "keeps (?P s3) (with_batch (node_step (ad_core ad) envelope) (session_discharge ad))"
      by (intro onward_intros assms(2))
    from keepsD [OF this s4 onward_refl] have o4: "?P s3 s4" .
    have fin: "now (sn_clock s4) \<le> now (sn_clock s') \<and> sn_transport s' = sn_transport s4
        \<and> sn_tick_interval s' = sn_tick_interval s4 \<and> (stop \<longrightarrow> deadline \<le> now (sn_clock s'))"
      using last assms(1) by (auto simp: seq_Some_iff ret_def on_clock_Some clock_runs_def split: if_splits)
        (metis order_trans)+
    have "?P s s'" using o3 o4 fin by (auto simp: onward_def)
    moreover have "queued (sn_transport s') < queued (sn_transport s)"
      using fin o4 o1 t3(4) t2(3) Some by (auto simp: onward_def)
    moreover have "ticks_to deadline (sn_tick_interval s') (now (sn_clock s')) \<le> ticks_to deadline (sn_tick_interval s) (now (sn_clock s))"
      using \<open>?P s s'\<close> assms(3) by (auto simp: onward_def intro: ticks_to_mono)
    ultimately show ?thesis using fin by (auto simp: fuel_def)
  qed
  then show "if stop then deadline \<le> now (sn_clock s') else fuel now queued deadline s' < fuel now queued deadline s"
    "?P s s'" by blast+
qed

lemma poll_loop_ends:
  assumes "core_gate (ad_core ad)" and "clock_runs ad now" and "traffic_ends ad queued"
    and "session_ok (ad_core ad) s" and "0 < sn_tick_interval s"
  shows "\<exists>r s'. poll_loop ad timeout deadline processed s = Some (r, s') \<and> session_ok (ad_core ad) s'
    \<and> (is_ok r \<longrightarrow> deadline \<le> now (sn_clock s')
         \<and> onward now queued (now (sn_clock s)) (queued (sn_transport s)) (sn_tick_interval s) s')"
  using assms(4,5)
proof (induction "fuel now queued deadline s" arbitrary: s processed rule: less_induct)
  case less
  obtain r s1 where r: "poll_round ad timeout deadline s = Some (r, s1)"
    using poll_round_returns [OF assms(1) less.prems(1)] unfolding returns_def by blast
  have ok: "session_ok (ad_core ad) s1" by (rule keepsD [OF poll_round_keeps r less.prems(1)])
  show ?case
  proof (cases r)
    case (Inl e)
    then show ?thesis using r ok by (subst poll_loop.simps) simp
  next
    case (Inr ks)
    obtain k stop where ks: "ks = (k, stop)" by fastforce
    note p = poll_round_progress [OF assms(2,3) less.prems(2) r [unfolded Inr ks]]
    show ?thesis
    proof (cases stop)
      case True
      then show ?thesis using r Inr ks ok p by (subst poll_loop.simps) simp
    next
      case False
      have o1: "onward now queued (now (sn_clock s)) (queued (sn_transport s)) (sn_tick_interval s) s1" by (rule p(2))
      have "0 < sn_tick_interval s1" using o1 less.prems(2) by (simp add: onward_def)
      then obtain r2 s2 where l: "poll_loop ad timeout deadline (processed + k) s1 = Some (r2, s2)"
          "session_ok (ad_core ad) s2" "is_ok r2 \<longrightarrow> deadline \<le> now (sn_clock s2)
         \<and> onward now queued (now (sn_clock s1)) (queued (sn_transport s1)) (sn_tick_interval s1) s2"
        using less.hyps [OF _ ok, of "processed + k"] p(1) False by auto
      moreover have "onward now queued (now (sn_clock s)) (queued (sn_transport s)) (sn_tick_interval s) s2"
        if "is_ok r2" using l(3) that o1 by (auto simp: onward_def)
      ultimately show ?thesis using r Inr ks False by (subst poll_loop.simps) simp
    qed
  qed
qed

lemma session_poll_ends:
  assumes "core_gate (ad_core ad)" and "clock_runs ad now" and "traffic_ends ad queued"
    and "session_ok (ad_core ad) s" and "0 < sn_tick_interval s"
  shows "\<exists>r s'. session_poll ad timeout s = Some (r, s') \<and> session_ok (ad_core ad) s'
    \<and> (is_ok r \<longrightarrow> onward now queued (now (sn_clock s)) (queued (sn_transport s)) (sn_tick_interval s) s'
         \<and> (\<forall>d. timeout = Fin d \<longrightarrow> now (sn_clock s) + d \<le> now (sn_clock s')))"
proof (cases "check_timeout timeout")
  case (Inl e)
  then show ?thesis using assms(4) by (simp add: session_poll_def seq_def lift_result_def)
next
  case (Inr d)
  then have d: "timeout = Fin d" by (auto simp: check_timeout_def split: pyfloat.splits if_splits)
  obtain v k where v: "ad_monotonic ad (sn_clock s) = (v, k)" by fastforce
  let ?s1 = "s\<lparr>sn_clock := k\<rparr>"
  have t: "now (sn_clock s) \<le> now k \<and> (\<forall>x. v = Inr x \<longrightarrow> now (sn_clock s) \<le> x)"
    using v assms(2) by (auto simp: clock_runs_def)
  show ?thesis
  proof (cases v)
    case (Inl e)
    then show ?thesis using Inr v assms(4)
      by (simp add: session_poll_def seq_def lift_result_def monotonic_def on_clock_def call_on_def)
  next
    case Inr': (Inr x)
    obtain r s' where l: "poll_loop ad d (x + d) 0 ?s1 = Some (r, s')" "session_ok (ad_core ad) s'"
      "is_ok r \<longrightarrow> x + d \<le> now (sn_clock s') \<and> onward now queued (now k) (queued (sn_transport s)) (sn_tick_interval s) s'"
      using poll_loop_ends [OF assms(1-3), of ?s1 d "x + d" 0] assms(4,5) by auto
    have "session_poll ad timeout s = Some (r, s')"
      using Inr Inr' v l(1) by (simp add: session_poll_def seq_def lift_result_def monotonic_def on_clock_def call_on_def)
    moreover have "is_ok r \<longrightarrow> onward now queued (now (sn_clock s)) (queued (sn_transport s)) (sn_tick_interval s) s'
         \<and> (\<forall>d. timeout = Fin d \<longrightarrow> now (sn_clock s) + d \<le> now (sn_clock s'))"
      using l(3) t Inr' d by (auto simp: onward_def)
    ultimately show ?thesis using l(2) by blast
  qed
qed

subsection \<open>Appending ends\<close>

lemma last_committed_same: "last_committed ad s = Some (r, s') \<Longrightarrow> s' = s"
  by (auto simp: last_committed_def seq_Some_iff on_node_Some ret_def dest!: node_state_same)

lemma last_committed_returns: "\<exists>r. last_committed ad s = Some (r, s)"
proof -
  have "returns (last_committed ad) s" unfolding last_committed_def by (intro returns_intros)
  then show ?thesis using last_committed_same unfolding returns_def by blast
qed

lemma wait_loop_ends:
  assumes "core_gate (ad_core ad)" and "clock_runs ad now" and "traffic_ends ad queued"
    and "session_ok (ad_core ad) s" and "0 < sn_tick_interval s"
  shows "returns (wait_loop ad slot timeout deadline) s"
  using assms(4,5)
proof (induction "ticks_to deadline (sn_tick_interval s) (now (sn_clock s))" arbitrary: s rule: less_induct)
  case less
  let ?tick = "sn_tick_interval s"
  have round: "returns (wait_loop ad slot timeout deadline) s"
    if "wait_round ad slot timeout deadline s = Some (r, s1)"
      and "r = Inr False \<Longrightarrow> returns (wait_loop ad slot timeout deadline) s1" for r s1
    using that by (cases r) (auto simp: returns_def wait_loop.simps [of ad slot timeout deadline s])
  obtain r1 where r1: "last_committed ad s = Some (r1, s)" using last_committed_returns by blast
  show ?case
  proof (cases "\<exists>d. r1 = Inr d \<and> d < slot")
    case False
    then have "\<exists>r. wait_round ad slot timeout deadline s = Some (r, s) \<and> r \<noteq> Inr False"
      using r1 by (cases r1) (auto simp: wait_round_def seq_def ret_def)
    then show ?thesis using round by blast
  next
    case True
    then obtain d where d: "r1 = Inr d" "d < slot" by blast
    obtain v1 k1 where v1: "ad_monotonic ad (sn_clock s) = (v1, k1)" by fastforce
    obtain v2 k2 where v2: "ad_monotonic ad k1 = (v2, k2)" by fastforce
    have t: "now (sn_clock s) \<le> now k1" "now k1 \<le> now k2" "\<And>x. v1 = Inr x \<Longrightarrow> now (sn_clock s) \<le> x"
        "\<And>x. v1 = Inr x \<Longrightarrow> x \<le> now k1" "\<And>y. v2 = Inr y \<Longrightarrow> now k1 \<le> y" "\<And>y. v2 = Inr y \<Longrightarrow> y \<le> now k2"
      using v1 v2 assms(2) by (auto simp: clock_runs_def)
    show ?thesis
    proof (cases "\<exists>x y. v1 = Inr x \<and> x < deadline \<and> v2 = Inr y")
      case False
      then have "\<exists>e s1. wait_round ad slot timeout deadline s = Some (Inl e, s1)"
        using r1 d v1 v2
        by (cases v1; cases v2)
           (auto simp: wait_round_def seq_def monotonic_def on_clock_def call_on_def raise_def split: if_splits)
      then show ?thesis using round by blast
    next
      case True
      then obtain x y where xy: "v1 = Inr x" "x < deadline" "v2 = Inr y" by blast
      let ?w = "min ?tick (max (deadline - y) 0)"
      let ?s1 = "s\<lparr>sn_clock := k2\<rparr>"
      obtain r s2 where p: "session_poll ad (Fin ?w) ?s1 = Some (r, s2)" "session_ok (ad_core ad) s2"
        "is_ok r \<longrightarrow> onward now queued (now k2) (queued (sn_transport s)) ?tick s2 \<and> now k2 + ?w \<le> now (sn_clock s2)"
        using session_poll_ends [OF assms(1-3), of ?s1 "Fin ?w"] less.prems by auto
      have wr: "wait_round ad slot timeout deadline s = Some (bindE r (\<lambda>_. Inr False), s2)"
        using r1 d v1 v2 xy p(1)
        by (cases r) (simp_all add: wait_round_def seq_def monotonic_def on_clock_def call_on_def get_def ret_def)
      show ?thesis
      proof (rule round [OF wr])
        assume "bindE r (\<lambda>_. Inr False) = Inr False"
        then have r: "is_ok r" by (cases r) auto
        have late: "now k2 + ?w \<le> now (sn_clock s2)" and tick: "sn_tick_interval s2 = ?tick"
          using p(3) r by (auto simp: onward_def)
        have "now (sn_clock s) < deadline" using t(3) [OF xy(1)] xy(2) by linarith
        moreover have "now (sn_clock s) + min ?tick (deadline - now (sn_clock s)) \<le> now (sn_clock s2)"
          using late t(1,2) t(5,6) [OF xy(3)] less.prems(2) by (auto simp: min_def max_def split: if_splits)
        ultimately have "ticks_to deadline ?tick (now (sn_clock s2)) < ticks_to deadline ?tick (now (sn_clock s))"
          by (rule ticks_to_less [OF less.prems(2)])
        then show "returns (wait_loop ad slot timeout deadline) s2"
          using less.hyps [of s2] p(2) tick less.prems(2) by simp
      qed
    qed
  qed
qed

lemma entry_at_returns: "returns (entry_at ad slot) s"
  unfolding entry_at_def
  by (intro returns_intros) (auto split: option.splits intro!: returns_intros)

lemma append_receipt_returns: "returns (append_receipt ad value slot) s"
  unfolding append_receipt_def
  by (intro returns_intros entry_at_returns) (auto split: option.splits intro!: returns_intros)

text \<open>C10: \<^verbatim>\<open>append\<close> never hangs. On a session whose node is within the bridge's protocol, with adapters that may
  raise anywhere, a clock that moves on and a transport with finitely many frames to come: whatever
  the core decides and whenever, the call ends, with a receipt or with an exception; and so does
  \<^verbatim>\<open>poll\<close> for every timeout.\<close>

theorem append_ends:
  assumes "core_gate (ad_core ad)" and "clock_runs ad now" and "traffic_ends ad queued"
    and "session_ok (ad_core ad) s" and "0 < sn_tick_interval s"
  shows "(\<exists>r s'. session_append ad value timeout s = Some (r, s'))
    \<and> (\<exists>r s'. session_poll ad timeout s = Some (r, s'))"
proof
  show "\<exists>r s'. session_poll ad timeout s = Some (r, s')" using session_poll_ends [OF assms] by blast
  have "returns (session_append ad value timeout) s"
    unfolding session_append_def Let_def
  proof (intro returns_seq returns_if returns_intros)
    fix d s1 assume s1: "lift_result (check_timeout timeout) s = Some (Inr d, s1)"
    show "returns (monotonic ad) s1" unfolding monotonic_def by (intro returns_intros)
    fix v s2 assume "monotonic ad s1 = Some (Inr v, s2)"
    with s1 have s2: "session_ok (ad_core ad) s2" "0 < sn_tick_interval s2"
      using assms(4,5) by (auto simp: lift_result_def monotonic_def on_clock_Some)
    show "returns (session_poll ad (Fin 0)) s2"
      using session_poll_ends [OF assms(1-3) s2] unfolding returns_def by blast
    fix k s3 assume p: "session_poll ad (Fin 0) s2 = Some (Inr k, s3)"
    have s3: "session_ok (ad_core ad) s3" "0 < sn_tick_interval s3"
      using session_poll_ends [OF assms(1-3) s2, of "Fin 0"] p s2(2) by (auto simp: onward_def)
    let ?w = "with_batch (node_propose (ad_core ad) value)
        (\<lambda>b. seq (session_discharge ad b) (\<lambda>_. ret (pb_status b, pb_assigned_slot b)))"
    show "returns ?w s3"
      by (rule with_batch_returns [OF assms(1) s3(1)], erule step_is_begin(2)) (auto intro: returns_intros)
    fix x s4 assume w: "?w s3 = Some (Inr x, s4)"
    have "keeps (onward now queued (now (sn_clock s3)) (queued (sn_transport s3)) (sn_tick_interval s3)) ?w"
      by (intro onward_intros keeps_intros assms(3))
    from keepsD [OF this w] have t4: "sn_tick_interval s4 = sn_tick_interval s3" by (simp add: onward_def)
    have "keeps (session_ok (ad_core ad)) ?w" by (intro keeps_intros node_keeps)
    from keepsD [OF this w s3(1)] have ok4: "session_ok (ad_core ad) s4" .
    obtain status slot where x: "x = (status, slot)" by fastforce
    show "returns (case x of (status, slot) \<Rightarrow>
        seq (if status = class_code NotLeader
            then seq (on_node (node_state (ad_core ad))) (\<lambda>state. raise (not_leader_error state)) else ret ()) (\<lambda>_.
        seq (lift_result (raise_for status [(''value_bytes'', PInt (int (length value)))])) (\<lambda>_.
        seq (wait_loop ad slot d (v + d)) (\<lambda>_. append_receipt ad value slot)))) s4"
      unfolding x prod.case
    proof (intro returns_seq returns_if returns_intros append_receipt_returns)
      fix u s5 u' s6
      assume "(if status = class_code NotLeader
            then seq (on_node (node_state (ad_core ad))) (\<lambda>state. raise (not_leader_error state)) else ret ()) s4
          = Some (Inr u, s5)"
        and "lift_result (raise_for status [(''value_bytes'', PInt (int (length value)))]) s5 = Some (Inr u', s6)"
      then have "s6 = s4" by (auto simp: seq_Some_iff raise_def ret_def lift_result_def split: if_splits)
      then show "returns (wait_loop ad slot d (v + d)) s6"
        using wait_loop_ends [OF assms(1-3) ok4] s3(2) t4 by simp
    qed
  qed
  then show "\<exists>r s'. session_append ad value timeout s = Some (r, s')" by (simp add: returns_def)
qed

end
