(* ===== verification/Session_Samples.thy ===== *)
theory Session_Samples
  imports Session_Ends Journal History
begin

section \<open>A session to evaluate\<close>

text \<open>
  A small core to run sessions on: one member that decides what it is given at once. Its state is the
  list of decided entries; a proposal writes a promise, sends a message and releases the entry at the
  next slot, without the unused rest of the body array. With it, the adapters of \<^verbatim>\<open>storage.py\<close> in memory, a transport that queues what is sent and
  has nothing to receive, and a clock that moves only by sleeping.
\<close>

definition trim_entry :: "c_entry \<Rightarrow> c_entry" where
  "trim_entry e = e\<lparr>ce_body := take (nat (ce_length e)) (ce_body e)\<rparr>"

definition log_write :: c_write where
  "log_write = sample_write\<lparr>cw_entry := zero_entry\<lparr>ce_body := []\<rparr>\<rparr>"

definition log_wire :: c_envelope where
  "log_wire = sample_wire\<lparr>cv_entry := zero_entry\<lparr>ce_body := []\<rparr>\<rparr>"

definition log_core :: "c_entry list core_ops" where
  "log_core = \<lparr>co_transition = (\<lambda>t c ef. case t of
       T_Propose e \<Rightarrow> (0, [int (length c) + 1], c @ [trim_entry e],
         \<lparr>ef_writes = [log_write], ef_messages = [log_wire],
          ef_committed = [\<lparr>cc_slot = int (length c) + 1, cc_entry = trim_entry e\<rparr>], ef_requests = [], ef_pending = True\<rparr>)
     | _ \<Rightarrow> (0, [], c, no_effects)),
     co_advance_floor = (\<lambda>through c. (0, c)), co_set_campaign = (\<lambda>b c. c),
     co_decided_through = (\<lambda>c. int (length c)), co_memory_floor = (\<lambda>c. 0),
     co_read = (\<lambda>c s. if 1 \<le> s \<and> s \<le> int (length c) then Some (c ! (nat s - 1)) else None),
     co_state = (\<lambda>c. (co_state sample_core ())\<lparr>cst_decided_through := int (length c)\<rparr>),
     co_membership = (\<lambda>cfg. 0), co_init = (\<lambda>cfg. (0, [])), co_ledger = (\<lambda>cfg. []),
     co_replay_fold = (\<lambda>w c. (0, c)), co_restore = (\<lambda>f c. (0, c))\<rparr>"

lemma log_core_gate: "core_gate log_core"
  by (auto simp: core_gate_def log_core_def no_effects_def split: transition.splits)

type_synonym log_adapters = "(c_entry list, mem_journal, mem_history, (node_id \<times> bytes) list, rat) adapters"
type_synonym log_session = "(c_entry list, mem_journal, mem_history, (node_id \<times> bytes) list, rat) session"

definition log_ad :: log_adapters where
  "log_ad = \<lparr>ad_core = log_core, ad_fingerprint = 5,
     ad_open = (\<lambda>n c j. (Inr (), mj_open n c j)), ad_append = (\<lambda>rs j. (Inr (), mj_append rs j)),
     ad_sync = (\<lambda>j. (Inr (), mj_sync j)), ad_replay = (\<lambda>j. (Inr (mj_replay j), j)),
     ad_close_journal = (\<lambda>j. (Inr (), mj_close j)),
     ad_record = (\<lambda>s p k h. (Inr (), mh_record s p k h)), ad_read = (\<lambda>s n h. (Inr (mh_read s n h), h)),
     ad_cursor = mh_cursor, ad_close_history = (\<lambda>h. (Inr (), mh_close h)),
     ad_send = (\<lambda>p f t. (Inr (), t @ [(p, f)])), ad_receive = (\<lambda>d t. (Inr None, t)),
     ad_close_transport = (\<lambda>t. (Inr (), [])),
     ad_monotonic = (\<lambda>k. (Inr k, k)), ad_sleep = (\<lambda>d k. (Inr (), k + max d 0))\<rparr>"

definition log_options :: session_options where
  "log_options = \<lparr>so_priority = None, so_read_quorum = None, so_write_quorum = None,
     so_election_timeout = None, so_heartbeat_interval = None, so_resend_interval = None,
     so_campaign_disabled = None, so_gate_proposals = None\<rparr>"

definition log_session :: log_session where
  "log_session = (case fst (session_init log_ad 1 [1] 1 mj_new [] mh_new 0 (Fin (1 / 20)) log_options 7) of
     Inr s \<Rightarrow> s | Inl _ \<Rightarrow> undefined)"


lemma log_opens: "is_ok (fst (session_init log_ad 1 [1] 1 mj_new [] mh_new 0 (Fin (1 / 20)) log_options 7))"
  by code_simp

lemma log_reachable: "session_reachable log_ad log_session"
proof -
  obtain s rest where "session_init log_ad 1 [1] 1 mj_new [] mh_new 0 (Fin (1 / 20)) log_options 7 = (Inr s, rest)"
    using log_opens
    by (cases "session_init log_ad 1 [1] 1 mj_new [] mh_new 0 (Fin (1 / 20)) log_options 7") (auto simp: is_ok_iff)
  then show ?thesis by (auto simp: log_session_def intro: Init)
qed

text \<open>A program that returned, with what holds of its value and of the state after it.\<close>

definition returned :: "(exn + 'a \<Rightarrow> 's \<Rightarrow> bool) \<Rightarrow> ((exn + 'a) \<times> 's) option \<Rightarrow> bool" where
  "returned P y = (case y of None \<Rightarrow> False | Some (r, s) \<Rightarrow> P r s)"

lemma returnedE: "returned P y \<Longrightarrow> (\<And>r s. y = Some (r, s) \<Longrightarrow> P r s \<Longrightarrow> thesis) \<Longrightarrow> thesis"
  by (auto simp: returned_def split: option.splits)

definition is_receipt :: "slot \<Rightarrow> exn + receipt \<Rightarrow> bool" where
  "is_receipt slot r = (case r of Inl _ \<Rightarrow> False | Inr x \<Rightarrow> rc_slot x = slot)"

lemma log_appended: "returned (\<lambda>r s. is_receipt 1 r) (session_append log_ad [104, 105] (Fin 1) log_session)"
  by code_simp

theorem receipt_is_true_witness:
  "\<exists>r s' s1 d s2 s3. session_append log_ad [104, 105] (Fin 1) log_session = Some (Inr r, s')
    \<and> receipt_value r = [104, 105] \<and> last_committed log_ad s1 = Some (Inr d, s2) \<and> 1 \<le> d
    \<and> entry_at log_ad 1 s2 = Some (Inr (Some (rc_entry r)), s3)"
proof -
  obtain r s' where a: "session_append log_ad [104, 105] (Fin 1) log_session = Some (Inr r, s')" "rc_slot r = 1"
    by (rule returnedE [OF log_appended]) (auto simp: is_receipt_def split: sum.splits)
  from receipt_is_true [OF a(1)] a show ?thesis by auto
qed

theorem session_keeps_contract_witness:
  "\<exists>r s h. session_append log_ad [104, 105] (Fin 1) log_session = Some (r, s) \<and> nd_handle (sn_node s) = Some h
    \<and> \<not> hd_violated h \<and> \<not> ef_pending (hd_effects h)"
proof -
  have "returned (\<lambda>r s. case nd_handle (sn_node s) of None \<Rightarrow> False
      | Some h \<Rightarrow> bt_phase (hd_batch h) = BP_FINISHED) (session_append log_ad [104, 105] (Fin 1) log_session)"
    by code_simp
  then obtain r s h where a: "session_append log_ad [104, 105] (Fin 1) log_session = Some (r, s)"
    "nd_handle (sn_node s) = Some h" "bt_phase (hd_batch h) = BP_FINISHED"
    by (rule returnedE) (auto split: option.splits)
  have "core_gate (ad_core log_ad)" using log_core_gate by (simp add: log_ad_def)
  from session_keeps_contract [OF this Append [OF log_reachable a(1)] a(2)] a show ?thesis by auto
qed

definition log_after :: log_session where
  "log_after = (case session_append log_ad [104, 105] (Fin 1) log_session of
     Some (_, s) \<Rightarrow> s | None \<Rightarrow> log_session)"

theorem entries_contiguous_witness:
  "\<exists>es s'. session_entries log_ad 0 (Some 5) log_after = Some (Inr es, s') \<and> map cm_slot es = [1]"
proof -
  have "returned (\<lambda>r s. case r of Inl _ \<Rightarrow> False | Inr es \<Rightarrow> length es = 1) (session_entries log_ad 0 (Some 5) log_after)"
    by code_simp
  then obtain es s' where e: "session_entries log_ad 0 (Some 5) log_after = Some (Inr es, s')" "length es = 1"
    by (rule returnedE) (auto split: sum.splits)
  from entries_contiguous [OF e(1)] obtain d where "map cm_slot es = take 1 [1..d]" using e(2) by auto
  then show ?thesis using e by (cases "1 \<le> d") (auto simp: upto_rec1)
qed

text \<open>The batch of a proposal, not discharged yet.\<close>

definition log_proposal :: c_entry where
  "log_proposal = (case entry_for [104, 105] of Inr e \<Rightarrow> e | Inl _ \<Rightarrow> zero_entry)"

definition log_begin :: "pending_batch \<times> c_entry list node" where
  "log_begin = (case node_begin log_core (T_Propose log_proposal) (sn_node log_session) of
     (Inr b, n) \<Rightarrow> (b, n) | (Inl _, n) \<Rightarrow> (undefined, n))"

definition begun_handle :: "'c node \<Rightarrow> 'c handle" where
  "begun_handle n = (case nd_handle n of Some h \<Rightarrow> h | None \<Rightarrow> undefined)"

lemma log_begun:
  obtains b n h0 h ws cs ms where "log_begin = (b, n)" and "nd_handle (sn_node log_session) = Some h0"
    and "bridge_reachable log_core h0" and "node_begin log_core (T_Propose log_proposal) (sn_node log_session) = (Inr b, n)"
    and "nd_handle n = Some h" and "mapE decode_write (ef_writes (hd_effects h)) = Inr ws"
    and "mapE decode_envelope (ef_messages (hd_effects h)) = Inr ms"
    and "mapE decode_committed (ef_committed (hd_effects h)) = Inr cs"
    and "mapE decode_request (ef_requests (hd_effects h)) = Inr []"
    and "length ws = 1" and "length ms = 1" and "length cs = 1"
proof -
  let ?h = "begun_handle (snd log_begin)"
  have h0: "nd_handle (sn_node log_session) \<noteq> None" by code_simp
  then obtain h0 where h0: "nd_handle (sn_node log_session) = Some h0" by blast
  have "session_ok log_core log_session" using session_reachable_ok [OF log_reachable] by (simp add: log_ad_def)
  then have r: "bridge_reachable log_core h0" using h0 by (simp add: node_ok_def)
  have "is_ok (fst (node_begin log_core (T_Propose log_proposal) (sn_node log_session)))" by code_simp
  then obtain b n where b: "node_begin log_core (T_Propose log_proposal) (sn_node log_session) = (Inr b, n)"
    by (cases "node_begin log_core (T_Propose log_proposal) (sn_node log_session)") (auto simp: is_ok_iff)
  then have lb: "log_begin = (b, n)" by (simp add: log_begin_def)
  obtain h where h: "nd_handle n = Some h" using node_begin_cases [OF b h0] by auto
  then have hh: "?h = h" by (simp add: lb begun_handle_def)
  have "case mapE decode_write (ef_writes (hd_effects ?h)) of Inl _ \<Rightarrow> False | Inr ws \<Rightarrow> length ws = 1" by code_simp
  moreover have "case mapE decode_envelope (ef_messages (hd_effects ?h)) of Inl _ \<Rightarrow> False | Inr ws \<Rightarrow> length ws = 1"
    by code_simp
  moreover have "case mapE decode_committed (ef_committed (hd_effects ?h)) of Inl _ \<Rightarrow> False | Inr ws \<Rightarrow> length ws = 1"
    by code_simp
  moreover have "case mapE decode_request (ef_requests (hd_effects ?h)) of Inl _ \<Rightarrow> False | Inr ws \<Rightarrow> length ws = 0"
    by code_simp
  ultimately show thesis using that [OF lb h0 r b h] unfolding hh by (auto split: sum.splits)
qed

lemma log_core_of: "ad_core log_ad = log_core" by (simp add: log_ad_def)

theorem durable_before_visible_witness:
  "\<exists>b n r s' records n1 n2. session_discharge log_ad b (log_session\<lparr>sn_node := n\<rparr>) = Some (r, s')
    \<and> pb_writes b n = Some (Inr records, n1) \<and> records \<noteq> []
    \<and> sn_journal s' = mj_sync (mj_append records (sn_journal log_session)) \<and> pb_persisted b n1 = (Inr (), n2)"
proof -
  obtain b n where b: "log_begin = (b, n)" by fastforce
  have "returned (\<lambda>r s. sn_transport s \<noteq> [] \<and> mj_synced (sn_journal s) = 1)
      (session_discharge log_ad (fst log_begin) (log_session\<lparr>sn_node := snd log_begin\<rparr>))" by code_simp
  then obtain r s' where d: "session_discharge log_ad b (log_session\<lparr>sn_node := n\<rparr>) = Some (r, s')"
    "sn_transport s' \<noteq> []" "mj_synced (sn_journal s') = 1" unfolding b by (auto elim: returnedE)
  have e: "sn_transport log_session = []" "mj_synced (sn_journal log_session) = 0" by code_simp+
  with durable_before_visible [OF d(1)] d(2) obtain records n1 n2 where
      w: "pb_writes b n = Some (Inr records, n1)" "pb_persisted b n1 = (Inr (), n2)"
    and j: "if records = [] then sn_journal s' = sn_journal log_session
       else \<exists>j. ad_append log_ad records (sn_journal log_session) = (Inr (), j) \<and> ad_sync log_ad j = (Inr (), sn_journal s')"
    by (auto cong: if_cong)
  have "records \<noteq> []" using j d(3) e(2) by auto
  with j have "sn_journal s' = mj_sync (mj_append records (sn_journal log_session))" by (auto simp: log_ad_def)
  with d w \<open>records \<noteq> []\<close> show ?thesis by blast
qed

theorem discharge_in_order_witness:
  "\<exists>b n n2 n3 h3 j ms cs. length cs = 1 \<and> length ms = 1 \<and> nd_handle n3 = Some h3 \<and> fst (batch_open h3) = OK
    \<and> session_discharge log_ad b (log_session\<lparr>sn_node := n\<rparr>) =
        (case outputs log_ad cs ms [] (log_session\<lparr>sn_node := n2, sn_journal := j\<rparr>) of
           None \<Rightarrow> None
         | Some (Inl e, s1) \<Rightarrow> Some (Inl e, s1\<lparr>sn_node := n3\<rparr>)
         | Some (Inr _, s1) \<Rightarrow>
             (if sn_applied_through s1 \<noteq> 0
              then on_node (node_advance_memory_floor log_core (sn_applied_through s1)) else ret ())
             (s1\<lparr>sn_node := n3\<rparr>))"
proof -
  obtain b n h0 h ws cs ms where l: "log_begin = (b, n)" "nd_handle (sn_node log_session) = Some h0"
    "bridge_reachable log_core h0" "node_begin log_core (T_Propose log_proposal) (sn_node log_session) = (Inr b, n)"
    "nd_handle n = Some h" "mapE decode_write (ef_writes (hd_effects h)) = Inr ws"
    "mapE decode_envelope (ef_messages (hd_effects h)) = Inr ms"
    "mapE decode_committed (ef_committed (hd_effects h)) = Inr cs"
    "mapE decode_request (ef_requests (hd_effects h)) = Inr []"
    "length ws = 1" "length ms = 1" "length cs = 1" by (rule log_begun)
  have j: "if ws = [] then mj_sync (mj_append ws (sn_journal log_session)) = sn_journal log_session
       else ad_append log_ad ws (sn_journal log_session) = (Inr (), mj_append ws (sn_journal log_session))
         \<and> ad_sync log_ad (mj_append ws (sn_journal log_session)) = (Inr (), mj_sync (mj_append ws (sn_journal log_session)))"
    using l(10) by (auto simp: log_ad_def)
  from discharge_in_order [of log_ad, unfolded log_core_of, OF log_core_gate l(3,2,4,5,6,7,8,9) j] l(11,12)
  show ?thesis by blast
qed

definition failing_ad :: log_adapters where
  "failing_ad = log_ad\<lparr>ad_append := (\<lambda>rs j. (Inl (err StorageError []), j))\<rparr>"

theorem journal_failure_blocks_witness:
  "\<exists>n'. with_batch (node_begin log_core (T_Propose log_proposal)) (session_discharge failing_ad) log_session
      = Some (Inl (err WritesUnconfirmed []), log_session\<lparr>sn_node := n'\<rparr>)
    \<and> node_begin log_core T_Tick n' = (Inl (err BatchPending []), n')"
proof -
  obtain b n h0 h ws cs ms where l: "log_begin = (b, n)" "nd_handle (sn_node log_session) = Some h0"
    "bridge_reachable log_core h0" "node_begin log_core (T_Propose log_proposal) (sn_node log_session) = (Inr b, n)"
    "nd_handle n = Some h" "mapE decode_write (ef_writes (hd_effects h)) = Inr ws"
    "mapE decode_envelope (ef_messages (hd_effects h)) = Inr ms"
    "mapE decode_committed (ef_committed (hd_effects h)) = Inr cs"
    "mapE decode_request (ef_requests (hd_effects h)) = Inr []"
    "length ws = 1" "length ms = 1" "length cs = 1" by (rule log_begun)
  have c: "ad_core failing_ad = log_core" by (simp add: failing_ad_def log_ad_def)
  have ws: "ws \<noteq> []" using l(10) by auto
  have a: "ad_append failing_ad ws (sn_journal log_session) = (Inl (err StorageError []), sn_journal log_session) \<or> X" for X
    by (simp add: failing_ad_def)
  from journal_failure_blocks [of failing_ad, unfolded c, OF log_core_gate l(3,2,4,5,6) ws a, of T_Tick]
  show ?thesis by simp
qed

theorem append_ends_witness:
  "(\<exists>r s'. session_append log_ad [104, 105] PosInf log_after = Some (r, s'))
    \<and> (\<exists>r s'. session_poll log_ad (Fin (1 / 2)) log_session = Some (r, s'))
    \<and> (\<exists>r s'. session_append log_ad [104, 105] (Fin (1 / 2)) log_session = Some (r, s'))"
proof -
  have c: "clock_runs log_ad (\<lambda>k. k)" "traffic_ends log_ad (\<lambda>_. 0)"
    by (auto simp: clock_runs_def traffic_ends_def log_ad_def is_ok_iff)
  have t: "0 < sn_tick_interval log_session" "0 < sn_tick_interval log_after" by code_simp+
  have g: "core_gate (ad_core log_ad)" using log_core_gate by (simp add: log_core_of)
  have ok: "session_ok (ad_core log_ad) log_session" "session_ok (ad_core log_ad) log_after"
    using session_reachable_ok [OF log_reachable] session_reachable_ok [OF Append [OF log_reachable]]
    by (auto simp: log_after_def split: option.splits)
  from append_ends [OF g c ok(1) t(1), of "[104, 105]" "Fin (1 / 2)"] append_ends [OF g c ok(2) t(2), of "[104, 105]" PosInf]
  show ?thesis by blast
qed

end
