(* ===== verification/Durable_Samples.thy ===== *)
theory Durable_Samples
  imports Durable Session_Samples
begin

section \<open>A session over a \<^verbatim>\<open>FileJournal\<close> to evaluate\<close>

definition file_log_ad :: "(c_entry list, file_store, mem_history, (node_id \<times> bytes) list, rat) adapters" where
  "file_log_ad = \<lparr>ad_core = log_core, ad_fingerprint = 5,
     ad_open = (\<lambda>n c j. (Inr (), j)), ad_append = (\<lambda>rs j. (Inr (), j)),
     ad_sync = (\<lambda>j. (Inr (), j)), ad_replay = (\<lambda>j. (Inr [], j)),
     ad_close_journal = (\<lambda>j. (Inr (), j)),
     ad_record = (\<lambda>s p k h. (Inr (), mh_record s p k h)), ad_read = (\<lambda>s n h. (Inr (mh_read s n h), h)),
     ad_cursor = mh_cursor, ad_close_history = (\<lambda>h. (Inr (), mh_close h)),
     ad_send = (\<lambda>p f t. (Inr (), t @ [(p, f)])), ad_receive = (\<lambda>d t. (Inr None, t)),
     ad_close_transport = (\<lambda>t. (Inr (), [])),
     ad_monotonic = (\<lambda>k. (Inr k, k)), ad_sleep = (\<lambda>d k. (Inr (), k + max d 0))\<rparr>"

definition file_log_opened where
  "file_log_opened = session_init (on_files file_log_ad) 1 [1] 1 (fresh_store []) [] mh_new 0 (Fin (1 / 20)) log_options 7"

definition file_log_session where
  "file_log_session = (case fst file_log_opened of Inr s \<Rightarrow> s | Inl _ \<Rightarrow> undefined)"

lemma file_log_opens: "is_ok (fst file_log_opened)"
  by code_simp

lemma file_log_start:
  "sn_node file_log_session = sn_node log_session" "sn_history file_log_session = mh_new"
  "snd (sn_journal file_log_session) = []" "fj_file (rn_journal (fst (sn_journal file_log_session)))"
  "\<not> fj_closed (rn_journal (fst (sn_journal file_log_session)))" "fj_at (rn_journal (fst (sn_journal file_log_session))) = None"
  "rn_appended (fst (sn_journal file_log_session)) = []"
  by code_simp+

lemma log_core_fits: "core_fits log_core"
proof -
  have d: "\<exists>rec. decode_write log_write = Inr rec \<and> record_ok rec"
    by (simp add: log_write_def sample_write_def zero_entry_def decode_write_def decode_entry_def index_of_def
        all_write_kinds_def all_entry_kinds_def py_index_def record_ok_def is_width_defs no_entry_def)
  have "set (ef_writes ef') \<subseteq> {log_write}" if "co_transition log_core t c ef = (e, slots, c', ef')" for t c ef e slots c' ef'
    using that by (cases t) (auto simp: log_core_def no_effects_def)
  then show ?thesis using d unfolding core_fits_def by fastforce
qed

lemma file_log_core: "ad_core (on_files file_log_ad) = log_core" "ad_core file_log_ad = log_core" "ad_fingerprint file_log_ad = 5"
  by (simp_all add: file_log_ad_def)

lemma file_log_stored: "stored log_core 5 1 1 [] file_log_session"
proof -
  obtain rest where "file_log_opened = (Inr file_log_session, rest)"
    using file_log_opens by (metis file_log_session_def is_ok_iff prod.collapse sum.case(2))
  from fresh_stored [OF this [unfolded file_log_opened_def]] show ?thesis by (simp add: file_log_core)
qed

text \<open>The records of the proposal are appended and synced.\<close>

lemma file_log_saves:
  assumes "list_all record_ok ws" and "ws \<noteq> []"
  shows "\<exists>j j'. store_append ws (sn_journal file_log_session) = (Inr (), j) \<and> store_sync j = (Inr (), j')"
proof -
  obtain w where w: "sn_journal file_log_session = (w, [])" "fj_file (rn_journal w)"
    "\<not> fj_closed (rn_journal w)" "fj_at (rn_journal w) = None"
    using file_log_start(3-6) by (cases "sn_journal file_log_session") auto
  obtain bs where bs: "mapE encode_record ws = Inr bs" using journal_stream.encodes_all [OF assms(1)] by blast
  show ?thesis using assms(2) w(2-4)
    by (simp add: w(1) store_append_def store_sync_def note_append_def fj_append_def fj_sync_def bs file_put_def file_write_def file_fsync_def)
qed

lemma recorded_keeps:
  "keeps (\<lambda>s. mh_entries (sn_history s) \<noteq> fmempty) (session_release (on_files file_log_ad) c)"
  "keeps (\<lambda>s. mh_entries (sn_history s) \<noteq> fmempty) (session_send (on_files file_log_ad) e)"
proof -
  have m: "keeps (\<lambda>s. mh_entries (sn_history s) \<noteq> fmempty) (modify (sn_applied_through_update f))" for f
    by (rule keeps_modify) simp
  have r: "keeps (\<lambda>s. mh_entries (sn_history s) \<noteq> fmempty) (on_history (ad_record (on_files file_log_ad) x p k))" for x p k
    unfolding on_history_def by (rule keeps_call_on) (auto simp: file_log_ad_def on_files_def mh_record_def Let_def)
  show "keeps (\<lambda>s. mh_entries (sn_history s) \<noteq> fmempty) (session_release (on_files file_log_ad) c)"
    unfolding session_release_def by (intro keeps_seq m r)
  show "keeps (\<lambda>s. mh_entries (sn_history s) \<noteq> fmempty) (session_send (on_files file_log_ad) e)"
    unfolding session_send_def
    by (intro keeps_seq keeps_pure keeps_except other_object_keeps(13) [of "\<lambda>h. mh_entries h \<noteq> fmempty"])
qed

lemma file_log_turn:
  obtains r s where "with_batch (node_begin log_core (T_Propose log_proposal)) (session_discharge (on_files file_log_ad))
      file_log_session = Some (r, s)" and "mh_entries (sn_history s) \<noteq> fmempty"
proof -
  obtain b n h0 h ws cs ms where l: "log_begin = (b, n)" "nd_handle (sn_node log_session) = Some h0"
    "bridge_reachable log_core h0" "node_begin log_core (T_Propose log_proposal) (sn_node log_session) = (Inr b, n)"
    "nd_handle n = Some h" "mapE decode_write (ef_writes (hd_effects h)) = Inr ws"
    "mapE decode_envelope (ef_messages (hd_effects h)) = Inr ms"
    "mapE decode_committed (ef_committed (hd_effects h)) = Inr cs"
    "mapE decode_request (ef_requests (hd_effects h)) = Inr []"
    "length ws = 1" "length ms = 1" "length cs = 1" by (rule log_begun)
  have ok: "session_ok log_core file_log_session" using file_log_stored by (simp add: stored_def)
  have "returns (with_batch (node_begin log_core (T_Propose log_proposal)) (session_discharge (on_files file_log_ad))) file_log_session"
    by (rule with_batch_returns) (use log_core_gate ok in \<open>auto simp: file_log_core\<close>)
  then obtain r s where t: "with_batch (node_begin log_core (T_Propose log_proposal)) (session_discharge (on_files file_log_ad))
      file_log_session = Some (r, s)" by (auto simp: returns_def)
  have nb: "node_begin log_core (T_Propose log_proposal) (sn_node file_log_session) = (Inr b, n)"
    using l(4) by (simp add: file_log_start(1))
  obtain r1 s1 n' where d: "session_discharge (on_files file_log_ad) b (file_log_session\<lparr>sn_node := n\<rparr>) = Some (r1, s1)"
    and s: "s = s1\<lparr>sn_node := n'\<rparr>" by (rule turn_begun [OF t nb])
  have bt: "begin_transition log_core (T_Propose log_proposal) h0 = (OK, Some (pb_token b, pb_report b), h)"
    using node_begin_cases [OF l(4,2)] l(5) by auto
  have "list_all record_ok ws" by (rule begun_records_fit [OF log_core_fits bt l(6)])
  then obtain j j' where "store_append ws (sn_journal file_log_session) = (Inr (), j)" "store_sync j = (Inr (), j')"
    using file_log_saves l(10) by (metis length_0_conv zero_neq_one)
  then have jj: "if ws = [] then j' = sn_journal file_log_session
      else ad_append (on_files file_log_ad) ws (sn_journal file_log_session) = (Inr (), j) \<and> ad_sync (on_files file_log_ad) j = (Inr (), j')"
    using l(10) by auto
  obtain n2 n3 where e: "session_discharge (on_files file_log_ad) b (file_log_session\<lparr>sn_node := n\<rparr>) =
        (case outputs (on_files file_log_ad) cs ms [] (file_log_session\<lparr>sn_node := n2, sn_journal := j'\<rparr>) of
           None \<Rightarrow> None
         | Some (Inl e, s1) \<Rightarrow> Some (Inl e, s1\<lparr>sn_node := n3\<rparr>)
         | Some (Inr _, s1) \<Rightarrow>
             (if sn_applied_through s1 \<noteq> 0
              then on_node (node_advance_memory_floor (ad_core (on_files file_log_ad)) (sn_applied_through s1)) else ret ())
             (s1\<lparr>sn_node := n3\<rparr>))"
    using discharge_of_turn [of "on_files file_log_ad", unfolded file_log_core(1), OF log_core_gate l(3)
        l(2) [folded file_log_start(1)] nb l(5-9) jj] unfolding file_log_core(1) by blast
  obtain ro so where o: "outputs (on_files file_log_ad) cs ms [] (file_log_session\<lparr>sn_node := n2, sn_journal := j'\<rparr>) = Some (ro, so)"
    using d e by (auto split: option.splits)
  have "mh_entries (sn_history so) \<noteq> fmempty"
  proof -
    obtain c where c: "cs = [c]" using l(12) by (cases cs) auto
    let ?s2 = "file_log_session\<lparr>sn_node := n2, sn_journal := j'\<rparr>"
    let ?rest = "seq (for_each ms (session_send (on_files file_log_ad))) (\<lambda>_. for_each [] (session_serve (on_files file_log_ad)))"
    obtain s3 where r: "for_each cs (session_release (on_files file_log_ad)) ?s2 = Some (Inr (), s3)" "mh_entries (sn_history s3) \<noteq> fmempty"
      by (auto simp: c session_release_def seq_def on_history_def call_on_def ret_def modify_def on_files_def file_log_ad_def
          mh_record_def Let_def)
    have "?rest s3 = Some (ro, so)" using o r(1) by (simp add: outputs_def seq_def)
    moreover have "keeps (\<lambda>s. mh_entries (sn_history s) \<noteq> fmempty) ?rest"
      by (auto intro!: keeps_seq keeps_for_each keeps_pure recorded_keeps)
    ultimately show ?thesis using keepsD r(2) by fastforce
  qed
  then show thesis using that [OF t] d e o by (auto simp: s on_node_Some ret_def split: sum.splits if_splits)
qed

theorem visible_survives_crash_witness:
  "\<exists>r s b n ws n1. with_batch (node_begin log_core (T_Propose log_proposal)) (session_discharge (on_files file_log_ad)) file_log_session = Some (r, s)
    \<and> node_begin log_core (T_Propose log_proposal) (sn_node file_log_session) = (Inr b, n) \<and> pb_writes b n = Some (Inr ws, n1)
    \<and> (\<exists>j d rs. fj_open IoOk IoOk IoOk 5 1 1 new_journal (crash 30 (rn_disk (fst (sn_journal s)))) = (Inr (), j, d)
        \<and> fst (fj_replay IoOk j d) = Inr rs \<and> prefix ws rs)"
proof -
  obtain r s where t: "with_batch (node_begin log_core (T_Propose log_proposal)) (session_discharge (on_files file_log_ad))
      file_log_session = Some (r, s)" and v: "mh_entries (sn_history s) \<noteq> fmempty" by (rule file_log_turn)
  have v': "sn_history s \<noteq> sn_history file_log_session" using v by (auto simp: file_log_start(2) mh_new_def)
  obtain rest where o: "file_log_opened = (Inr file_log_session, rest)"
    using file_log_opens by (metis file_log_session_def is_ok_iff prod.collapse sum.case(2))
  have w: "is_u64 (ad_fingerprint file_log_ad)" "is_u16 1" "is_u64 1" by (simp_all add: file_log_core is_width_defs)
  obtain b n ws n1 j d rs where "node_begin log_core (T_Propose log_proposal) (sn_node file_log_session) = (Inr b, n)"
    "pb_writes b n = Some (Inr ws, n1)"
    "fj_open IoOk IoOk IoOk 5 1 1 new_journal (crash 30 (rn_disk (fst (sn_journal s)))) = (Inr (), j, d)"
    "fst (fj_replay IoOk j d) = Inr rs" "prefix (rn_appended (fst (sn_journal file_log_session)) @ ws) rs"
    using visible_survives_crash [of file_log_ad, OF _ _ w o [unfolded file_log_opened_def] files_path.here _ _ files_path.here,
        of "T_Propose log_proposal" r s IoOk IoOk IoOk 30] t v' log_core_gate log_core_fits unfolding file_log_core by blast
  with t show ?thesis unfolding file_log_start(7) append_Nil by blast
qed

end
