(* ===== verification/Fabric.thy ===== *)
theory Fabric
  imports Models "HOL-Library.AList" "HOL-Library.Sublist"
begin

section \<open>\<^verbatim>\<open>_Fabric\<close>: the mailboxes of an in-process cluster\<close>

text \<open>
  The boxes of \<^verbatim>\<open>testing.py\<close> are a Python dict, kept here as an association list in insertion order, of
  \<^verbatim>\<open>deque(maxlen=depth)\<close>. Appending to a full deque drops its oldest item.
\<close>

type_synonym mail = "(node_id \<times> bytes) list"

record fabric =
  fb_boxes :: "(node_id \<times> mail) list"
  fb_depth :: nat
  fb_delivered :: nat
  fb_dropped :: nat

definition fabric_init :: "node_id list \<Rightarrow> nat \<Rightarrow> fabric" where
  "fabric_init members depth =
     \<lparr>fb_boxes = fold (\<lambda>m. AList.update m []) members [], fb_depth = depth, fb_delivered = 0, fb_dropped = 0\<rparr>"

definition deque_append :: "nat \<Rightarrow> 'a \<Rightarrow> 'a list \<Rightarrow> 'a list" where
  "deque_append maxlen x d = (let d' = d @ [x] in drop (length d' - maxlen) d')"

definition fabric_deliver :: "node_id \<Rightarrow> node_id \<Rightarrow> bytes \<Rightarrow> fabric \<Rightarrow> fabric" where
  "fabric_deliver peer sender frame f =
     (case map_of (fb_boxes f) peer of
        None \<Rightarrow> f
      | Some box \<Rightarrow>
          f\<lparr>fb_dropped := (if length box = fb_depth f then fb_dropped f + 1 else fb_dropped f),
            fb_boxes := AList.update peer (deque_append (fb_depth f) (sender, frame) box) (fb_boxes f),
            fb_delivered := fb_delivered f + 1\<rparr>)"

definition fabric_take :: "node_id \<Rightarrow> fabric \<Rightarrow> (node_id \<times> bytes) option \<times> fabric" where
  "fabric_take node_id f =
     (case map_of (fb_boxes f) node_id of
        None \<Rightarrow> (None, f)
      | Some [] \<Rightarrow> (None, f)
      | Some (x # box) \<Rightarrow> (Some x, f\<lparr>fb_boxes := AList.update node_id box (fb_boxes f)\<rparr>))"

definition fabric_pending :: "fabric \<Rightarrow> nat" where
  "fabric_pending f = sum_list (map (\<lambda>(_, box). length box) (fb_boxes f))"

definition fabric_clear :: "node_id \<Rightarrow> fabric \<Rightarrow> fabric" where
  "fabric_clear node_id f =
     (case map_of (fb_boxes f) node_id of
        None \<Rightarrow> f
      | Some box \<Rightarrow> f\<lparr>fb_boxes := AList.update node_id [] (fb_boxes f)\<rparr>)"

subsection \<open>What the mailboxes do with frames\<close>

definition box_of :: "fabric \<Rightarrow> node_id \<Rightarrow> mail" where
  "box_of f m = (case map_of (fb_boxes f) m of None \<Rightarrow> [] | Some box \<Rightarrow> box)"

text \<open>A call on the fabric, and a log of calls: the frames addressed to each member, those it took, how many
  were taken in all, and how many \<^verbatim>\<open>clear\<close> threw away.\<close>

datatype fabric_call = Deliver node_id node_id bytes | Take node_id | Clear node_id

record mail_log =
  lg_addressed :: "node_id \<Rightarrow> mail"
  lg_taken :: "node_id \<Rightarrow> mail"
  lg_taken_count :: nat
  lg_cleared_count :: nat

definition empty_log :: mail_log where
  "empty_log = \<lparr>lg_addressed = (\<lambda>_. []), lg_taken = (\<lambda>_. []), lg_taken_count = 0, lg_cleared_count = 0\<rparr>"

fun fabric_do :: "fabric_call \<Rightarrow> fabric \<times> mail_log \<Rightarrow> fabric \<times> mail_log" where
  "fabric_do (Deliver p s x) (f, l) =
     (fabric_deliver p s x f, l\<lparr>lg_addressed := (lg_addressed l)(p := lg_addressed l p @ [(s, x)])\<rparr>)"
| "fabric_do (Take m) (f, l) =
     (case fabric_take m f of
        (None, f') \<Rightarrow> (f', l)
      | (Some x, f') \<Rightarrow> (f', l\<lparr>lg_taken := (lg_taken l)(m := lg_taken l m @ [x]),
                                lg_taken_count := lg_taken_count l + 1\<rparr>))"
| "fabric_do (Clear m) (f, l) =
     (fabric_clear m f, l\<lparr>lg_cleared_count := lg_cleared_count l + length (box_of f m)\<rparr>)"

definition fabric_inv :: "fabric \<Rightarrow> mail_log \<Rightarrow> bool" where
  "fabric_inv f l =
     (distinct (map fst (fb_boxes f))
      \<and> (\<forall>m. length (box_of f m) \<le> fb_depth f \<and> suffix (box_of f m) (lg_addressed l m)
            \<and> subseq (lg_taken l m @ box_of f m) (lg_addressed l m))
      \<and> fb_delivered f = lg_taken_count l + lg_cleared_count l + fb_dropped f + fabric_pending f)"

lemma deque_append_length:
  "length d \<le> n \<Longrightarrow> length (deque_append n x d) = (if length d = n then n else length d + 1)"
  by (auto simp: deque_append_def)

lemma deque_append_suffix: "suffix (deque_append n x d) (d @ [x])"
  unfolding deque_append_def Let_def by (rule suffix_drop)

lemma box_of_update [simp]:
  "fb_boxes f' = AList.update m box (fb_boxes f) \<Longrightarrow> box_of f' = (box_of f)(m := box)"
  by (rule ext) (simp add: box_of_def update_conv')

lemma box_of_Some: "map_of (fb_boxes f) m = Some box \<Longrightarrow> box_of f m = box"
  by (simp add: box_of_def)

lemma pending_update:
  "distinct (map fst al) \<Longrightarrow> map_of al m = Some old \<Longrightarrow>
   sum_list (map (\<lambda>(_, box). length box) (AList.update m new al)) + length old
     = sum_list (map (\<lambda>(_, box). length box) al) + length new"
  by (induction al) (auto split: if_splits)

text \<open>A member's box replaced: what the invariant asks of the new one.\<close>

lemma fabric_inv_update:
  assumes "fabric_inv f l" and "map_of (fb_boxes f) m = Some old"
    and "fb_boxes f' = AList.update m new (fb_boxes f)" and "fb_depth f' = fb_depth f"
    and "length new \<le> fb_depth f" and "suffix new (lg_addressed l' m)"
    and "subseq (lg_taken l' m @ new) (lg_addressed l' m)"
    and "\<And>n. n \<noteq> m \<Longrightarrow> lg_addressed l' n = lg_addressed l n \<and> lg_taken l' n = lg_taken l n"
    and "fb_delivered f' + lg_taken_count l + lg_cleared_count l + fb_dropped f + length old
      = fb_delivered f + lg_taken_count l' + lg_cleared_count l' + fb_dropped f' + length new"
  shows "fabric_inv f' l'"
proof -
  have d: "distinct (map fst (fb_boxes f))" using assms(1) by (simp add: fabric_inv_def)
  have "fabric_pending f' + length old = fabric_pending f + length new"
    unfolding fabric_pending_def assms(3) by (rule pending_update [OF d assms(2)])
  then have "fb_delivered f' = lg_taken_count l' + lg_cleared_count l' + fb_dropped f' + fabric_pending f'"
    using assms(1,9) by (simp add: fabric_inv_def)
  then show ?thesis using assms by (simp add: fabric_inv_def distinct_update)
qed

lemma deque_append_facts:
  assumes "length box \<le> n" and "suffix box sent" and "subseq (got @ box) sent"
  shows "length (deque_append n x box) \<le> n" "suffix (deque_append n x box) (sent @ [x])"
    "subseq (got @ deque_append n x box) (sent @ [x])"
proof -
  show "length (deque_append n x box) \<le> n" using assms(1) by (auto simp: deque_append_length)
  have "suffix (box @ [x]) (sent @ [x])" using assms(2) by (auto simp: suffix_def)
  with deque_append_suffix show "suffix (deque_append n x box) (sent @ [x])" by (rule suffix_order.trans)
  have "subseq (got @ deque_append n x box) ((got @ box) @ [x])"
    using suffix_imp_subseq [OF deque_append_suffix [of n x box]] by (simp add: subseq_append')
  also have "subseq ((got @ box) @ [x]) (sent @ [x])" using assms(3) by (simp only: subseq_append)
  finally show "subseq (got @ deque_append n x box) (sent @ [x])" .
qed

lemma fabric_inv_do:
  assumes "fabric_inv f l" and "fabric_do c (f, l) = (f', l')"
  shows "fabric_inv f' l'"
proof -
  have i: "length (box_of f m) \<le> fb_depth f" "suffix (box_of f m) (lg_addressed l m)"
    "subseq (lg_taken l m @ box_of f m) (lg_addressed l m)" for m
    using assms(1) by (auto simp: fabric_inv_def)
  note upd = fabric_inv_update [OF assms(1)]
  show ?thesis
  proof (cases c)
    case (Deliver p s x)
    show ?thesis
    proof (cases "map_of (fb_boxes f) p")
      case None
      then have "box_of f p = []" by (simp add: box_of_def)
      then show ?thesis using assms None i(3) [of p] Deliver
        by (auto simp: fabric_inv_def fabric_deliver_def intro: subseq_rev_drop_many)
    next
      case (Some box)
      note b = i [of p, unfolded box_of_Some [OF Some]]
      note d = deque_append_facts [OF b, of "(s, x)"]
      show ?thesis
        by (rule upd [OF Some, where new = "deque_append (fb_depth f) (s, x) box"])
           (use assms(2) Deliver Some d b(1) in \<open>auto simp: fabric_deliver_def deque_append_length\<close>)
    qed
  next
    case (Take m)
    show ?thesis
    proof (cases "map_of (fb_boxes f) m")
      case None
      then show ?thesis using assms Take by (simp add: fabric_take_def)
    next
      case (Some box)
      note b = i [of m, unfolded box_of_Some [OF Some]]
      show ?thesis
      proof (cases box)
        case Nil
        then show ?thesis using assms Take Some by (simp add: fabric_take_def)
      next
        case (Cons x rest)
        show ?thesis
          by (rule upd [OF Some, where new = rest])
             (use assms(2) Take Some Cons b in \<open>auto simp: fabric_take_def dest: suffix_ConsD\<close>)
      qed
    qed
  next
    case (Clear m)
    show ?thesis
    proof (cases "map_of (fb_boxes f) m")
      case None
      then show ?thesis using assms Clear by (simp add: fabric_clear_def box_of_def fabric_inv_def)
    next
      case (Some box)
      note b = i [of m, unfolded box_of_Some [OF Some]]
      have "subseq (lg_taken l m) (lg_taken l m @ box)" by (rule subseq_rev_drop_many) simp
      then have "subseq (lg_taken l m) (lg_addressed l m)" using b(3) by (rule subseq_order.trans)
      then show ?thesis
        by (intro upd [OF Some, where new = "[]"])
           (use assms(2) Clear Some box_of_Some [OF Some] in \<open>auto simp: fabric_clear_def\<close>)
    qed
  qed
qed

lemma fabric_inv_run: "fabric_inv f l \<Longrightarrow> fold fabric_do cs (f, l) = (f', l') \<Longrightarrow> fabric_inv f' l'"
proof (induction cs arbitrary: f l)
  case (Cons c cs)
  obtain f1 l1 where "fabric_do c (f, l) = (f1, l1)" by fastforce
  moreover from fabric_inv_do [OF Cons.prems(1) this] have "fabric_inv f1 l1" .
  ultimately show ?case using Cons.IH [of f1 l1] Cons.prems(2) by simp
qed simp

lemma fabric_depth_do: "fabric_do c (f, l) = (f', l') \<Longrightarrow> fb_depth f' = fb_depth f"
  by (cases c) (auto simp: fabric_deliver_def fabric_take_def fabric_clear_def split: option.splits list.splits)

lemma fabric_depth_run: "fold fabric_do cs (f, l) = (f', l') \<Longrightarrow> fb_depth f' = fb_depth f"
proof (induction cs arbitrary: f l)
  case (Cons c cs)
  obtain f1 l1 where "fabric_do c (f, l) = (f1, l1)" by fastforce
  then show ?case using Cons fabric_depth_do by fastforce
qed simp

lemma init_boxes:
  "fold (\<lambda>m. AList.update m []) ms al = al' \<Longrightarrow> distinct (map fst al) \<Longrightarrow> \<forall>(m, box) \<in> set al. box = []
   \<Longrightarrow> distinct (map fst al') \<and> (\<forall>(m, box) \<in> set al'. box = [])"
proof (induction ms arbitrary: al)
  case (Cons m ms)
  have "set (AList.update m [] al) \<subseteq> insert (m, []) (set al)" by (induction al) auto
  then show ?case using Cons.IH [of "AList.update m [] al"] Cons.prems by (auto simp: distinct_update)
qed auto

lemma fabric_inv_init: "fabric_inv (fabric_init members depth) empty_log"
proof -
  let ?al = "fb_boxes (fabric_init members depth)"
  have a: "distinct (map fst ?al)" "\<forall>(m, box) \<in> set ?al. box = []"
    using init_boxes [of members "[]" ?al] by (auto simp: fabric_init_def)
  then have "box_of (fabric_init members depth) m = []" for m
    by (auto simp: box_of_def split: option.split dest: map_of_SomeD)
  moreover have "fabric_pending (fabric_init members depth) = 0"
    using a(2) by (induction ?al) (auto simp: fabric_pending_def)
  ultimately show ?thesis using a(1) by (simp add: fabric_inv_def empty_log_def fabric_init_def)
qed

text \<open>C15: The mailboxes of a cluster lose frames only by their bound. After any sequence of deliveries, takes and
  clears: no box exceeds its depth; what a member took, followed by what is still in its box, is what
  was addressed to it with some frames left out but never reordered, altered, duplicated or misdirected;
  what is in the box is the newest of it, so what was dropped is the oldest; and the counters account
  for every frame: \<^verbatim>\<open>delivered\<close> counts those accepted, which were taken, cleared, are pending, or were
  dropped.\<close>

theorem fabric_accounts_for_frames:
  assumes "fold fabric_do calls (fabric_init members depth, empty_log) = (f, l)"
  shows "length (box_of f m) \<le> depth
    \<and> subseq (lg_taken l m @ box_of f m) (lg_addressed l m)
    \<and> suffix (box_of f m) (lg_addressed l m)
    \<and> fb_delivered f = lg_taken_count l + lg_cleared_count l + fabric_pending f + fb_dropped f"
  using fabric_inv_run [OF fabric_inv_init assms] fabric_depth_run [OF assms]
  by (simp add: fabric_inv_def fabric_init_def)

theorem fabric_accounts_for_frames_witness:
  "let (f, l) = fold fabric_do [Deliver 2 1 [10], Deliver 2 1 [11], Deliver 2 3 [12], Deliver 9 1 [13], Take 2]
        (fabric_init [1, 2, 3] 2, empty_log)
   in lg_taken l 2 = [(1, [11])] \<and> box_of f 2 = [(3, [12])] \<and> fb_dropped f = 1 \<and> fb_delivered f = 3
     \<and> fb_delivered f = lg_taken_count l + lg_cleared_count l + fabric_pending f + fb_dropped f"
proof -
  let ?calls = "[Deliver 2 1 [10], Deliver 2 1 [11], Deliver 2 3 [12], Deliver 9 1 [13], Take 2]"
  obtain f l where r: "fold fabric_do ?calls (fabric_init [1, 2, 3] 2, empty_log) = (f, l)" by fastforce
  have e: "let (f, l) = fold fabric_do ?calls (fabric_init [1, 2, 3] 2, empty_log)
    in lg_taken l 2 = [(1, [11])] \<and> box_of f 2 = [(3, [12])] \<and> fb_dropped f = 1 \<and> fb_delivered f = 3"
    by code_simp
  show ?thesis using fabric_accounts_for_frames [OF r] e unfolding r by simp
qed

end
