(* ===== verification/Cluster.thy ===== *)
theory Cluster
  imports Session_Ends Fabric History
begin

section \<open>\<^verbatim>\<open>Cluster\<close>: several sessions in one process\<close>

text \<open>
  The sessions of a cluster share one fabric and one logical clock; each has a journal and a history in
  memory. The shared objects are fields of the cluster, and a call on a member runs on that member's
  session with them in place. The clock's \<^verbatim>\<open>sleep\<close> pumps the cluster. While the cluster is already
  pumping the nested \<^verbatim>\<open>pump\<close> returns at once, so then a sleep only moves the time on: that is the clock
  of \<open>cluster_ad\<close>. An append sleeps outside a pump, and has loops of its own below.
\<close>

subsection \<open>\<^verbatim>\<open>LoopbackTransport\<close>\<close>

record loopback =
  lt_fabric :: fabric
  lt_node_id :: node_id

definition loopback_send :: "node_id \<Rightarrow> bytes \<Rightarrow> loopback \<Rightarrow> (exn + unit) \<times> loopback" where
  "loopback_send peer frame t =
     (Inr (), t\<lparr>lt_fabric := fabric_deliver peer (lt_node_id t) frame (lt_fabric t)\<rparr>)"

definition loopback_receive :: "rat \<Rightarrow> loopback \<Rightarrow> (exn + (node_id \<times> bytes) option) \<times> loopback" where
  "loopback_receive timeout t =
     (case fabric_take (lt_node_id t) (lt_fabric t) of (x, f) \<Rightarrow> (Inr x, t\<lparr>lt_fabric := f\<rparr>))"

definition loopback_close :: "loopback \<Rightarrow> (exn + unit) \<times> loopback" where
  "loopback_close t = (Inr (), t\<lparr>lt_fabric := fabric_clear (lt_node_id t) (lt_fabric t)\<rparr>)"

subsection \<open>The cluster and its members\<close>

type_synonym 'c member = "('c, mem_journal, mem_history, loopback, rat) session"

record 'c cluster =
  cl_members :: "node_id list"
  cl_fabric :: fabric
  cl_now :: rat
  cl_pumping :: bool
  cl_sessions :: "(node_id \<times> 'c member) list"

type_synonym ('c, 'a) cluster_prog = "('c cluster, 'a) prog"

text \<open>\<^verbatim>\<open>_ClusterClock.sleep\<close> up to its call of \<^verbatim>\<open>pump\<close>.\<close>

definition clock_advance :: "rat \<Rightarrow> rat \<Rightarrow> rat" where
  "clock_advance seconds now = now + max seconds (1 / 1000000)"

definition cluster_ad :: "'c core_ops \<Rightarrow> int \<Rightarrow> ('c, mem_journal, mem_history, loopback, rat) adapters" where
  "cluster_ad core fingerprint = \<lparr>ad_core = core, ad_fingerprint = fingerprint,
     ad_open = (\<lambda>n c j. (Inr (), mj_open n c j)), ad_append = (\<lambda>rs j. (Inr (), mj_append rs j)),
     ad_sync = (\<lambda>j. (Inr (), mj_sync j)), ad_replay = (\<lambda>j. (Inr (mj_replay j), j)),
     ad_close_journal = (\<lambda>j. (Inr (), mj_close j)),
     ad_record = (\<lambda>s p k h. (Inr (), mh_record s p k h)), ad_read = (\<lambda>s n h. (Inr (mh_read s n h), h)),
     ad_cursor = mh_cursor, ad_close_history = (\<lambda>h. (Inr (), mh_close h)),
     ad_send = loopback_send, ad_receive = loopback_receive, ad_close_transport = loopback_close,
     ad_monotonic = (\<lambda>k. (Inr k, k)), ad_sleep = (\<lambda>d k. (Inr (), clock_advance d k))\<rparr>"

lemma cluster_ad_core [simp]: "ad_core (cluster_ad core fp) = core"
  by (simp add: cluster_ad_def)

text \<open>A call on one member: \<^verbatim>\<open>self._sessions[m]\<close>, with the shared objects.\<close>

definition load_member :: "node_id \<Rightarrow> 'c cluster \<Rightarrow> 'c member \<Rightarrow> 'c member" where
  "load_member m c s = s\<lparr>sn_transport := \<lparr>lt_fabric = cl_fabric c, lt_node_id = m\<rparr>, sn_clock := cl_now c\<rparr>"

definition store_member :: "node_id \<Rightarrow> 'c member \<Rightarrow> 'c cluster \<Rightarrow> 'c cluster" where
  "store_member m s c = c\<lparr>cl_sessions := AList.update m s (cl_sessions c),
     cl_fabric := lt_fabric (sn_transport s), cl_now := sn_clock s\<rparr>"

definition on_member :: "node_id \<Rightarrow> ('c, mem_journal, mem_history, loopback, rat, 'a) session_prog
    \<Rightarrow> ('c, 'a) cluster_prog" where
  "on_member m p c = (case map_of (cl_sessions c) m of
     None \<Rightarrow> Some (Inl (KeyErr m), c)
   | Some s \<Rightarrow> (case p (load_member m c s) of
       None \<Rightarrow> None | Some (r, s') \<Rightarrow> Some (r, store_member m s' c)))"

subsection \<open>Starting and closing\<close>

fun open_members :: "('c, mem_journal, mem_history, loopback, rat) adapters \<Rightarrow> int \<Rightarrow> session_options
    \<Rightarrow> node_id list \<Rightarrow> fabric \<Rightarrow> node_id list \<Rightarrow> int \<Rightarrow> (exn + (node_id \<times> 'c member) list) \<times> int" where
  "open_members ad conf options members f [] epoch = (Inr [], epoch)"
| "open_members ad conf options members f (m # ms) epoch =
     (case session_init ad m members conf mj_new \<lparr>lt_fabric = f, lt_node_id = m\<rparr> mh_new 0 (Fin (1 / 100)) options epoch of
        (Inl e, j, k, epoch') \<Rightarrow> (Inl e, epoch')
      | (Inr s, j, k, epoch') \<Rightarrow>
          (case open_members ad conf options members f ms epoch' of
             (Inl e, epoch'') \<Rightarrow> (Inl e, epoch'')
           | (Inr ss, epoch'') \<Rightarrow> (Inr ((m, s) # ss), epoch'')))"

definition cluster_init :: "'c core_ops \<Rightarrow> int \<Rightarrow> int \<Rightarrow> int \<Rightarrow> nat \<Rightarrow> session_options \<Rightarrow> int
    \<Rightarrow> (exn + 'c cluster) \<times> int" where
  "cluster_init core fp sz conf queue_depth options epoch =
     (if sz < 1 then (Inl ValueErr, epoch)
      else (let members = [1..sz]; f = fabric_init members queue_depth
            in case open_members (cluster_ad core fp) conf options members f members epoch of
                 (Inl e, epoch') \<Rightarrow> (Inl e, epoch')
               | (Inr ss, epoch') \<Rightarrow>
                   (Inr \<lparr>cl_members = members, cl_fabric = f, cl_now = 0, cl_pumping = False, cl_sessions = ss\<rparr>, epoch')))"

definition cluster_close :: "'c core_ops \<Rightarrow> int \<Rightarrow> ('c, unit) cluster_prog" where
  "cluster_close core fp =
     seq (get (map fst \<circ> cl_sessions)) (\<lambda>ms.
     seq (for_each ms (\<lambda>m. on_member m (session_close (cluster_ad core fp)))) (\<lambda>_.
       modify (cl_sessions_update (\<lambda>_. []))))"

subsection \<open>Pumping\<close>

fun poll_members :: "'c core_ops \<Rightarrow> int \<Rightarrow> node_id list \<Rightarrow> nat \<Rightarrow> ('c, nat) cluster_prog" where
  "poll_members core fp [] processed = ret processed"
| "poll_members core fp (m # ms) processed =
     seq (on_member m (session_poll (cluster_ad core fp) (Fin 0))) (\<lambda>n. poll_members core fp ms (processed + n))"

fun pump_rounds :: "'c core_ops \<Rightarrow> int \<Rightarrow> nat \<Rightarrow> nat \<Rightarrow> ('c, nat) cluster_prog" where
  "pump_rounds core fp 0 processed = ret processed"
| "pump_rounds core fp (Suc rounds) processed =
     seq (get (fabric_pending \<circ> cl_fabric)) (\<lambda>pending.
       if pending = 0 then ret processed
       else seq (get (map fst \<circ> cl_sessions)) (\<lambda>ms.
         seq (poll_members core fp ms processed) (\<lambda>processed. pump_rounds core fp rounds processed)))"

definition cluster_pump :: "'c core_ops \<Rightarrow> int \<Rightarrow> nat \<Rightarrow> ('c, nat) cluster_prog" where
  "cluster_pump core fp rounds =
     seq (get cl_pumping) (\<lambda>pumping.
       if pumping then ret 0
       else seq (modify (cl_pumping_update (\<lambda>_. True))) (\<lambda>_.
         finally_do (pump_rounds core fp rounds 0) (modify (cl_pumping_update (\<lambda>_. False)))))"

subsection \<open>Electing\<close>

fun find_leader :: "'c core_ops \<Rightarrow> int \<Rightarrow> node_id list \<Rightarrow> ('c, node_id option) cluster_prog" where
  "find_leader core fp [] = ret None"
| "find_leader core fp (m # ms) =
     seq (on_member m (session_state (cluster_ad core fp))) (\<lambda>st.
       if ns_role st = LEADER then ret (Some m) else find_leader core fp ms)"

definition cluster_leader :: "'c core_ops \<Rightarrow> int \<Rightarrow> ('c, node_id option) cluster_prog" where
  "cluster_leader core fp = seq (get (map fst \<circ> cl_sessions)) (find_leader core fp)"

definition cluster_elect :: "'c core_ops \<Rightarrow> int \<Rightarrow> node_id option \<Rightarrow> nat \<Rightarrow> ('c, node_id) cluster_prog" where
  "cluster_elect core fp node_id rounds =
     seq (cluster_leader core fp) (\<lambda>existing. case existing of
       Some m \<Rightarrow> ret m
     | None \<Rightarrow>
         seq (get (hd \<circ> cl_members)) (\<lambda>first.
         let candidate = (case node_id of None \<Rightarrow> first | Some m \<Rightarrow> if m = 0 then first else m) in
         seq (on_member candidate (session_campaign (cluster_ad core fp))) (\<lambda>_.
         seq (cluster_pump core fp rounds) (\<lambda>_.
         seq (cluster_leader core fp) (\<lambda>leader. case leader of
           None \<Rightarrow> raise RuntimeErr
         | Some m \<Rightarrow> ret m)))))"

subsection \<open>Appending\<close>

text \<open>A round of \<^verbatim>\<open>Session.poll\<close> up to the sleep, and the round with a clock that is not the cluster's.\<close>

datatype polled = Frame bool | Drained | Sleep rat

definition poll_once :: "('c, 'j, 'h, 't, 'k) adapters \<Rightarrow> rat \<Rightarrow> rat \<Rightarrow> ('c, 'j, 'h, 't, 'k, polled) session_prog" where
  "poll_once ad timeout deadline =
     seq (maybe_tick ad) (\<lambda>_.
     seq (monotonic ad) (\<lambda>now.
       let remaining = deadline - now in
       seq (on_transport (ad_receive ad (max remaining 0))) (\<lambda>received. case received of
         None \<Rightarrow>
           if remaining \<le> 0 then ret Drained
           else seq (get sn_tick_interval) (\<lambda>tick. ret (Sleep (min tick remaining)))
       | Some (peer, frame) \<Rightarrow>
           seq (lift_result (decode (ad_fingerprint ad) frame)) (\<lambda>envelope.
           seq (with_batch (node_step (ad_core ad) envelope) (session_discharge ad)) (\<lambda>_.
             if 0 < timeout then seq (monotonic ad) (\<lambda>now. ret (Frame (deadline \<le> now))) else ret (Frame False))))))"

lemma seq_ret: "seq m ret = m"
  by (rule ext) (auto simp: seq_def ret_def split: option.splits sum.splits)

lemma ret_seq: "seq (ret x) f = f x"
  by (rule ext) (simp add: seq_def ret_def)

lemma seq_cases:
  "seq (if b then m else m') f = (if b then seq m f else seq m' f)"
  "seq (case x of None \<Rightarrow> m | Some y \<Rightarrow> g y) f = (case x of None \<Rightarrow> seq m f | Some y \<Rightarrow> seq (g y) f)"
  "seq (case p of (u, v) \<Rightarrow> h u v) f = (case p of (u, v) \<Rightarrow> seq (h u v) f)"
  by (auto split: option.split prod.split)

text \<open>With a clock that only sleeps, a round of \<^verbatim>\<open>poll\<close> is this and the sleep it asks for.\<close>

lemma poll_round_once:
  "poll_round ad timeout deadline = seq (poll_once ad timeout deadline) (\<lambda>p. case p of
     Frame stop \<Rightarrow> ret (1, stop) | Drained \<Rightarrow> ret (0, True)
   | Sleep d \<Rightarrow> seq (on_clock (ad_sleep ad d)) (\<lambda>_. ret (0, False)))"
  unfolding poll_round_def poll_once_def Let_def seq_assoc seq_cases ret_seq by (simp cong: if_cong option.case_cong)

text \<open>The loop of \<^verbatim>\<open>poll\<close> on a member, with the sleep of the cluster's clock.\<close>

partial_function (option) member_poll_loop ::
  "'c core_ops \<Rightarrow> int \<Rightarrow> node_id \<Rightarrow> rat \<Rightarrow> rat \<Rightarrow> nat \<Rightarrow> ('c, nat) cluster_prog" where
  "member_poll_loop core fp m timeout deadline processed c =
     (case on_member m (poll_once (cluster_ad core fp) timeout deadline) c of
        None \<Rightarrow> None
      | Some (Inl e, c') \<Rightarrow> Some (Inl e, c')
      | Some (Inr p, c') \<Rightarrow> (case p of
          Frame stop \<Rightarrow>
            if stop then Some (Inr (processed + 1), c')
            else member_poll_loop core fp m timeout deadline (processed + 1) c'
        | Drained \<Rightarrow> Some (Inr processed, c')
        | Sleep d \<Rightarrow> (case seq (modify (cl_now_update (clock_advance d))) (\<lambda>_. cluster_pump core fp 64) c' of
              None \<Rightarrow> None
            | Some (Inl e, c'') \<Rightarrow> Some (Inl e, c'')
            | Some (Inr n, c'') \<Rightarrow> member_poll_loop core fp m timeout deadline processed c'')))"

declare member_poll_loop.simps [code]

definition member_poll :: "'c core_ops \<Rightarrow> int \<Rightarrow> node_id \<Rightarrow> pyfloat \<Rightarrow> ('c, nat) cluster_prog" where
  "member_poll core fp m timeout =
     seq (lift_result (check_timeout timeout)) (\<lambda>timeout.
     seq (on_member m (monotonic (cluster_ad core fp))) (\<lambda>now.
       member_poll_loop core fp m timeout (now + timeout) 0))"

text \<open>\<^verbatim>\<open>Session.append\<close> on a member.\<close>

definition member_wait_round :: "'c core_ops \<Rightarrow> int \<Rightarrow> node_id \<Rightarrow> slot \<Rightarrow> rat \<Rightarrow> rat \<Rightarrow> ('c, bool) cluster_prog" where
  "member_wait_round core fp m slot timeout deadline =
     seq (on_member m (last_committed (cluster_ad core fp))) (\<lambda>decided_through.
       if slot \<le> decided_through then ret True
       else seq (on_member m (monotonic (cluster_ad core fp))) (\<lambda>now.
         if deadline \<le> now
         then raise (err CommitTimeout [(''admitted'', PBool True), (''slot'', PInt slot),
                                        (''seconds'', PFloat (Fin timeout))])
         else seq (on_member m (monotonic (cluster_ad core fp))) (\<lambda>now.
           seq (on_member m (get sn_tick_interval)) (\<lambda>tick.
             seq (member_poll core fp m (Fin (min tick (max (deadline - now) 0)))) (\<lambda>_. ret False)))))"

partial_function (option) member_wait_loop ::
  "'c core_ops \<Rightarrow> int \<Rightarrow> node_id \<Rightarrow> slot \<Rightarrow> rat \<Rightarrow> rat \<Rightarrow> ('c, unit) cluster_prog" where
  "member_wait_loop core fp m slot timeout deadline c =
     (case member_wait_round core fp m slot timeout deadline c of
        None \<Rightarrow> None
      | Some (Inl e, c') \<Rightarrow> Some (Inl e, c')
      | Some (Inr finished, c') \<Rightarrow>
          if finished then Some (Inr (), c') else member_wait_loop core fp m slot timeout deadline c')"

declare member_wait_loop.simps [code]

definition member_append :: "'c core_ops \<Rightarrow> int \<Rightarrow> node_id \<Rightarrow> bytes \<Rightarrow> pyfloat \<Rightarrow> ('c, receipt) cluster_prog" where
  "member_append core fp m value timeout =
     (let ad = cluster_ad core fp in
      seq (lift_result (check_timeout timeout)) (\<lambda>timeout.
      seq (on_member m (monotonic ad)) (\<lambda>now.
        let deadline = now + timeout in
        seq (member_poll core fp m (Fin 0)) (\<lambda>_.
        seq (on_member m (with_batch (node_propose core value) (\<lambda>b.
               seq (session_discharge ad b) (\<lambda>_. ret (pb_status b, pb_assigned_slot b))))) (\<lambda>(status, slot).
        seq (if status = class_code NotLeader
             then seq (on_member m (session_state ad)) (\<lambda>state. raise (not_leader_error state))
             else ret ()) (\<lambda>_.
        seq (lift_result (raise_for status [(''value_bytes'', PInt (int (length value)))])) (\<lambda>_.
        seq (member_wait_loop core fp m slot timeout deadline) (\<lambda>_.
          on_member m (append_receipt ad value slot)))))))))"

definition cluster_append :: "'c core_ops \<Rightarrow> int \<Rightarrow> bytes \<Rightarrow> pyfloat \<Rightarrow> ('c, receipt) cluster_prog" where
  "cluster_append core fp value timeout =
     seq (cluster_elect core fp None 64) (\<lambda>leader.
     seq (member_append core fp leader value timeout) (\<lambda>receipt.
     seq (cluster_pump core fp 64) (\<lambda>_. ret receipt)))"

subsection \<open>Reading\<close>

definition cluster_committed :: "'c core_ops \<Rightarrow> int \<Rightarrow> node_id \<Rightarrow> int \<Rightarrow> ('c, committed list) cluster_prog" where
  "cluster_committed core fp node_id limit = on_member node_id (committed_since (cluster_ad core fp) 1 limit)"

definition cluster_decided_through :: "'c core_ops \<Rightarrow> int \<Rightarrow> node_id \<Rightarrow> ('c, slot) cluster_prog" where
  "cluster_decided_through core fp node_id =
     seq (on_member node_id (session_state (cluster_ad core fp))) (\<lambda>st. ret (ns_decided_through st))"

end
