(* ===== verification/Transport_Laws.thy ===== *)
theory Transport_Laws
  imports Method_Laws
begin

section \<open>What a transport guarantees, every session keeps\<close>

text \<open>
  The interface between a session and its transport: whatever each method of the transport keeps true of
  it, the methods of a session keep too, because they touch it through those methods alone, and send nothing
  but what \<^verbatim>\<open>encode\<close> made of an envelope, to the recipient of that envelope.
\<close>

locale transport_contract =
  fixes ad :: "('c, 'j, 'h, 't, 'k) adapters" and ok :: "'t \<Rightarrow> bool"
  assumes send: "encode (ad_fingerprint ad) env = Inr frame \<Longrightarrow> ad_send ad (ev_recipient env) frame t = (r, t') \<Longrightarrow> ok t \<Longrightarrow> ok t'"
    and receive: "ad_receive ad timeout t = (r', t') \<Longrightarrow> ok t \<Longrightarrow> ok t'"
    and close: "ad_close_transport ad t = (r'', t') \<Longrightarrow> ok t \<Longrightarrow> ok t'"
begin

lemma calls_keep_ok:
  "encode (ad_fingerprint ad) env = Inr frame \<Longrightarrow>
   keeps (\<lambda>s. ok (sn_transport s)) (on_transport (ad_send ad (ev_recipient env) frame))"
  "keeps (\<lambda>s. ok (sn_transport s)) (on_transport (ad_receive ad timeout))"
  "keeps (\<lambda>s. ok (sn_transport s)) (on_transport (ad_close_transport ad))"
  unfolding on_transport_def by (rule keeps_call_on, auto intro: send receive close)+

lemma others_keep_ok:
  "keeps (\<lambda>s. ok (sn_transport s)) (on_node fn)" "keeps (\<lambda>s. ok (sn_transport s)) (on_batch fb)"
  "keeps (\<lambda>s. ok (sn_transport s)) (on_journal fj)" "keeps (\<lambda>s. ok (sn_transport s)) (on_history fh)"
  "keeps (\<lambda>s. ok (sn_transport s)) (on_clock fk)"
  "keeps (\<lambda>s. ok (sn_transport s)) (modify (sn_applied_through_update f))"
  "keeps (\<lambda>s. ok (sn_transport s)) (modify (sn_last_tick_update g))"
  unfolding on_node_def on_batch_def on_journal_def on_history_def on_clock_def
  by ((rule keeps_call_on keeps_run_on keeps_modify), simp)+

lemmas ok_rules = calls_keep_ok(2,3) others_keep_ok keeps_pure keeps_seq keeps_finally keeps_except keeps_for_each keeps_if

lemma send_keeps_ok: "keeps (\<lambda>s. ok (sn_transport s)) (session_send ad envelope)"
proof (cases "encode (ad_fingerprint ad) envelope")
  case (Inl e)
  then show ?thesis by (simp add: session_send_def keeps_def seq_def lift_result_def)
next
  case (Inr frame)
  have e: "session_send ad envelope = except_do (on_transport (ad_send ad (ev_recipient envelope) frame)) is_transport_error (ret ())"
    by (rule ext) (simp add: session_send_def Inr seq_def lift_result_def)
  show ?thesis unfolding e by (intro ok_rules calls_keep_ok(1) [OF Inr])
qed

lemma serve_keeps_ok: "keeps (\<lambda>s. ok (sn_transport s)) (session_serve ad request)"
  unfolding session_serve_def by (intro ok_rules) (auto intro!: ok_rules send_keeps_ok)

lemma discharge_keeps_ok: "keeps (\<lambda>s. ok (sn_transport s)) (session_discharge ad b)"
  unfolding session_discharge_def discharge_body_def session_release_def
  by (intro ok_rules send_keeps_ok serve_keeps_ok)

lemma with_batch_keeps_ok:
  "(\<And>b. keeps (\<lambda>s. ok (sn_transport s)) (body b)) \<Longrightarrow> keeps (\<lambda>s. ok (sn_transport s)) (with_batch begin body)"
  by (intro with_batch_keeps_all others_keep_ok)

lemma close_keeps_ok: "keeps (\<lambda>s. ok (sn_transport s)) (session_close ad)"
  unfolding session_close_def by (intro ok_rules)

end

text \<open>So what holds of the transport is kept by every method.\<close>

sublocale transport_contract \<subseteq> method_invariant ad "\<lambda>s. ok (sn_transport s)"
  by unfold_locales (intro ok_rules with_batch_keeps_ok discharge_keeps_ok | rule keeps_modify, simp)+

end
