(* ===== verification/Fabric_Frames.thy ===== *)
theory Fabric_Frames
  imports Fabric Codec
begin

section \<open>What the mailboxes hold\<close>

text \<open>
  A session puts nothing on its transport but what \<^verbatim>\<open>encode\<close> made of an envelope for that peer, and the
  mailboxes keep frames as they are. So what a member takes is such a frame, which \<^verbatim>\<open>decode\<close> refuses only
  for a sender of 0.
\<close>

lemma pack_Some_fits:
  "pack fmt vs = Some b \<Longrightarrow> \<forall>(f, v) \<in> set (zip fmt vs). \<forall>n x. f = FStr n \<longrightarrow> v = SBytes x \<longrightarrow> length x = n
   \<Longrightarrow> list_all2 fits fmt vs"
proof (induction fmt vs arbitrary: b rule: pack.induct)
  case (2 f fs v vs)
  then show ?case by (cases "(f, v)" rule: pack_field.cases) (auto split: option.splits if_splits)
qed auto

lemma encoded_header_fits: "pack HEADER (header_values fp env) = Some b \<Longrightarrow> list_all2 fits HEADER (header_values fp env)"
  by (rule pack_Some_fits) (auto simp: HEADER_def header_values_def Let_def MAGIC_def)

lemma encode_validates:
  assumes "encode fp env = Inr frame" and "ev_sender env \<noteq> 0" and "ev_recipient env \<noteq> 0"
  shows "validate_frame fp frame = Inr (header_make (header_values fp env))"
proof -
  let ?fl = "flatten (ev_message env)"
  obtain header where p: "pack HEADER (header_values fp env) = Some header"
    and f: "frame = header @ le_body (fl_entry ?fl)" and n: "length (le_body (fl_entry ?fl)) \<le> MAX_VALUE_BYTES"
    using assms(1) by (auto simp: encode_def Let_def split: if_splits option.splits)
  have l: "length header = HEADER_SIZE" using pack_length [OF p] by (simp add: HEADER_SIZE_def)
  have u: "unpack_from HEADER (header @ rest) = Some (header_values fp env)" for rest
    by (rule unpack_from_pack [OF encoded_header_fits [OF p] p])
  obtain k c where k: "fl_kind ?fl = message_kind_value k" "k \<noteq> MK_NONE" and c: "fl_cell_state ?fl = cell_state_value c"
    using flatten_kind flatten_cell by metis
  have "\<not> 1 < fl_scope ?fl" using flatten_tags(4) [of "ev_message env"] by simp
  with k c show ?thesis
    using assms(2,3) l n kind_not_none [OF k(2)]
    by (simp add: validate_frame_def f u header_make_values Let_def MAX_FRAME_SIZE_def enum_simps)
qed

lemma decode_ids:
  "validate_frame fp frame = Inr h \<Longrightarrow> decode fp frame = Inr env \<Longrightarrow>
   ev_sender env = wh_sender h \<and> ev_recipient env = wh_recipient h"
  by (auto simp: decode_def bindE_eq_Inr split: option.splits)

lemma encode_decodes:
  assumes "encode fp env = Inr frame" and "ev_sender env \<noteq> 0" and "ev_recipient env \<noteq> 0"
  shows "\<exists>env'. decode fp frame = Inr env' \<and> wire_in_range env' \<and> ev_sender env' = ev_sender env
    \<and> ev_recipient env' = ev_recipient env"
  using decode_accepts [OF encode_validates [OF assms]] decode_ids [OF encode_validates [OF assms]]
  by (fastforce simp: header_make_values Let_def)

text \<open>The invariant of a shared fabric: the mailboxes are as some sequence of calls has left them, belong to
  members, and hold frames that were encoded for their owner.\<close>

definition carries :: "int \<Rightarrow> node_id \<Rightarrow> bytes \<Rightarrow> bool" where
  "carries fp m frame = (\<exists>env. encode fp env = Inr frame \<and> ev_recipient env = m)"

lemma carriesI: "encode fp env = Inr frame \<Longrightarrow> carries fp (ev_recipient env) frame"
  by (auto simp: carries_def)

definition fabric_ok :: "int \<Rightarrow> nat \<Rightarrow> fabric \<Rightarrow> bool" where
  "fabric_ok fp bound f = (fb_depth f = bound \<and> (\<exists>l. fabric_inv f l) \<and> (\<forall>m \<in> fst ` set (fb_boxes f). 1 \<le> m)
     \<and> (\<forall>m. \<forall>(s, frame) \<in> set (box_of f m). carries fp m frame))"

lemma update_keys: "map_of al m = Some x \<Longrightarrow> fst ` set (AList.update m y al) = fst ` set al"
  by (induction al) (auto split: if_splits)

lemma box_of_none: "map_of (fb_boxes f) m = None \<Longrightarrow> box_of f m = []"
  by (simp add: box_of_def)

text \<open>What a call leaves in the boxes.\<close>

lemma deliver_boxes:
  "fst ` set (fb_boxes (fabric_deliver p s x f)) = fst ` set (fb_boxes f)
   \<and> set (box_of (fabric_deliver p s x f) m) \<subseteq> set (box_of f m) \<union> (if m = p then {(s, x)} else {})"
proof (cases "map_of (fb_boxes f) p")
  case (Some box)
  have "box_of (fabric_deliver p s x f) = (box_of f)(p := deque_append (fb_depth f) (s, x) box)"
    by (rule box_of_update) (simp add: fabric_deliver_def Some)
  moreover have "set (deque_append (fb_depth f) (s, x) box) \<subseteq> insert (s, x) (set box)"
    using set_mono_suffix [OF deque_append_suffix [of "fb_depth f" "(s, x)" box]] by simp
  ultimately show ?thesis using box_of_Some [OF Some] by (auto simp: fabric_deliver_def Some update_keys [OF Some])
qed (simp add: fabric_deliver_def)

lemma take_boxes:
  assumes "fabric_take n f = (r, f')"
  shows "fst ` set (fb_boxes f') = fst ` set (fb_boxes f) \<and> set (box_of f' m) \<subseteq> set (box_of f m)"
proof (cases "\<exists>x box. map_of (fb_boxes f) n = Some (x # box)")
  case True
  then obtain x box where b: "map_of (fb_boxes f) n = Some (x # box)" by blast
  then have f: "f' = f\<lparr>fb_boxes := AList.update n box (fb_boxes f)\<rparr>" using assms by (simp add: fabric_take_def)
  have "box_of f' = (box_of f)(n := box)" by (rule box_of_update) (simp add: f)
  then show ?thesis using box_of_Some [OF b] update_keys [OF b] by (auto simp: f)
next
  case False
  then have "f' = f" using assms by (auto simp: fabric_take_def split: option.splits list.splits)
  then show ?thesis by simp
qed

lemma clear_boxes:
  "fst ` set (fb_boxes (fabric_clear n f)) = fst ` set (fb_boxes f)
   \<and> set (box_of (fabric_clear n f) m) \<subseteq> set (box_of f m)"
proof (cases "map_of (fb_boxes f) n")
  case (Some box)
  have "box_of (fabric_clear n f) = (box_of f)(n := [])"
    by (rule box_of_update) (simp add: fabric_clear_def Some)
  then show ?thesis using update_keys [OF Some] by (simp add: fabric_clear_def Some)
qed (simp add: fabric_clear_def)

lemma fabric_ok_do:
  assumes "fabric_ok fp bound f" and "\<And>l. \<exists>l'. fabric_do c (f, l) = (f', l')"
    and "fst ` set (fb_boxes f') = fst ` set (fb_boxes f)"
    and "\<And>m s x. (s, x) \<in> set (box_of f' m) \<Longrightarrow> (s, x) \<in> set (box_of f m) \<or> carries fp m x"
  shows "fabric_ok fp bound f'"
proof -
  obtain l where l: "fabric_inv f l" "fb_depth f = bound" using assms(1) by (auto simp: fabric_ok_def)
  obtain l' where c: "fabric_do c (f, l) = (f', l')" using assms(2) by blast
  have "1 \<le> m" if "m \<in> fst ` set (fb_boxes f')" for m
    using assms(1) that unfolding assms(3) fabric_ok_def by blast
  moreover have "carries fp m x" if "(s, x) \<in> set (box_of f' m)" for m s x
    using assms(4) [OF that] assms(1) unfolding fabric_ok_def by blast
  moreover have "fb_depth f' = bound" using fabric_depth_do [OF c] l(2) by simp
  ultimately show ?thesis using fabric_inv_do [OF l(1) c] unfolding fabric_ok_def by blast
qed

lemma fabric_ok_calls:
  "carries fp p x \<Longrightarrow> fabric_ok fp bound f \<Longrightarrow> fabric_ok fp bound (fabric_deliver p s x f)"
  "fabric_take m f = (r, f') \<Longrightarrow> fabric_ok fp bound f \<Longrightarrow> fabric_ok fp bound f'"
  "fabric_ok fp bound f \<Longrightarrow> fabric_ok fp bound (fabric_clear m f)"
proof -
  assume x: "carries fp p x" and ok: "fabric_ok fp bound f"
  note d = deliver_boxes [of p s x f]
  show "fabric_ok fp bound (fabric_deliver p s x f)"
  proof (rule fabric_ok_do [OF ok, where c = "Deliver p s x"])
    show "fst ` set (fb_boxes (fabric_deliver p s x f)) = fst ` set (fb_boxes f)" using d by blast
    fix m s' x' assume "(s', x') \<in> set (box_of (fabric_deliver p s x f) m)"
    then have "(s', x') \<in> set (box_of f m) \<union> (if m = p then {(s, x)} else {})" using d by blast
    then show "(s', x') \<in> set (box_of f m) \<or> carries fp m x'" using x by (cases "m = p") auto
  qed simp
next
  assume t: "fabric_take m f = (r, f')" and ok: "fabric_ok fp bound f"
  note d = take_boxes [OF t]
  show "fabric_ok fp bound f'"
  proof (rule fabric_ok_do [OF ok, where c = "Take m"])
    show "fst ` set (fb_boxes f') = fst ` set (fb_boxes f)" using d by blast
    show "\<exists>l'. fabric_do (Take m) (f, l) = (f', l')" for l using t by (simp split: option.split)
  qed (use d in blast)
next
  assume ok: "fabric_ok fp bound f"
  note d = clear_boxes [of m f]
  show "fabric_ok fp bound (fabric_clear m f)"
  proof (rule fabric_ok_do [OF ok, where c = "Clear m"])
    show "fst ` set (fb_boxes (fabric_clear m f)) = fst ` set (fb_boxes f)" using d by blast
    show "\<exists>l'. fabric_do (Clear m) (f, l) = (fabric_clear m f, l')" for l by simp
  qed (use d in blast)
qed

lemma fabric_ok_init: "\<forall>m \<in> set members. 1 \<le> m \<Longrightarrow> fabric_ok fp bound (fabric_init members bound)"
proof -
  assume m: "\<forall>m \<in> set members. 1 \<le> m"
  let ?f = "fabric_init members bound"
  have "fst ` set (fold (\<lambda>m. AList.update m []) ms al) \<subseteq> set ms \<union> fst ` set al" for ms and al :: "(node_id \<times> mail) list"
  proof (induction ms arbitrary: al)
    case (Cons m ms)
    have "fst ` set (AList.update m [] al) = insert m (fst ` set al)" by (simp add: dom_update)
    then show ?case using Cons.IH [of "AList.update m [] al"] by auto
  qed simp
  from this [of members "[]"] have k: "\<forall>k \<in> fst ` set (fb_boxes ?f). 1 \<le> k"
    using m by (fastforce simp: fabric_init_def)
  have "box_of ?f n = []" for n
    using init_boxes [of members "[]" "fb_boxes ?f"]
    by (auto simp: fabric_init_def box_of_def split: option.split dest: map_of_SomeD)
  then show ?thesis using k fabric_inv_init [of members bound] by (auto simp: fabric_ok_def fabric_init_def)
qed

lemma fabric_ok_bounds:
  "fabric_ok fp bound f \<Longrightarrow> length (box_of f m) \<le> bound \<and> fabric_pending f + fb_dropped f \<le> fb_delivered f"
  by (auto simp: fabric_ok_def fabric_inv_def)

lemma fabric_ok_frames:
  assumes "fabric_ok fp bound f" and "(s, frame) \<in> set (box_of f m)"
  shows "1 \<le> m \<and> (\<exists>env. encode fp env = Inr frame \<and> ev_recipient env = m)"
proof -
  have "m \<in> fst ` set (fb_boxes f)" using assms(2) 
    by (cases "map_of (fb_boxes f) m") (force simp: box_of_def dest: map_of_SomeD)+
  then show ?thesis using assms by (fastforce simp: fabric_ok_def carries_def)
qed

end
