(* ===== verification/Cluster_Laws.thy ===== *)
theory Cluster_Laws
  imports Cluster Transport_Laws Fabric_Frames
begin

section \<open>What a cluster guarantees\<close>

subsection \<open>The mailboxes as a transport\<close>

interpretation loopback: transport_contract "cluster_ad core fp" "\<lambda>t. fabric_ok fp bound (lt_fabric t)"
  for core :: "'c core_ops" and fp and bound
  by unfold_locales
     (auto simp: cluster_ad_def loopback_send_def loopback_receive_def loopback_close_def
       carriesI intro: fabric_ok_calls split: prod.splits)

subsection \<open>Every member keeps its contract\<close>

definition cluster_inv :: "'c core_ops \<Rightarrow> int \<Rightarrow> nat \<Rightarrow> bool \<Rightarrow> 'c cluster \<Rightarrow> bool" where
  "cluster_inv core fp bound driving c =
     ((\<forall>(m, s) \<in> set (cl_sessions c). session_ok core s) \<and> fabric_ok fp bound (cl_fabric c) \<and> cl_pumping c = driving)"

definition member_keeps :: "'c core_ops \<Rightarrow> int \<Rightarrow> nat \<Rightarrow> ('c, mem_journal, mem_history, loopback, rat, 'a) session_prog \<Rightarrow> bool" where
  "member_keeps core fp bound p =
     (keeps (session_ok core) p \<and> keeps (\<lambda>s. fabric_ok fp bound (lt_fabric (sn_transport s))) p)"

lemma on_member_keeps:
  assumes "member_keeps core fp bound p"
  shows "keeps (cluster_inv core fp bound driving) (on_member m p)"
  unfolding keeps_def
proof (intro allI impI)
  fix c r c' assume inv: "cluster_inv core fp bound driving c" and r: "on_member m p c = Some (r, c')"
  show "cluster_inv core fp bound driving c'"
  proof (cases "map_of (cl_sessions c) m")
    case None
    then show ?thesis using r inv by (simp add: on_member_def)
  next
    case (Some s)
    then obtain s' where s': "p (load_member m c s) = Some (r, s')" and c': "c' = store_member m s' c"
      using r by (auto simp: on_member_def split: option.splits prod.splits)
    have "session_ok core (load_member m c s)" "fabric_ok fp bound (lt_fabric (sn_transport (load_member m c s)))"
      using inv map_of_SomeD [OF Some] by (auto simp: cluster_inv_def load_member_def)
    moreover have k: "keeps (session_ok core) p" "keeps (\<lambda>s. fabric_ok fp bound (lt_fabric (sn_transport s))) p"
      using assms by (auto simp: member_keeps_def)
    ultimately have "session_ok core s'" "fabric_ok fp bound (lt_fabric (sn_transport s'))"
      using keepsD [OF k(1) s'] keepsD [OF k(2) s'] by blast+
    moreover have "set (AList.update m s' al) \<subseteq> insert (m, s') (set al)" for al by (induction al) auto
    ultimately show ?thesis using inv unfolding c' by (fastforce simp: cluster_inv_def store_member_def)
  qed
qed

lemma member_rules:
  "member_keeps core fp bound (session_poll (cluster_ad core fp) timeout)"
  "member_keeps core fp bound (session_campaign (cluster_ad core fp))"
  "member_keeps core fp bound (session_state (cluster_ad core fp))"
  "member_keeps core fp bound (last_committed (cluster_ad core fp))"
  "member_keeps core fp bound (append_receipt (cluster_ad core fp) value slot)"
  "member_keeps core fp bound (session_entries (cluster_ad core fp) start limit)"
  "member_keeps core fp bound (session_close (cluster_ad core fp))"
  "member_keeps core fp bound (session_discharge (cluster_ad core fp) b)"
  "member_keeps core fp bound (with_batch (node_propose core value)
     (\<lambda>b. seq (session_discharge (cluster_ad core fp) b) (\<lambda>_. ret (pb_status b, pb_assigned_slot b))))"
proof -
  let ?ad = "cluster_ad core fp"
  have "keeps (session_ok (ad_core ?ad)) (with_batch (node_propose (ad_core ?ad) value)
     (\<lambda>b. seq (session_discharge ?ad b) (\<lambda>_. ret (pb_status b, pb_assigned_slot b))))"
    by (intro keeps_intros node_keeps)
  moreover have "keeps (session_ok (ad_core ?ad)) (session_state ?ad)"
    unfolding session_state_def by (intro keeps_intros node_keeps)
  ultimately show
    "member_keeps core fp bound (session_poll ?ad timeout)" "member_keeps core fp bound (session_campaign ?ad)"
    "member_keeps core fp bound (session_state ?ad)" "member_keeps core fp bound (last_committed ?ad)"
    "member_keeps core fp bound (append_receipt ?ad value slot)" "member_keeps core fp bound (session_entries ?ad start limit)"
    "member_keeps core fp bound (session_close ?ad)" "member_keeps core fp bound (session_discharge ?ad b)"
    "member_keeps core fp bound (with_batch (node_propose core value)
     (\<lambda>b. seq (session_discharge ?ad b) (\<lambda>_. ret (pb_status b, pb_assigned_slot b))))"
    using session_poll_keeps [of ?ad] driving_keeps(2) [of ?ad] last_committed_keeps [of ?ad]
      append_receipt_keeps [of ?ad] reading_keeps(1) [of ?ad] session_close_keeps [of ?ad] Session_Laws.discharge_keeps [of ?ad]
      loopback.poll_keeps loopback.campaign_keeps loopback.reads_keep loopback.receipt_keeps
      loopback.entries_keep loopback.close_keeps_ok loopback.discharge_keeps_ok
      loopback.propose 
    unfolding member_keeps_def by simp_all
qed

lemma poll_once_keeps: "keeps (session_ok (ad_core ad)) (poll_once ad timeout deadline)"
  unfolding poll_once_def monotonic_def Let_def
  by (intro keeps_intros node_keeps) (auto split: option.splits intro!: keeps_intros node_keeps)

lemma poll_once_member: "member_keeps core fp bound (poll_once (cluster_ad core fp) timeout deadline)"
proof -
  let ?ad = "cluster_ad core fp"
  have "keeps (\<lambda>s. fabric_ok fp bound (lt_fabric (sn_transport s))) (poll_once ?ad timeout deadline)"
    unfolding poll_once_def monotonic_def Let_def
    by (intro loopback.ok_rules loopback.tick_keeps)
       (auto split: option.splits intro!: loopback.ok_rules loopback.with_batch_keeps_ok loopback.discharge_keeps_ok)
  then show ?thesis using poll_once_keeps [of ?ad] by (simp add: member_keeps_def)
qed

lemma clock_member:
  "member_keeps core fp bound (monotonic (cluster_ad core fp))" "member_keeps core fp bound (get f)"
  unfolding member_keeps_def monotonic_def by (intro conjI keeps_intros loopback.ok_rules)+

lemmas on_member_rules =
  on_member_keeps [OF member_rules(1)] on_member_keeps [OF member_rules(2)] on_member_keeps [OF member_rules(3)]
  on_member_keeps [OF member_rules(4)] on_member_keeps [OF member_rules(5)] on_member_keeps [OF member_rules(6)]
  on_member_keeps [OF member_rules(7)] on_member_keeps [OF member_rules(8)] on_member_keeps [OF member_rules(9)]
  on_member_keeps [OF poll_once_member] on_member_keeps [OF clock_member(1)] on_member_keeps [OF clock_member(2)]

lemma cluster_fields_keep:
  "keeps (cluster_inv core fp bound driving) (modify (cl_now_update g))"
  "keeps (cluster_inv core fp bound driving) (modify (cl_sessions_update (\<lambda>_. [])))"
  by (rule keeps_modify, simp add: cluster_inv_def)+

lemmas cluster_rules = keeps_pure keeps_seq keeps_finally keeps_for_each keeps_if cluster_fields_keep on_member_rules

lemma poll_members_keep: "keeps (cluster_inv core fp bound driving) (poll_members core fp ms processed)"
  by (induction ms arbitrary: processed) (auto intro!: cluster_rules)

lemma pump_rounds_keep: "keeps (cluster_inv core fp bound driving) (pump_rounds core fp rounds processed)"
  by (induction rounds arbitrary: processed) (auto intro!: cluster_rules poll_members_keep)

lemma pump_keeps: "keeps (cluster_inv core fp bound driving) (cluster_pump core fp rounds)"
proof (cases driving)
  case True
  then show ?thesis by (auto simp: keeps_def cluster_pump_def cluster_inv_def get_def seq_def ret_def)
next
  case False
  have "cluster_inv core fp bound False c'" if inv: "cluster_inv core fp bound False c"
    and r: "cluster_pump core fp rounds c = Some (r, c')" for c r c'
  proof -
    let ?c = "c\<lparr>cl_pumping := True\<rparr>"
    have "\<not> cl_pumping c" using inv by (simp add: cluster_inv_def)
    then have "finally_do (pump_rounds core fp rounds 0) (modify (cl_pumping_update (\<lambda>_. False))) ?c = Some (r, c')"
      using r by (simp add: cluster_pump_def get_def seq_def modify_def ret_def)
    then obtain r1 c1 where p: "pump_rounds core fp rounds 0 ?c = Some (r1, c1)" and c': "c' = c1\<lparr>cl_pumping := False\<rparr>"
      by (auto simp: finally_Some_iff modify_def)
    have "cluster_inv core fp bound True ?c" using inv by (simp add: cluster_inv_def)
    from keepsD [OF pump_rounds_keep p this] show ?thesis unfolding c' by (simp add: cluster_inv_def)
  qed
  then show ?thesis using False by (auto simp: keeps_def)
qed

lemma find_leader_keeps: "keeps (cluster_inv core fp bound driving) (find_leader core fp ms)"
  by (induction ms) (auto intro!: cluster_rules)

lemma leader_keeps: "keeps (cluster_inv core fp bound driving) (cluster_leader core fp)"
  unfolding cluster_leader_def by (intro cluster_rules find_leader_keeps)

lemma elect_keeps: "keeps (cluster_inv core fp bound driving) (cluster_elect core fp node_id rounds)"
  unfolding cluster_elect_def Let_def
  by (intro cluster_rules leader_keeps) (auto split: option.splits intro!: cluster_rules leader_keeps pump_keeps)

lemma member_poll_loop_keeps: "keeps (cluster_inv core fp bound driving) (member_poll_loop core fp m timeout deadline processed)"
proof -
  have "cluster_inv core fp bound driving (snd y)"
    if "member_poll_loop core fp m timeout deadline processed c = Some y" and "cluster_inv core fp bound driving c" for y c
    using that
  proof (induction rule: member_poll_loop.raw_induct [rotated, consumes 1, case_names round])
    case (round loop core fp m timeout deadline processed c y)
    obtain r c1 where r: "on_member m (poll_once (cluster_ad core fp) timeout deadline) c = Some (r, c1)"
      using round(2) by (auto split: option.splits)
    have k1: "cluster_inv core fp bound driving c1" by (rule keepsD [OF on_member_keeps [OF poll_once_member] r round(3)])
    show ?case
    proof (cases r)
      case (Inl e)
      then show ?thesis using round(2) r k1 by auto
    next
      case (Inr p)
      show ?thesis
      proof (cases p)
        case (Sleep d)
        let ?sl = "seq (modify (cl_now_update (clock_advance d))) (\<lambda>_. cluster_pump core fp 64)"
        obtain r2 c2 where s: "?sl c1 = Some (r2, c2)" using round(2) r Inr Sleep by (auto split: option.splits)
        have "keeps (cluster_inv core fp bound driving) ?sl" by (intro cluster_rules pump_keeps)
        from keepsD [OF this s k1] have "cluster_inv core fp bound driving c2" .
        then show ?thesis using round(1) [of core fp m timeout deadline processed c2 y] round(2) r Inr Sleep s
          by (cases r2) auto
      qed (use round(1) [of core fp m timeout deadline "processed + 1" c1 y] round(2) r Inr k1 in \<open>auto split: if_splits\<close>)
    qed
  qed
  then show ?thesis by (fastforce simp: keeps_def)
qed

lemma member_poll_keeps: "keeps (cluster_inv core fp bound driving) (member_poll core fp m timeout)"
  unfolding member_poll_def by (intro cluster_rules member_poll_loop_keeps)

lemma member_wait_round_keeps: "keeps (cluster_inv core fp bound driving) (member_wait_round core fp m slot timeout deadline)"
  unfolding member_wait_round_def by (intro cluster_rules member_poll_keeps)

lemma member_wait_loop_keeps: "keeps (cluster_inv core fp bound driving) (member_wait_loop core fp m slot timeout deadline)"
proof -
  have "cluster_inv core fp bound driving (snd y)"
    if "member_wait_loop core fp m slot timeout deadline c = Some y" and "cluster_inv core fp bound driving c" for y c
    using that
  proof (induction rule: member_wait_loop.raw_induct [rotated, consumes 1, case_names round])
    case (round loop core fp m slot timeout deadline c y)
    obtain r c1 where r: "member_wait_round core fp m slot timeout deadline c = Some (r, c1)"
      using round(2) by (auto split: option.splits)
    have "cluster_inv core fp bound driving c1" by (rule keepsD [OF member_wait_round_keeps r round(3)])
    then show ?case using round(1) [of core fp m slot timeout deadline c1 y] round(2) r
      by (cases r) (auto split: if_splits)
  qed
  then show ?thesis by (fastforce simp: keeps_def)
qed

lemma member_append_keeps: "keeps (cluster_inv core fp bound driving) (member_append core fp m value timeout)"
  unfolding member_append_def Let_def
  by (intro cluster_rules member_poll_keeps) (auto intro!: cluster_rules member_wait_loop_keeps)

lemma cluster_append_keeps: "keeps (cluster_inv core fp bound driving) (cluster_append core fp value timeout)"
  unfolding cluster_append_def by (intro cluster_rules elect_keeps member_append_keeps pump_keeps)

lemma cluster_committed_keeps: "keeps (cluster_inv core fp bound driving) (cluster_committed core fp m limit)"
  unfolding cluster_committed_def committed_since_def by (intro cluster_rules)

lemma cluster_close_keeps: "keeps (cluster_inv core fp bound driving) (cluster_close core fp)"
  unfolding cluster_close_def by (intro cluster_rules)

subsection \<open>The life of a cluster\<close>

lemma open_members_ok:
  "open_members ad conf options members f ms epoch = (Inr ss, epoch') \<Longrightarrow>
   map fst ss = ms \<and> (\<forall>(m, s) \<in> set ss. session_ok (ad_core ad) s)"
proof (induction ms arbitrary: ss epoch epoch')
  case (Cons m ms)
  obtain s rest epoch1 ss' where i: "session_init ad m members conf mj_new \<lparr>lt_fabric = f, lt_node_id = m\<rparr> mh_new 0
        (Fin (1 / 100)) options epoch = (Inr s, rest)"
    and o: "open_members ad conf options members f ms epoch1 = (Inr ss', epoch')" and ss: "ss = (m, s) # ss'"
    using Cons.prems by (auto split: sum.splits prod.splits)
  show ?case using Cons.IH [OF o] session_init_ok [OF i] ss by auto
qed simp

lemma cluster_init_inv:
  assumes "cluster_init core fp sz conf bound options epoch = (Inr c, epoch')"
  shows "cluster_inv core fp bound False c"
proof -
  have "fabric_ok fp bound (fabric_init [1..sz] bound)" by (rule fabric_ok_init) simp
  then show ?thesis
    using assms open_members_ok [of "cluster_ad core fp" conf options "[1..sz]"]
    by (fastforce simp: cluster_init_def cluster_inv_def Let_def split: if_splits sum.splits prod.splits)
qed

text \<open>Any use of a cluster: its constructor, then its methods and its members' methods in any order, each of which may raise.\<close>

inductive cluster_reachable :: "'c core_ops \<Rightarrow> int \<Rightarrow> nat \<Rightarrow> 'c cluster \<Rightarrow> bool" for core fp bound where
  Open: "cluster_init core fp sz conf bound options epoch = (Inr c, epoch') \<Longrightarrow> cluster_reachable core fp bound c"
| Pump: "cluster_reachable core fp bound c \<Longrightarrow> cluster_pump core fp rounds c = Some (r, c') \<Longrightarrow>
    cluster_reachable core fp bound c'"
| Elect: "cluster_reachable core fp bound c \<Longrightarrow> cluster_elect core fp candidate rounds c = Some (r1, c') \<Longrightarrow>
    cluster_reachable core fp bound c'"
| Append: "cluster_reachable core fp bound c \<Longrightarrow> cluster_append core fp value timeout c = Some (r2, c') \<Longrightarrow>
    cluster_reachable core fp bound c'"
| Committed: "cluster_reachable core fp bound c \<Longrightarrow> cluster_committed core fp m limit c = Some (r3, c') \<Longrightarrow>
    cluster_reachable core fp bound c'"
| Close: "cluster_reachable core fp bound c \<Longrightarrow> cluster_close core fp c = Some (r4, c') \<Longrightarrow>
    cluster_reachable core fp bound c'"
| Member_Poll: "cluster_reachable core fp bound c \<Longrightarrow> member_poll core fp m timeout c = Some (r5, c') \<Longrightarrow>
    cluster_reachable core fp bound c'"
| Member_Append: "cluster_reachable core fp bound c \<Longrightarrow> member_append core fp m value timeout c = Some (r6, c') \<Longrightarrow>
    cluster_reachable core fp bound c'"
| Member_Campaign: "cluster_reachable core fp bound c \<Longrightarrow>
    on_member m (session_campaign (cluster_ad core fp)) c = Some (r7, c') \<Longrightarrow> cluster_reachable core fp bound c'"
| Member_Close: "cluster_reachable core fp bound c \<Longrightarrow>
    on_member m (session_close (cluster_ad core fp)) c = Some (r8, c') \<Longrightarrow> cluster_reachable core fp bound c'"

lemma cluster_reachable_inv: "cluster_reachable core fp bound c \<Longrightarrow> cluster_inv core fp bound False c"
proof (induction rule: cluster_reachable.induct)
  case (Open sz conf options epoch c epoch')
  then show ?case by (rule cluster_init_inv)
next
  case (Pump c rounds r c')
  show ?case by (rule keepsD [OF pump_keeps Pump(2,3)])
next
  case (Elect c candidate rounds r c')
  show ?case by (rule keepsD [OF elect_keeps Elect(2,3)])
next
  case (Append c v timeout r c')
  show ?case by (rule keepsD [OF cluster_append_keeps Append(2,3)])
next
  case (Committed c m limit r c')
  show ?case by (rule keepsD [OF cluster_committed_keeps Committed(2,3)])
next
  case (Close c r c')
  show ?case by (rule keepsD [OF cluster_close_keeps Close(2,3)])
next
  case (Member_Poll c m timeout r c')
  show ?case by (rule keepsD [OF member_poll_keeps Member_Poll(2,3)])
next
  case (Member_Append c m v timeout r c')
  show ?case by (rule keepsD [OF member_append_keeps Member_Append(2,3)])
next
  case (Member_Campaign c m r c')
  show ?case by (rule keepsD [OF on_member_keeps [OF member_rules(2)] Member_Campaign(2,3)])
next
  case (Member_Close c m r c')
  show ?case by (rule keepsD [OF on_member_keeps [OF member_rules(7)] Member_Close(2,3)])
qed

text \<open>C13: A cluster keeps every member's contract through the mailboxes they share. However a cluster is used -
  its own methods and its members', in any order, elections, appends and pumps nested in sleeps
  included, with exceptions anywhere: the core's gate of no member is ever violated, and outside an
  unconfirmed batch it is open; no mailbox exceeds its depth, and no more frames are pending or dropped
  than were delivered; and no call leaves the guard against recursive pumping set, so a later
  \<^verbatim>\<open>pump\<close> is never skipped.\<close>

theorem cluster_keeps_contract:
  assumes "core_gate core" and "cluster_reachable core fp bound c"
  shows "(\<forall>(m, s) \<in> set (cl_sessions c). \<forall>h. nd_handle (sn_node s) = Some h \<longrightarrow>
        \<not> hd_violated h \<and> (bt_phase (hd_batch h) \<noteq> BP_PENDING \<longrightarrow> \<not> ef_pending (hd_effects h)))
    \<and> (\<forall>m. length (box_of (cl_fabric c) m) \<le> bound)
    \<and> fabric_pending (cl_fabric c) + fb_dropped (cl_fabric c) \<le> fb_delivered (cl_fabric c)
    \<and> \<not> cl_pumping c"
proof -
  note inv = cluster_reachable_inv [OF assms(2), unfolded cluster_inv_def]
  have "\<not> hd_violated h \<and> (bt_phase (hd_batch h) \<noteq> BP_PENDING \<longrightarrow> \<not> ef_pending (hd_effects h))"
    if "(m, s) \<in> set (cl_sessions c)" and "nd_handle (sn_node s) = Some h" for m s h
  proof -
    have "bridge_reachable core h" using inv that by (force simp: node_ok_def)
    then show ?thesis using bridge_inv_reachable [OF _ assms(1)] unfolding bridge_inv_def by blast
  qed
  then show ?thesis using inv fabric_ok_bounds by fastforce
qed

text \<open>What travels in a cluster is well formed. However the cluster is used, every frame in a mailbox is the
  encoding of an envelope for the member whose mailbox it is; and unless that envelope names the sender
  0, which only a core could have written, \<^verbatim>\<open>decode\<close> accepts the frame, with the sender and recipient
  it was given and every field within its width. So no member's \<^verbatim>\<open>poll\<close> is stopped by a peer's frame.\<close>

lemma cluster_frames_well_formed:
  assumes "cluster_reachable core fp bound c" and "(s, frame) \<in> set (box_of (cl_fabric c) m)"
  shows "1 \<le> m \<and> (\<exists>env. encode fp env = Inr frame \<and> ev_recipient env = m
    \<and> (ev_sender env \<noteq> 0 \<longrightarrow> (\<exists>env'. decode fp frame = Inr env' \<and> wire_in_range env'
         \<and> ev_sender env' = ev_sender env \<and> ev_recipient env' = m)))"
proof -
  have "fabric_ok fp bound (cl_fabric c)" using cluster_reachable_inv [OF assms(1)] by (simp add: cluster_inv_def)
  from fabric_ok_frames [OF this assms(2)] obtain env where
    e: "1 \<le> m" "encode fp env = Inr frame" "ev_recipient env = m" by blast
  then show ?thesis using encode_decodes [OF e(2)] by fastforce
qed

subsection \<open>Electing and appending\<close>

lemma find_leader_Some:
  "find_leader core fp ms c = Some (Inr (Some m), c') \<Longrightarrow>
   m \<in> set ms \<and> (\<exists>c1 st. on_member m (session_state (cluster_ad core fp)) c1 = Some (Inr st, c') \<and> ns_role st = LEADER)"
  by (induction ms arbitrary: c) (auto simp: seq_Some_iff ret_def split: if_splits)

lemma cluster_leader_Some:
  "cluster_leader core fp c = Some (Inr (Some m), c') \<Longrightarrow>
   \<exists>c1 st. on_member m (session_state (cluster_ad core fp)) c1 = Some (Inr st, c') \<and> ns_role st = LEADER"
  unfolding cluster_leader_def by (auto simp: seq_Some_iff dest: find_leader_Some)

lemma elect_Inr:
  assumes "cluster_elect core fp candidate rounds c = Some (Inr m, c')"
  shows "\<exists>c1 st. on_member m (session_state (cluster_ad core fp)) c1 = Some (Inr st, c') \<and> ns_role st = LEADER"
  using assms unfolding cluster_elect_def Let_def
  by (auto simp: seq_Some_iff ret_def raise_def split: option.splits dest!: cluster_leader_Some)

lemma member_wait_loop_released:
  "member_wait_loop core fp m slot timeout deadline c = Some y \<Longrightarrow> y = (Inr (), c') \<Longrightarrow>
   \<exists>c1 d. on_member m (last_committed (cluster_ad core fp)) c1 = Some (Inr d, c') \<and> slot \<le> d"
proof (induction rule: member_wait_loop.raw_induct [rotated, consumes 1, case_names round])
  case (round loop core fp m slot timeout deadline c y)
  obtain b c1 where r: "member_wait_round core fp m slot timeout deadline c = Some (Inr b, c1)"
    using round(2,3) by (auto split: option.splits sum.splits)
  show ?case
  proof (cases b)
    case False
    then show ?thesis using round(1) [of core fp m slot timeout deadline c1 y] round(2,3) r by simp
  next
    case True
    then have "c1 = c'" using round(2,3) r by simp
    then show ?thesis using r True unfolding member_wait_round_def
      by (auto simp: seq_Some_iff ret_def raise_def split: if_splits)
  qed
qed

lemma on_member_Some:
  assumes "on_member m p c = Some (r, c')" and "r \<noteq> Inl (KeyErr m)"
  obtains s s' where "map_of (cl_sessions c) m = Some s" and "p (load_member m c s) = Some (r, s')" and "c' = store_member m s' c"
  using assms by (auto simp: on_member_def split: option.splits prod.splits)


end
