(* ===== verification/Cluster_Samples.thy ===== *)
theory Cluster_Samples
  imports Cluster_Laws Session_Samples
begin

section \<open>A cluster to evaluate\<close>

text \<open>
  Two members over the core of the theory \<open>Session_Samples\<close>, which here reports that it leads. A proposal
  to one sends a message, so the other finds a frame in its mailbox.
\<close>

definition lead_core :: "c_entry list core_ops" where
  "lead_core = log_core\<lparr>co_state := (\<lambda>c. (co_state log_core c)\<lparr>cst_role := 2\<rparr>)\<rparr>"

lemma lead_core_gate: "core_gate lead_core"
  using log_core_gate by (simp add: core_gate_def lead_core_def)

definition lead_cluster :: "c_entry list cluster" where
  "lead_cluster = (case fst (cluster_init lead_core 5 2 1 8 log_options 7) of Inr c \<Rightarrow> c | Inl _ \<Rightarrow> undefined)"

lemma lead_opens: "is_ok (fst (cluster_init lead_core 5 2 1 8 log_options 7))"
  by code_simp

lemma lead_reachable: "cluster_reachable lead_core 5 8 lead_cluster"
proof -
  obtain c e where "cluster_init lead_core 5 2 1 8 log_options 7 = (Inr c, e)"
    using lead_opens by (cases "cluster_init lead_core 5 2 1 8 log_options 7") (auto simp: is_ok_iff)
  then show ?thesis by (auto simp: lead_cluster_def intro: Open)
qed

lemma lead_appended:
  "returned (\<lambda>r c. is_receipt 1 r \<and> length (cl_sessions c) = 2 \<and> fb_delivered (cl_fabric c) = 1)
     (cluster_append lead_core 5 [104, 105] (Fin 1) lead_cluster)"
  by code_simp

theorem cluster_keeps_contract_witness:
  "\<exists>r c. cluster_append lead_core 5 [104, 105] (Fin 1) lead_cluster = Some (r, c) \<and> length (cl_sessions c) = 2
    \<and> fb_delivered (cl_fabric c) = 1 \<and> \<not> cl_pumping c \<and> length (box_of (cl_fabric c) 2) \<le> 8
    \<and> (\<forall>(m, s) \<in> set (cl_sessions c). \<forall>h. nd_handle (sn_node s) = Some h \<longrightarrow> \<not> hd_violated h)"
proof -
  obtain r c where a: "cluster_append lead_core 5 [104, 105] (Fin 1) lead_cluster = Some (r, c)"
    "length (cl_sessions c) = 2" "fb_delivered (cl_fabric c) = 1"
    using lead_appended by (auto elim!: returnedE)
  from cluster_keeps_contract [OF lead_core_gate Append [OF lead_reachable a(1)]] a show ?thesis by fastforce
qed


end
