(* ===== verification/Aio.thy ===== *)
theory Aio
  imports Session_Ends
begin

section \<open>\<^verbatim>\<open>aio.py\<close>: a session driven by asyncio\<close>

text \<open>
  An \<^verbatim>\<open>AsyncSession\<close> as a step relation. A step of the event loop runs one task from one \<^verbatim>\<open>await\<close> to the
  next; the worker threads that \<^verbatim>\<open>asyncio.to_thread\<close> starts take steps of their own, in between. Task 0
  is the receiver, task 1 the ticker, every other task belongs to a caller of \<^verbatim>\<open>append\<close> or \<^verbatim>\<open>campaign\<close> and
  may be cancelled at any \<^verbatim>\<open>await\<close>. A worker discharges its batch in one step and advances the memory floor
  in another: what the loop can do in between the parts of the first is refused by the node.
\<close>

subsection \<open>The outbox\<close>

type_synonym outbox = "(node_id \<times> bytes) list"

definition outbox_send :: "node_id \<Rightarrow> bytes \<Rightarrow> outbox \<Rightarrow> (exn + unit) \<times> outbox" where
  "outbox_send peer frame frames = (Inr (), frames @ [(peer, frame)])"

definition outbox_receive :: "rat \<Rightarrow> outbox \<Rightarrow> (exn + (node_id \<times> bytes) option) \<times> outbox" where
  "outbox_receive timeout frames = (Inl RuntimeErr, frames)"

definition outbox_close :: "outbox \<Rightarrow> (exn + unit) \<times> outbox" where
  "outbox_close frames = (Inr (), [])"

type_synonym ('c, 'j, 'h, 'k) aio_ad = "('c, 'j, 'h, outbox, 'k) adapters"
type_synonym ('c, 'j, 'h, 'k) aio_sync = "('c, 'j, 'h, outbox, 'k) session"

text \<open>The adapters of the inner session: the caller's, with the outbox for a transport.\<close>

definition queueing :: "('c, 'j, 'h, 'k) aio_ad \<Rightarrow> ('c, 'j, 'h, 'k) aio_ad" where
  "queueing ad = ad\<lparr>ad_send := outbox_send, ad_receive := outbox_receive, ad_close_transport := outbox_close\<rparr>"

lemma queueing_core [simp]: "ad_core (queueing ad) = ad_core ad"
  by (simp add: queueing_def)

subsection \<open>Tasks, workers and futures\<close>

type_synonym task = nat

text \<open>A call of \<^verbatim>\<open>_run\<close>: by a driver, by \<^verbatim>\<open>campaign\<close>, or by \<^verbatim>\<open>append\<close> with its value and timeout.\<close>

datatype job = Job_Step envelope | Job_Tick | Job_Campaign | Job_Append bytes rat

fun job_begin :: "'c core_ops \<Rightarrow> job \<Rightarrow> ('c, pending_batch) node_op" where
  "job_begin ops (Job_Step env) = node_step ops env"
| "job_begin ops Job_Tick = node_tick ops"
| "job_begin ops Job_Campaign = node_campaign ops"
| "job_begin ops (Job_Append value timeout) = node_propose ops value"

datatype coroutine =
  Idle                                      \<comment> \<open>outside \<^verbatim>\<open>_run\<close>: sleeping, receiving, or not called\<close>
| Queued job                                \<comment> \<open>at \<^verbatim>\<open>async with self._serial\<close>\<close>
| Shielded job pending_batch nat            \<comment> \<open>at \<^verbatim>\<open>await asyncio.shield(work)\<close>\<close>
| Flushing job pending_batch "node_id \<times> bytes" \<comment> \<open>at \<^verbatim>\<open>await self._transport.send(...)\<close>\<close>
| Waiting bytes slot rat nat                \<comment> \<open>at \<^verbatim>\<open>await waiter\<close>\<close>
| Stopped                                   \<comment> \<open>a driver not started, or cancelled\<close>
| Dead exn                                  \<comment> \<open>a driver ended by an exception\<close>

datatype work = Discharging pending_batch | Flooring | Done "exn + unit"

datatype future = Pending | Resolved | Withdrawn

text \<open>How far \<^verbatim>\<open>close\<close> has come.\<close>

datatype closing = Opened | Stopping | Gathering "nat list" | Closed

text \<open>\<open>as_network\<close> are the frames handed to the transport, and \<open>as_seen\<close> is the largest released slot that
  \<^verbatim>\<open>_settle_waiters\<close> has read or an append has found; neither is state of the program.\<close>

record ('c, 'j, 'h, 'k) aio =
  as_sync :: "('c, 'j, 'h, outbox, 'k) session"
  as_serial :: "task option"
  as_works :: "work list"
  as_futures :: "future list"
  as_waiters :: "(slot \<times> nat) list"
  as_co :: "task \<Rightarrow> coroutine"
  as_closing :: closing
  as_network :: outbox
  as_seen :: slot

datatype event = Quiet | Returned task "receipt option" | Raised task exn | Cancelled task

abbreviation is_driver :: "task \<Rightarrow> bool" where "is_driver t \<equiv> t \<le> 1"

definition set_co :: "task \<Rightarrow> coroutine \<Rightarrow> ('c, 'j, 'h, 'k) aio \<Rightarrow> ('c, 'j, 'h, 'k) aio" where
  "set_co t c s = s\<lparr>as_co := (as_co s)(t := c)\<rparr>"

text \<open>Leaving \<^verbatim>\<open>async with self._serial\<close>.\<close>

definition release :: "task \<Rightarrow> ('c, 'j, 'h, 'k) aio \<Rightarrow> ('c, 'j, 'h, 'k) aio" where
  "release t s = (if as_serial s = Some t then s\<lparr>as_serial := None\<rparr> else s)"

text \<open>An exception leaves the task: it ends a driver, and reaches the caller of another.\<close>

definition fail_task :: "task \<Rightarrow> exn \<Rightarrow> ('c, 'j, 'h, 'k) aio \<Rightarrow> event \<times> ('c, 'j, 'h, 'k) aio" where
  "fail_task t e s = (Raised t e, release t (set_co t (if is_driver t then Dead e else Idle) s))"

text \<open>\<^verbatim>\<open>waiter.cancel()\<close> and \<^verbatim>\<open>set_result\<close> change a pending future only.\<close>

definition complete :: "future \<Rightarrow> nat \<Rightarrow> future list \<Rightarrow> future list" where
  "complete f i fs = (if i < length fs \<and> fs ! i = Pending then fs[i := f] else fs)"

definition settle_waiters :: "slot \<Rightarrow> ('c, 'j, 'h, 'k) aio \<Rightarrow> ('c, 'j, 'h, 'k) aio" where
  "settle_waiters released s =
     s\<lparr>as_futures := fold (complete Resolved) (map snd (filter (\<lambda>(slot, _). slot \<le> released) (as_waiters s))) (as_futures s),
       as_waiters := filter (\<lambda>(slot, _). \<not> slot \<le> released) (as_waiters s),
       as_seen := max (as_seen s) released\<rparr>"

subsection \<open>Appending\<close>

text \<open>What follows \<^verbatim>\<open>await self._run(...)\<close> in \<^verbatim>\<open>append\<close>: whether the slot is released already.\<close>

definition aio_admitted :: "('c, 'j, 'h, 'k) aio_ad \<Rightarrow> bytes \<Rightarrow> pending_batch \<Rightarrow> ('c, 'j, 'h, outbox, 'k, bool) session_prog" where
  "aio_admitted ad value b =
     seq (if pb_status b = class_code NotLeader
          then seq (session_state ad) (\<lambda>state. raise (not_leader_error state)) else ret ()) (\<lambda>_.
     seq (lift_result (raise_for (pb_status b) [(''value_bytes'', PInt (int (length value)))])) (\<lambda>_.
     seq (last_committed ad) (\<lambda>released. ret (\<not> released < pb_assigned_slot b))))"

definition aio_receipt :: "('c, 'j, 'h, 'k) aio_ad \<Rightarrow> bytes \<Rightarrow> slot \<Rightarrow> ('c, 'j, 'h, outbox, 'k, receipt) session_prog" where
  "aio_receipt ad value slot =
     seq (session_getitem ad slot) (\<lambda>found. let entry = cm_entry found in
       if le_kind entry \<noteq> EK_COMMAND \<or> le_body entry \<noteq> value
       then raise (err ProposalLost [(''slot'', PInt slot),
              (''submitted_bytes'', PInt (int (length value))),
              (''decided_kind'', PStr (entry_kind_name (le_kind entry)))])
       else seq (session_state ad) (\<lambda>state.
         ret \<lparr>rc_configuration_id = ns_configuration_id state, rc_slot = slot, rc_entry = entry\<rparr>))"

text \<open>The last statements of \<^verbatim>\<open>append\<close>, and the wait before them.\<close>

definition finish_append :: "('c, 'j, 'h, 'k) aio_ad \<Rightarrow> task \<Rightarrow> bytes \<Rightarrow> slot \<Rightarrow> ('c, 'j, 'h, 'k) aio
    \<Rightarrow> (event \<times> ('c, 'j, 'h, 'k) aio) option" where
  "finish_append ad t value slot s =
     (case aio_receipt (queueing ad) value slot (as_sync s) of
        None \<Rightarrow> None
      | Some (Inl e, sync) \<Rightarrow> Some (fail_task t e (s\<lparr>as_sync := sync\<rparr>))
      | Some (Inr r, sync) \<Rightarrow> Some (Returned t (Some r), set_co t Idle (s\<lparr>as_sync := sync\<rparr>)))"

definition wait_for_slot :: "task \<Rightarrow> bytes \<Rightarrow> rat \<Rightarrow> slot \<Rightarrow> ('c, 'j, 'h, 'k) aio \<Rightarrow> ('c, 'j, 'h, 'k) aio" where
  "wait_for_slot t value timeout slot s =
     (case map_of (as_waiters s) slot of
        Some i \<Rightarrow> set_co t (Waiting value slot timeout i) s
      | None \<Rightarrow> set_co t (Waiting value slot timeout (length (as_futures s)))
          (s\<lparr>as_waiters := as_waiters s @ [(slot, length (as_futures s))], as_futures := as_futures s @ [Pending]\<rparr>))"

text \<open>After \<^verbatim>\<open>_run\<close>: a driver loops, \<^verbatim>\<open>campaign\<close> returns, and \<^verbatim>\<open>append\<close> goes on.\<close>

fun after_run :: "('c, 'j, 'h, 'k) aio_ad \<Rightarrow> task \<Rightarrow> job \<Rightarrow> pending_batch \<Rightarrow> ('c, 'j, 'h, 'k) aio
    \<Rightarrow> (event \<times> ('c, 'j, 'h, 'k) aio) option" where
  "after_run ad t (Job_Append value timeout) b s =
     (case aio_admitted (queueing ad) value b (as_sync s) of
        None \<Rightarrow> None
      | Some (Inl e, sync) \<Rightarrow> Some (fail_task t e (s\<lparr>as_sync := sync\<rparr>))
      | Some (Inr True, sync) \<Rightarrow>
          finish_append ad t value (pb_assigned_slot b)
            (s\<lparr>as_sync := sync, as_seen := max (as_seen s) (pb_assigned_slot b)\<rparr>)
      | Some (Inr False, sync) \<Rightarrow>
          Some (Quiet, wait_for_slot t value timeout (pb_assigned_slot b) (s\<lparr>as_sync := sync\<rparr>)))"
| "after_run ad t job b s = Some (Returned t None, set_co t Idle s)"

text \<open>\<^verbatim>\<open>_flush\<close> up to its next \<^verbatim>\<open>await\<close>, and when the outbox is empty the rest of \<^verbatim>\<open>_run\<close>.\<close>

definition flush_on :: "('c, 'j, 'h, 'k) aio_ad \<Rightarrow> task \<Rightarrow> job \<Rightarrow> pending_batch \<Rightarrow> ('c, 'j, 'h, 'k) aio
    \<Rightarrow> (event \<times> ('c, 'j, 'h, 'k) aio) option" where
  "flush_on ad t job b s =
     (case sn_transport (as_sync s) of
        pf # rest \<Rightarrow>
          Some (Quiet, set_co t (Flushing job b pf) (s\<lparr>as_sync := (as_sync s)\<lparr>sn_transport := rest\<rparr>\<rparr>))
      | [] \<Rightarrow>
          (case last_committed (queueing ad) (as_sync s) of
             None \<Rightarrow> None
           | Some (Inl e, sync) \<Rightarrow> Some (fail_task t e (s\<lparr>as_sync := sync\<rparr>))
           | Some (Inr released, sync) \<Rightarrow>
               after_run ad t job b (release t (settle_waiters released (s\<lparr>as_sync := sync\<rparr>)))))"

subsection \<open>Discharging in a worker thread\<close>

definition discharge_main :: "('c, 'j, 'h, 'k) aio_ad \<Rightarrow> pending_batch \<Rightarrow> ('c, 'j, 'h, outbox, 'k, unit) session_prog" where
  "discharge_main ad b = finally_do (discharge_body ad b) (on_node (pb_finish b))"

definition discharge_floor :: "('c, 'j, 'h, 'k) aio_ad \<Rightarrow> ('c, 'j, 'h, outbox, 'k, unit) session_prog" where
  "discharge_floor ad = seq (get sn_applied_through) (\<lambda>applied.
     if applied \<noteq> 0 then on_node (node_advance_memory_floor (ad_core ad) applied) else ret ())"

lemma session_discharge_split: "session_discharge ad b = seq (discharge_main ad b) (\<lambda>_. discharge_floor ad)"
  by (simp add: session_discharge_def discharge_main_def discharge_floor_def)

definition in_flight :: "work list \<Rightarrow> nat list" where
  "in_flight works = filter (\<lambda>w. case works ! w of Done _ \<Rightarrow> False | _ \<Rightarrow> True) [0..<length works]"

subsection \<open>Steps\<close>

text \<open>What a step does with the transport: nothing, or one call that returned or raised.\<close>

datatype wire = Silent | Got bytes | Get_Failed | Put node_id bytes | Put_Failed node_id bytes

inductive aio_act :: "('c, 'j, 'h, 'k) aio_ad \<Rightarrow> ('c, 'j, 'h, 'k) aio \<Rightarrow> wire \<Rightarrow> event \<Rightarrow> ('c, 'j, 'h, 'k) aio \<Rightarrow> bool" for ad where
  start: "as_closing s = Opened \<Longrightarrow> as_co s 0 = Stopped \<Longrightarrow> as_co s 1 = Stopped
    \<Longrightarrow> aio_act ad s Silent Quiet (set_co 0 Idle (set_co 1 Idle s))"
| frame: "as_co s 0 = Idle \<Longrightarrow> decode (ad_fingerprint ad) bytes = Inr env
    \<Longrightarrow> aio_act ad s (Got bytes) Quiet (set_co 0 (Queued (Job_Step env)) s)"
| bad_frame: "as_co s 0 = Idle \<Longrightarrow> decode (ad_fingerprint ad) bytes = Inl e \<Longrightarrow> fail_task 0 e s = (ev, s')
    \<Longrightarrow> aio_act ad s (Got bytes) ev s'"
| receive_raises: "as_co s 0 = Idle \<Longrightarrow> fail_task 0 e s = (ev, s') \<Longrightarrow> aio_act ad s Get_Failed ev s'"
| timer: "as_co s 1 = Idle \<Longrightarrow> aio_act ad s Silent Quiet (set_co 1 (Queued Job_Tick) s)"
| campaign: "\<not> is_driver t \<Longrightarrow> as_co s t = Idle \<Longrightarrow> aio_act ad s Silent Quiet (set_co t (Queued Job_Campaign) s)"
| append: "\<not> is_driver t \<Longrightarrow> as_co s t = Idle \<Longrightarrow> check_timeout timeout = Inr d
    \<Longrightarrow> aio_act ad s Silent Quiet (set_co t (Queued (Job_Append v d)) s)"
| bad_timeout: "\<not> is_driver t \<Longrightarrow> as_co s t = Idle \<Longrightarrow> check_timeout timeout = Inl e
    \<Longrightarrow> aio_act ad s Silent (Raised t e) s"
| transition: "as_co s t = Queued job \<Longrightarrow> as_serial s = None
    \<Longrightarrow> job_begin (ad_core ad) job (sn_node (as_sync s)) = (Inr b, n)
    \<Longrightarrow> aio_act ad s Silent Quiet (set_co t (Shielded job b (length (as_works s)))
          (s\<lparr>as_serial := Some t, as_sync := (as_sync s)\<lparr>sn_node := n\<rparr>, as_works := as_works s @ [Discharging b]\<rparr>))"
| refused: "as_co s t = Queued job \<Longrightarrow> as_serial s = None
    \<Longrightarrow> job_begin (ad_core ad) job (sn_node (as_sync s)) = (Inl e, n)
    \<Longrightarrow> fail_task t e (s\<lparr>as_sync := (as_sync s)\<lparr>sn_node := n\<rparr>\<rparr>) = (ev, s')
    \<Longrightarrow> aio_act ad s Silent ev s'"
| worker: "w < length (as_works s) \<Longrightarrow> as_works s ! w = Discharging b
    \<Longrightarrow> discharge_main (queueing ad) b (as_sync s) = Some (r, sync)
    \<Longrightarrow> aio_act ad s Silent Quiet (s\<lparr>as_sync := sync,
          as_works := (as_works s)[w := (case r of Inl e \<Rightarrow> Done (Inl e) | Inr _ \<Rightarrow> Flooring)]\<rparr>)"
| worker_floor: "w < length (as_works s) \<Longrightarrow> as_works s ! w = Flooring
    \<Longrightarrow> discharge_floor (queueing ad) (as_sync s) = Some (r, sync)
    \<Longrightarrow> aio_act ad s Silent Quiet (s\<lparr>as_sync := sync, as_works := (as_works s)[w := Done r]\<rparr>)"
| discharged: "as_co s t = Shielded job b w \<Longrightarrow> w < length (as_works s) \<Longrightarrow> as_works s ! w = Done (Inr ())
    \<Longrightarrow> flush_on ad t job b s = Some (ev, s') \<Longrightarrow> aio_act ad s Silent ev s'"
| discharge_failed: "as_co s t = Shielded job b w \<Longrightarrow> w < length (as_works s) \<Longrightarrow> as_works s ! w = Done (Inl e)
    \<Longrightarrow> fail_task t e s = (ev, s') \<Longrightarrow> aio_act ad s Silent ev s'"
| sent: "as_co s t = Flushing job b pf
    \<Longrightarrow> flush_on ad t job b (s\<lparr>as_network := as_network s @ [pf]\<rparr>) = Some (ev, s') \<Longrightarrow> aio_act ad s (Put (fst pf) (snd pf)) ev s'"
| send_failed: "as_co s t = Flushing job b pf \<Longrightarrow> flush_on ad t job b s = Some (ev, s') \<Longrightarrow> aio_act ad s (Put_Failed (fst pf) (snd pf)) ev s'"
| woken: "as_co s t = Waiting v slot d i \<Longrightarrow> i < length (as_futures s) \<Longrightarrow> as_futures s ! i = Resolved
    \<Longrightarrow> finish_append ad t v slot s = Some (ev, s') \<Longrightarrow> aio_act ad s Silent ev s'"
| withdrawn: "as_co s t = Waiting v slot d i \<Longrightarrow> i < length (as_futures s) \<Longrightarrow> as_futures s ! i = Withdrawn
    \<Longrightarrow> aio_act ad s Silent (Cancelled t) (set_co t Idle s)"
| expired: "as_co s t = Waiting v slot d i
    \<Longrightarrow> aio_act ad s Silent (Raised t (err CommitTimeout [(''admitted'', PBool True), (''slot'', PInt slot),
           (''seconds'', PFloat (Fin d))]))
         (set_co t Idle (s\<lparr>as_futures := complete Withdrawn i (as_futures s),
            as_waiters := filter (\<lambda>(k, _). k \<noteq> slot) (as_waiters s)\<rparr>))"
| cancelled: "\<not> is_driver t \<Longrightarrow> as_co s t = Queued job \<or> as_co s t = Shielded job b w \<or> as_co s t = Flushing job b pf
    \<Longrightarrow> aio_act ad s Silent (Cancelled t) (release t (set_co t Idle s))"
| cancelled_wait: "as_co s t = Waiting v slot d i
    \<Longrightarrow> aio_act ad s Silent (Cancelled t) (set_co t Idle (s\<lparr>as_futures := complete Withdrawn i (as_futures s)\<rparr>))"
| close_tasks: "as_closing s = Opened \<Longrightarrow> \<forall>t e. is_driver t \<longrightarrow> as_co s t \<noteq> Dead e
    \<Longrightarrow> aio_act ad s Silent Quiet (release 0 (release 1 (set_co 0 Stopped (set_co 1 Stopped (s\<lparr>as_closing := Stopping\<rparr>)))))"
| close_raises: "as_closing s = Opened \<Longrightarrow> is_driver t \<Longrightarrow> as_co s t = Dead e
    \<Longrightarrow> (t = 1 \<longrightarrow> (\<forall>e'. as_co s 0 \<noteq> Dead e')) \<Longrightarrow> as_co s (1 - t) = c
    \<Longrightarrow> aio_act ad s Silent (Raised t e)
          (release (1 - t) (set_co (1 - t) (case c of Dead e' \<Rightarrow> Dead e' | _ \<Rightarrow> Stopped) s))"
| close_gather: "as_closing s = Stopping
    \<Longrightarrow> aio_act ad s Silent Quiet (s\<lparr>as_closing := Gathering (in_flight (as_works s))\<rparr>)"
| close_finish: "as_closing s = Gathering ws \<Longrightarrow> \<forall>w \<in> set ws. \<exists>r. as_works s ! w = Done r
    \<Longrightarrow> session_close (queueing ad) (as_sync s) = Some (r, sync)
    \<Longrightarrow> aio_act ad s Silent Quiet (s\<lparr>as_sync := sync, as_closing := Closed, as_waiters := [],
          as_futures := fold (complete Withdrawn) (map snd (as_waiters s)) (as_futures s)\<rparr>)"

text \<open>A step of the session, over a transport that may deliver anything, fail, or lose frames.\<close>

definition aio_step :: "('c, 'j, 'h, 'k) aio_ad \<Rightarrow> ('c, 'j, 'h, 'k) aio \<Rightarrow> event \<Rightarrow> ('c, 'j, 'h, 'k) aio \<Rightarrow> bool" where
  "aio_step ad s ev s' = (\<exists>w. aio_act ad s w ev s')"

lemma aio_stepI: "aio_act ad s w ev s' \<Longrightarrow> aio_step ad s ev s'"
  by (auto simp: aio_step_def)

definition aio_init :: "('c, 'j, 'h, 'k) aio_sync \<Rightarrow> ('c, 'j, 'h, 'k) aio" where
  "aio_init sync = \<lparr>as_sync = sync, as_serial = None, as_works = [], as_futures = [], as_waiters = [],
     as_co = (\<lambda>t. if is_driver t then Stopped else Idle), as_closing = Opened, as_network = [], as_seen = 0\<rparr>"

inductive aio_path :: "('c, 'j, 'h, 'k) aio_ad \<Rightarrow> ('c, 'j, 'h, 'k) aio \<Rightarrow> ('c, 'j, 'h, 'k) aio \<Rightarrow> bool" for ad s0 where
  here: "aio_path ad s0 s0"
| step: "aio_path ad s0 s \<Longrightarrow> aio_step ad s ev s' \<Longrightarrow> aio_path ad s0 s'"

end
