(* ===== verification/Async_Cluster.thy ===== *)
theory Async_Cluster
  imports Aio Fabric History
begin

section \<open>\<^verbatim>\<open>AsyncCluster\<close>: several asyncio sessions in one event loop\<close>

text \<open>
  The sessions of \<^verbatim>\<open>Aio\<close>, each with a journal and a history in memory, over the queues they share. A step is
  a step of one member, whose calls on its transport are calls on the queues, or a step of a task that
  runs \<^verbatim>\<open>elect\<close>, \<^verbatim>\<open>append\<close> or \<^verbatim>\<open>__aexit__\<close> between two of its \<^verbatim>\<open>await\<close>s, or a test that changes who is partitioned.
\<close>

subsection \<open>\<^verbatim>\<open>AsyncFabric\<close> and \<^verbatim>\<open>AsyncLoopbackTransport\<close>\<close>

record async_fabric =
  af_queues :: "(node_id \<times> mail) list"
  af_depth :: int
  af_partitioned :: "node_id set"

definition async_fabric_init :: "node_id list \<Rightarrow> int \<Rightarrow> async_fabric" where
  "async_fabric_init members limit =
     \<lparr>af_queues = fold (\<lambda>m. AList.update m []) members [], af_depth = limit, af_partitioned = {}\<rparr>"

text \<open>\<^verbatim>\<open>asyncio.Queue.put_nowait\<close>: a maximal size that is not positive is none.\<close>

datatype queue_error = QueueFull

definition put_nowait :: "int \<Rightarrow> node_id \<times> bytes \<Rightarrow> mail \<Rightarrow> queue_error + mail" where
  "put_nowait maxsize x q = (if 0 < maxsize \<and> maxsize \<le> int (length q) then Inl QueueFull else Inr (q @ [x]))"

definition async_send :: "node_id \<Rightarrow> node_id \<Rightarrow> bytes \<Rightarrow> async_fabric \<Rightarrow> queue_error + async_fabric" where
  "async_send node_id peer frame f =
     (if node_id \<in> af_partitioned f then Inr f
      else case map_of (af_queues f) peer of
             None \<Rightarrow> Inr f
           | Some q \<Rightarrow> (case put_nowait (af_depth f) (node_id, frame) q of
               Inl e \<Rightarrow> Inl e
             | Inr q' \<Rightarrow> Inr (f\<lparr>af_queues := AList.update peer q' (af_queues f)\<rparr>)))"

text \<open>\<^verbatim>\<open>receive\<close> waits, the value \<open>None\<close>, while the queue is empty.\<close>

definition async_receive :: "node_id \<Rightarrow> async_fabric \<Rightarrow> ((node_id \<times> bytes) \<times> async_fabric) option" where
  "async_receive node_id f =
     (case map_of (af_queues f) node_id of
        Some (x # q) \<Rightarrow> Some (x, f\<lparr>af_queues := AList.update node_id q (af_queues f)\<rparr>)
      | _ \<Rightarrow> None)"

subsection \<open>The cluster\<close>

type_synonym ('c, 'k) async_member = "('c, mem_journal, mem_history, 'k) aio"
type_synonym ('c, 'k) async_adapters = "('c, mem_journal, mem_history, 'k) aio_ad"

text \<open>The adapters of every member; the clock is the system's.\<close>

definition async_ad :: "'c core_ops \<Rightarrow> int \<Rightarrow> ('k \<Rightarrow> (exn + rat) \<times> 'k) \<Rightarrow> (rat \<Rightarrow> 'k \<Rightarrow> (exn + unit) \<times> 'k) \<Rightarrow> ('c, 'k) async_adapters" where
  "async_ad core fingerprint now nap = \<lparr>ad_core = core, ad_fingerprint = fingerprint,
     ad_open = (\<lambda>n c j. (Inr (), mj_open n c j)), ad_append = (\<lambda>rs j. (Inr (), mj_append rs j)),
     ad_sync = (\<lambda>j. (Inr (), mj_sync j)), ad_replay = (\<lambda>j. (Inr (mj_replay j), j)),
     ad_close_journal = (\<lambda>j. (Inr (), mj_close j)),
     ad_record = (\<lambda>s p k h. (Inr (), mh_record s p k h)), ad_read = (\<lambda>s n h. (Inr (mh_read s n h), h)),
     ad_cursor = mh_cursor, ad_close_history = (\<lambda>h. (Inr (), mh_close h)),
     ad_send = outbox_send, ad_receive = outbox_receive, ad_close_transport = outbox_close,
     ad_monotonic = now, ad_sleep = nap\<rparr>"

text \<open>A task's call of \<^verbatim>\<open>elect\<close>, or of \<^verbatim>\<open>append\<close> with a value and a timeout, or of \<^verbatim>\<open>__aexit__\<close>, at an \<^verbatim>\<open>await\<close>.\<close>

type_synonym goal = "(bytes \<times> pyfloat) option"

datatype call =
  Free
| Campaigning node_id goal    \<comment> \<open>at \<^verbatim>\<open>await candidate.campaign()\<close>\<close>
| Settling node_id goal       \<comment> \<open>at \<^verbatim>\<open>await asyncio.sleep(0.001)\<close>\<close>
| Appending node_id bytes     \<comment> \<open>at \<^verbatim>\<open>await leader.append(value, timeout=timeout)\<close>\<close>
| Exiting "node_id list"      \<comment> \<open>at \<^verbatim>\<open>await session.close()\<close>, of the first of those left\<close>

record ('c, 'k) async_cluster =
  am_members :: "node_id list"
  am_fabric :: async_fabric
  am_sessions :: "(node_id \<times> ('c, 'k) async_member) list"
  am_calls :: "task \<Rightarrow> call"

datatype call_event = Nothing | Elected task node_id | Appended task receipt | Call_Raised task exn
  | Timed_Out task | Call_Cancelled task | Exited task

fun async_open :: "('c, 'k) async_adapters \<Rightarrow> int \<Rightarrow> session_options \<Rightarrow> pyfloat \<Rightarrow> node_id list \<Rightarrow> 'k \<Rightarrow> node_id list \<Rightarrow> int
    \<Rightarrow> (exn + (node_id \<times> ('c, 'k) async_member) list) \<times> int" where
  "async_open ad conf options tick members clock [] epoch = (Inr [], epoch)"
| "async_open ad conf options tick members clock (m # ms) epoch =
     (case session_init (queueing ad) m members conf mj_new [] mh_new clock tick options epoch of
        (Inl e, j, k, epoch') \<Rightarrow> (Inl e, epoch')
      | (Inr sync, j, k, epoch') \<Rightarrow>
          (case async_open ad conf options tick members k ms epoch' of
             (Inl e, epoch'') \<Rightarrow> (Inl e, epoch'')
           | (Inr ss, epoch'') \<Rightarrow> (Inr ((m, aio_init sync) # ss), epoch'')))"

definition async_cluster_init :: "('c, 'k) async_adapters \<Rightarrow> int \<Rightarrow> int \<Rightarrow> pyfloat \<Rightarrow> session_options \<Rightarrow> 'k \<Rightarrow> int
    \<Rightarrow> (exn + ('c, 'k) async_cluster) \<times> int" where
  "async_cluster_init ad sz conf tick options clock epoch =
     (let members = [1..sz]
      in case async_open ad conf options tick members clock members epoch of
           (Inl e, epoch') \<Rightarrow> (Inl e, epoch')
         | (Inr ss, epoch') \<Rightarrow> (Inr \<lparr>am_members = members, am_fabric = async_fabric_init members 4096,
              am_sessions = ss, am_calls = (\<lambda>_. Free)\<rparr>, epoch'))"

definition set_member :: "node_id \<Rightarrow> ('c, 'k) async_member \<Rightarrow> ('c, 'k) async_cluster \<Rightarrow> ('c, 'k) async_cluster" where
  "set_member m s c = c\<lparr>am_sessions := AList.update m s (am_sessions c)\<rparr>"

definition set_call :: "task \<Rightarrow> call \<Rightarrow> ('c, 'k) async_cluster \<Rightarrow> ('c, 'k) async_cluster" where
  "set_call t x c = c\<lparr>am_calls := (am_calls c)(t := x)\<rparr>"

subsection \<open>Electing and appending\<close>

text \<open>\<^verbatim>\<open>session.is_leader\<close> of a member, which changes nothing.\<close>

definition aio_is_leader :: "('c, 'k) async_adapters \<Rightarrow> ('c, 'k) async_member \<Rightarrow> exn + bool" where
  "aio_is_leader ad s = (case session_is_leader (queueing ad) (as_sync s) of Some (r, _) \<Rightarrow> r | None \<Rightarrow> Inl RuntimeErr)"

fun async_leader :: "('c, 'k) async_adapters \<Rightarrow> (node_id \<times> ('c, 'k) async_member) list \<Rightarrow> exn + node_id option" where
  "async_leader ad [] = Inr None"
| "async_leader ad ((m, s) # ss) =
     bindE (aio_is_leader ad s) (\<lambda>leads. if leads then Inr (Some m) else async_leader ad ss)"

text \<open>A leader is known: \<^verbatim>\<open>elect\<close> returns it, and \<^verbatim>\<open>append\<close> calls its \<^verbatim>\<open>append\<close>, which runs to its first \<^verbatim>\<open>await\<close>.\<close>

definition lead_on :: "task \<Rightarrow> node_id \<Rightarrow> goal \<Rightarrow> ('c, 'k) async_cluster \<Rightarrow> call_event \<times> ('c, 'k) async_cluster" where
  "lead_on t m goal c =
     (case goal of
        None \<Rightarrow> (Elected t m, set_call t Free c)
      | Some (value, timeout) \<Rightarrow>
          (case map_of (am_sessions c) m of
             None \<Rightarrow> (Call_Raised t (KeyErr m), set_call t Free c)
           | Some s \<Rightarrow>
               (case check_timeout timeout of
                  Inl e \<Rightarrow> (Call_Raised t e, set_call t Free c)
                | Inr d \<Rightarrow> (Nothing, set_call t (Appending m value)
                             (set_member m (set_co t (Queued (Job_Append value d)) s) c)))))"

text \<open>\<^verbatim>\<open>node_id or self._members[0]\<close>.\<close>

definition candidate_for :: "node_id option \<Rightarrow> node_id list \<Rightarrow> exn + node_id" where
  "candidate_for node_id members =
     (if node_id = None \<or> node_id = Some 0 then (case members of [] \<Rightarrow> Inl IndexErr | m # _ \<Rightarrow> Inr m)
      else Inr (the node_id))"

text \<open>\<^verbatim>\<open>elect\<close> to its first \<^verbatim>\<open>await\<close>.\<close>

definition call_elect :: "('c, 'k) async_adapters \<Rightarrow> task \<Rightarrow> node_id option \<Rightarrow> goal \<Rightarrow> ('c, 'k) async_cluster
    \<Rightarrow> call_event \<times> ('c, 'k) async_cluster" where
  "call_elect ad t node_id goal c =
     (case async_leader ad (am_sessions c) of
        Inl e \<Rightarrow> (Call_Raised t e, c)
      | Inr (Some m) \<Rightarrow> lead_on t m goal c
      | Inr None \<Rightarrow>
          (case candidate_for node_id (am_members c) of
             Inl e \<Rightarrow> (Call_Raised t e, c)
           | Inr m \<Rightarrow>
               (case map_of (am_sessions c) m of
                  None \<Rightarrow> (Call_Raised t (KeyErr m), c)
                | Some s \<Rightarrow> (Nothing, set_call t (Campaigning m goal) (set_member m (set_co t (Queued Job_Campaign) s) c)))))"

text \<open>The loop of \<^verbatim>\<open>elect\<close>: it ends when the candidate leads, and sleeps otherwise.\<close>

definition settle :: "('c, 'k) async_adapters \<Rightarrow> task \<Rightarrow> node_id \<Rightarrow> goal \<Rightarrow> ('c, 'k) async_cluster
    \<Rightarrow> call_event \<times> ('c, 'k) async_cluster" where
  "settle ad t m goal c =
     (case map_of (am_sessions c) m of
        None \<Rightarrow> (Call_Raised t (KeyErr m), set_call t Free c)
      | Some s \<Rightarrow>
          (case aio_is_leader ad s of
             Inl e \<Rightarrow> (Call_Raised t e, set_call t Free c)
           | Inr leads \<Rightarrow> if leads then lead_on t m goal c else (Nothing, set_call t (Settling m goal) c)))"

text \<open>What becomes of the calls when a member's step ends a task's call on it.\<close>

fun after_event :: "('c, 'k) async_adapters \<Rightarrow> node_id \<Rightarrow> event \<Rightarrow> ('c, 'k) async_cluster \<Rightarrow> call_event \<times> ('c, 'k) async_cluster" where
  "after_event ad m Quiet c = (Nothing, c)"
| "after_event ad m (Returned t r) c =
     (case (am_calls c t, r) of
        (Campaigning m' goal, None) \<Rightarrow> if m' = m then settle ad t m goal c else (Nothing, c)
      | (Appending m' v, Some receipt) \<Rightarrow> if m' = m then (Appended t receipt, set_call t Free c) else (Nothing, c)
      | _ \<Rightarrow> (Nothing, c))"
| "after_event ad m (Raised t e) c =
     (case am_calls c t of
        Campaigning m' goal \<Rightarrow> if m' = m then (Call_Raised t e, set_call t Free c) else (Nothing, c)
      | Appending m' v \<Rightarrow> if m' = m then (Call_Raised t e, set_call t Free c) else (Nothing, c)
      | _ \<Rightarrow> (Nothing, c))"
| "after_event ad m (Cancelled t) c =
     (case am_calls c t of
        Campaigning m' goal \<Rightarrow> if m' = m then (Call_Cancelled t, set_call t Free c) else (Nothing, c)
      | Appending m' v \<Rightarrow> if m' = m then (Call_Cancelled t, set_call t Free c) else (Nothing, c)
      | _ \<Rightarrow> (Nothing, c))"

subsection \<open>Steps\<close>

inductive async_step :: "('c, 'k) async_adapters \<Rightarrow> ('c, 'k) async_cluster \<Rightarrow> call_event \<Rightarrow> ('c, 'k) async_cluster \<Rightarrow> bool" for ad where
  local: "map_of (am_sessions c) m = Some s \<Longrightarrow> aio_act ad s Silent ev s'
    \<Longrightarrow> after_event ad m ev (set_member m s' c) = (out, c') \<Longrightarrow> async_step ad c out c'"
| deliver: "map_of (am_sessions c) m = Some s \<Longrightarrow> async_receive m (am_fabric c) = Some ((sender, frame), f)
    \<Longrightarrow> aio_act ad s (Got frame) ev s'
    \<Longrightarrow> after_event ad m ev (set_member m s' (c\<lparr>am_fabric := f\<rparr>)) = (out, c') \<Longrightarrow> async_step ad c out c'"
| put: "map_of (am_sessions c) m = Some s \<Longrightarrow> aio_act ad s (Put peer frame) ev s'
    \<Longrightarrow> async_send m peer frame (am_fabric c) = Inr f
    \<Longrightarrow> after_event ad m ev (set_member m s' (c\<lparr>am_fabric := f\<rparr>)) = (out, c') \<Longrightarrow> async_step ad c out c'"
| queue_full: "map_of (am_sessions c) m = Some s \<Longrightarrow> aio_act ad s (Put_Failed peer frame) ev s'
    \<Longrightarrow> async_send m peer frame (am_fabric c) = Inl QueueFull
    \<Longrightarrow> after_event ad m ev (set_member m s' c) = (out, c') \<Longrightarrow> async_step ad c out c'"
| call_elect: "am_calls c t = Free \<Longrightarrow> \<not> is_driver t \<Longrightarrow> \<forall>(m, s) \<in> set (am_sessions c). as_co s t = Idle
    \<Longrightarrow> call_elect ad t node_id goal c = (out, c') \<Longrightarrow> async_step ad c out c'"
| settle: "am_calls c t = Settling m goal \<Longrightarrow> \<forall>(m, s) \<in> set (am_sessions c). as_co s t = Idle
    \<Longrightarrow> settle ad t m goal c = (out, c') \<Longrightarrow> async_step ad c out c'"
| timeout: "am_calls c t = Settling m goal \<Longrightarrow> async_step ad c (Timed_Out t) (set_call t Free c)"
| cancel: "am_calls c t = Settling m goal \<or> am_calls c t = Exiting ms
    \<Longrightarrow> async_step ad c (Call_Cancelled t) (set_call t Free c)"
| exit: "am_calls c t = Free \<Longrightarrow> \<not> is_driver t \<Longrightarrow> async_step ad c Nothing (set_call t (Exiting (map fst (am_sessions c))) c)"
| exit_next: "am_calls c t = Exiting (m # ms) \<Longrightarrow> map_of (am_sessions c) m = Some s \<Longrightarrow> as_closing s = Closed
    \<Longrightarrow> async_step ad c Nothing (set_call t (Exiting ms) c)"
| exit_raises: "am_calls c t = Exiting (m # ms) \<Longrightarrow> map_of (am_sessions c) m = Some s \<Longrightarrow> as_closing s = Opened
    \<Longrightarrow> is_driver u \<Longrightarrow> as_co s u = Dead e \<Longrightarrow> aio_act ad s Silent (Raised u e) s'
    \<Longrightarrow> async_step ad c (Call_Raised t e) (set_call t Free (set_member m s' c))"
| exit_done: "am_calls c t = Exiting [] \<Longrightarrow> async_step ad c (Exited t) (set_call t Free c)"
| partition: "async_step ad c Nothing (c\<lparr>am_fabric := (am_fabric c)\<lparr>af_partitioned := ms\<rparr>\<rparr>)"

inductive async_path :: "('c, 'k) async_adapters \<Rightarrow> ('c, 'k) async_cluster \<Rightarrow> ('c, 'k) async_cluster \<Rightarrow> bool" for ad c0 where
  here: "async_path ad c0 c0"
| step: "async_path ad c0 c \<Longrightarrow> async_step ad c out c' \<Longrightarrow> async_path ad c0 c'"

end
