(* ===== verification/Aio_Laws.thy ===== *)
theory Aio_Laws
  imports Aio Method_Laws
begin

section \<open>What an asyncio session guarantees\<close>

subsection \<open>Reads\<close>

lemma reads_keep_node:
  "keeps (\<lambda>s. sn_node s = n) (on_node (node_state ops))"
  "keeps (\<lambda>s. sn_node s = n) (on_node (node_read_decided ops from_slot limit))"
proof -
  have "op_keeps (\<lambda>x. x = n) (node_state ops)" "op_keeps (\<lambda>x. x = n) (node_read_decided ops from_slot limit)"
    by (auto simp: op_keeps_def dest: node_state_same node_read_decided_same)
  from this [THEN on_node_keeps(1)] show "keeps (\<lambda>s. sn_node s = n) (on_node (node_state ops))"
    "keeps (\<lambda>s. sn_node s = n) (on_node (node_read_decided ops from_slot limit))" by blast+
qed

lemmas keeps_combine = keeps_pure keeps_seq keeps_except keeps_if

lemma queries_keep_node:
  "keeps (\<lambda>s. sn_node s = n) (last_committed ad)" "keeps (\<lambda>s. sn_node s = n) (session_state ad)"
  unfolding last_committed_def session_state_def by (intro keeps_combine reads_keep_node)+

lemma entry_at_keeps_node: "keeps (\<lambda>s. sn_node s = n) (entry_at ad slot)"
proof -
  have h: "keeps (\<lambda>s. sn_node s = n) (on_history (ad_read ad slot 1))" by (rule other_object_keeps(2))
  show ?thesis unfolding entry_at_def
    by (intro keeps_seq h) (auto split: option.splits intro!: keeps_combine reads_keep_node)
qed

lemma append_queries_keep_node:
  "keeps (\<lambda>s. sn_node s = n) (aio_admitted ad v b)" "keeps (\<lambda>s. sn_node s = n) (aio_receipt ad v slot)"
proof -
  show "keeps (\<lambda>s. sn_node s = n) (aio_admitted ad v b)"
    unfolding aio_admitted_def by (intro keeps_combine queries_keep_node)
  have "keeps (\<lambda>s. sn_node s = n) (session_getitem ad slot)"
    unfolding session_getitem_def
    by (intro keeps_seq keeps_if keeps_pure(1) entry_at_keeps_node) (auto split: option.splits intro!: keeps_pure)
  then show "keeps (\<lambda>s. sn_node s = n) (aio_receipt ad v slot)"
    unfolding aio_receipt_def Let_def by (intro keeps_combine queries_keep_node)
qed

lemma same_node: "keeps (\<lambda>x. sn_node x = sn_node s) m \<Longrightarrow> m s = Some (r, s') \<Longrightarrow> sn_node s' = sn_node s"
  by (drule (1) keepsD) simp_all

text \<open>What the last part of \<^verbatim>\<open>_run\<close> and \<^verbatim>\<open>append\<close> leave alone.\<close>

definition calm :: "('c, 'j, 'h, 'k) aio \<Rightarrow> ('c, 'j, 'h, 'k) aio \<Rightarrow> bool" where
  "calm s s' = (sn_node (as_sync s') = sn_node (as_sync s) \<and> as_works s' = as_works s \<and> as_closing s' = as_closing s)"

lemma calm_trans: "calm s s1 \<Longrightarrow> calm s1 s2 \<Longrightarrow> calm s s2" by (simp add: calm_def)

lemmas aio_simps = set_co_def release_def settle_waiters_def

lemma fail_task_calm: "fail_task t e s = (ev, s') \<Longrightarrow> calm s s'"
  by (auto simp: fail_task_def calm_def aio_simps)

lemma finish_append_calm: "finish_append ad t v slot s = Some (ev, s') \<Longrightarrow> calm s s'"
  using same_node [OF append_queries_keep_node(2)]
  by (fastforce simp: finish_append_def calm_def set_co_def fail_task_def release_def split: option.splits prod.splits sum.splits)

lemma after_run_calm: "after_run ad t job b s = Some (ev, s') \<Longrightarrow> calm s s'"
proof (cases job)
  case (Job_Append v d)
  assume *: "after_run ad t job b s = Some (ev, s')"
  then obtain r sync where a: "aio_admitted (queueing ad) v b (as_sync s) = Some (r, sync)"
    using Job_Append by (auto split: option.splits)
  have n: "sn_node sync = sn_node (as_sync s)" by (rule same_node [OF append_queries_keep_node(1) a])
  show "calm s s'"
  proof (cases r)
    case (Inl e)
    then show ?thesis using * a n Job_Append by (auto simp: fail_task_def calm_def aio_simps)
  next
    case (Inr ok)
    then show ?thesis
      using * a n Job_Append finish_append_calm [of ad t v "pb_assigned_slot b" _ ev s']
      by (cases ok) (auto simp: calm_def aio_simps wait_for_slot_def split: option.splits)
  qed
qed (auto simp: calm_def set_co_def)

lemma flush_on_calm:
  assumes "flush_on ad t job b s = Some (ev, s')"
  shows "calm s s'"
proof (cases "sn_transport (as_sync s)")
  case (Cons pf rest)
  then show ?thesis using assms by (auto simp: flush_on_def calm_def aio_simps)
next
  case Nil
  then obtain r sync where l: "last_committed (queueing ad) (as_sync s) = Some (r, sync)"
    using assms by (auto simp: flush_on_def split: option.splits)
  have n: "sn_node sync = sn_node (as_sync s)" by (rule same_node [OF queries_keep_node(1) l])
  show ?thesis
  proof (cases r)
    case (Inl e)
    then show ?thesis using assms Nil l n by (auto simp: flush_on_def fail_task_def calm_def aio_simps)
  next
    case (Inr released)
    then have "calm (release t (settle_waiters released (s\<lparr>as_sync := sync\<rparr>))) s'"
      using assms Nil l by (auto simp: flush_on_def intro: after_run_calm)
    then show ?thesis using n by (auto simp: calm_def aio_simps split: if_splits)
  qed
qed

subsection \<open>One discharge at a time\<close>

lemma job_is_begin: "job_begin ops job n = (Inr b, n') \<Longrightarrow> \<exists>t. node_begin ops t n = (Inr b, n')"
  by (cases job) (auto simp: node_step_def node_propose_def node_tick_def node_campaign_def with_arg_def split: sum.splits)

lemma job_keeps: "op_keeps (node_ok ops) (job_begin ops job)"
  by (cases job) (simp_all add: node_methods_keep)

lemma job_refused_same: "job_begin ops job n = (Inl e, n') \<Longrightarrow> n' = n"
  by (cases job) (auto simp: node_step_def node_propose_def node_tick_def node_campaign_def with_arg_def
      split: sum.splits dest: refused_same)

lemma session_close_handle:
  assumes "session_close ad s = Some (r, s')"
  shows "nd_handle (sn_node s') = None"
proof -
  let ?P = "\<lambda>n. nd_handle n = None"
  let ?rest = "finally_do (on_journal (ad_close_journal ad))
         (finally_do (on_transport (ad_close_transport ad)) (on_history (ad_close_history ad)))"
  let ?first = "seq (on_node node_close_op) (\<lambda>_. ret ())"
  obtain r1 s1 r2 where first: "?first s = Some (r1, s1)" and "?rest s1 = Some (r2, s')"
    using assms unfolding session_close_def finally_Some_iff [of ?first] by blast
  moreover have "nd_handle (sn_node s1) = None"
    using first by (auto simp: seq_Some_iff on_node_Some ret_def node_close_op_def split: option.splits)
  moreover have "keeps (\<lambda>s. ?P (sn_node s)) ?rest"
    by (intro keeps_finally other_object_keeps(1-4) [of ?P])
  ultimately show ?thesis by (auto dest: keepsD)
qed

definition works_inv :: "('c, 'j, 'h, 'k) aio_ad \<Rightarrow> ('c, 'j, 'h, 'k) aio \<Rightarrow> bool" where
  "works_inv ad s =
     (session_ok (ad_core ad) (as_sync s)
      \<and> (\<forall>w w' b b'. w < length (as_works s) \<and> w' < length (as_works s) \<and> as_works s ! w = Discharging b
            \<and> as_works s ! w' = Discharging b' \<longrightarrow> w = w')
      \<and> (\<forall>w b. w < length (as_works s) \<and> as_works s ! w = Discharging b \<longrightarrow> batch_is_open (sn_node (as_sync s))))"

lemma works_inv_calm: "calm s s' \<Longrightarrow> works_inv ad s \<Longrightarrow> works_inv ad s'"
  by (simp add: calm_def works_inv_def)

lemma works_inv_frame [simp]:
  "works_inv ad (s\<lparr>as_co := c\<rparr>) = works_inv ad s" "works_inv ad (s\<lparr>as_serial := l\<rparr>) = works_inv ad s"
  "works_inv ad (s\<lparr>as_futures := f\<rparr>) = works_inv ad s" "works_inv ad (s\<lparr>as_waiters := ws\<rparr>) = works_inv ad s"
  "works_inv ad (s\<lparr>as_closing := cl\<rparr>) = works_inv ad s" "works_inv ad (s\<lparr>as_network := nw\<rparr>) = works_inv ad s"
  by (simp_all add: works_inv_def)

lemmas works_inv_parts = works_inv_calm [OF flush_on_calm] works_inv_calm [OF finish_append_calm] works_inv_calm [OF fail_task_calm]

lemma discharge_parts_keep:
  "keeps (session_ok (ad_core ad)) (discharge_main ad b)" "keeps (session_ok (ad_core ad)) (discharge_floor ad)"
  unfolding discharge_main_def discharge_floor_def discharge_body_def
  by (intro keeps_intros node_keeps)+

text \<open>Advancing the floor leaves the batch as it is.\<close>

lemma floor_keeps_open: "keeps (\<lambda>s. batch_is_open (sn_node s)) (discharge_floor ad)"
proof -
  have "op_keeps batch_is_open (node_advance_memory_floor ops through)" for ops :: "'a core_ops" and through
    by (auto simp: op_keeps_def node_advance_memory_floor_def batch_is_open_def guarded_def no_value_def
        bridge_advance_floor_def split: if_splits option.splits prod.splits)
  then show ?thesis unfolding discharge_floor_def by (intro keeps_intros)
qed

lemma works_inv_act:
  assumes "aio_act ad s net ev s'" and "works_inv ad s"
  shows "works_inv ad s'"
  using assms
proof (cases rule: aio_act.cases)
  case (transition t job b n)
  obtain tr where "node_begin (ad_core ad) tr (sn_node (as_sync s)) = (Inr b, n)" using job_is_begin [OF transition(6)] by blast
  note o = begun_is_open [OF this]
  have "node_ok (ad_core ad) n" using op_keepsD [OF job_keeps transition(6)] assms(2) by (simp add: works_inv_def)
  then show ?thesis using assms(2) o transition(3)
    by (auto simp: works_inv_def set_co_def nth_append less_Suc_eq)
next
  case (refused t job e n)
  have "node_ok (ad_core ad) n" using op_keepsD [OF job_keeps refused(4)] assms(2) by (simp add: works_inv_def)
  moreover have "n = sn_node (as_sync s)" by (rule job_refused_same [OF refused(4)])
  ultimately have "works_inv ad (s\<lparr>as_sync := (as_sync s)\<lparr>sn_node := n\<rparr>\<rparr>)"
    using assms(2) by (auto simp: works_inv_def)
  then show ?thesis by (rule works_inv_calm [OF fail_task_calm [OF refused(5)]])
next
  case (worker w b r sync)
  have "session_ok (ad_core ad) sync"
    using keepsD [OF discharge_parts_keep(1) [of "queueing ad" b]] worker(6) assms(2) by (auto simp: works_inv_def)
  then show ?thesis using assms(2) worker(3-5)
    by (auto simp: works_inv_def nth_list_update split: sum.splits if_splits)
next
  case (worker_floor w r sync)
  have "session_ok (ad_core ad) sync"
    using keepsD [OF discharge_parts_keep(2) [of "queueing ad"]] worker_floor(6) assms(2) by (auto simp: works_inv_def)
  moreover have "batch_is_open (sn_node sync)" if "batch_is_open (sn_node (as_sync s))"
    using keepsD [OF floor_keeps_open worker_floor(6)] that .
  ultimately show ?thesis using assms(2) worker_floor(3-5)
    by (auto simp: works_inv_def nth_list_update split: if_splits)
next
  case (close_finish ws r sync)
  have "session_ok (ad_core ad) sync"
    using keepsD [OF session_close_keeps [of "queueing ad"]] close_finish(6) assms(2) by (auto simp: works_inv_def)
  then show ?thesis using assms(2) close_finish(3) session_close_handle [OF close_finish(6)]
    by (auto simp: works_inv_def batch_is_open_def)
qed (auto dest: works_inv_parts simp: aio_simps split: if_splits)

lemma works_inv_step:
  assumes "aio_step ad s ev s'" and "works_inv ad s"
  shows "works_inv ad s'"
  using assms works_inv_act unfolding aio_step_def by blast

lemma works_inv_path:
  assumes "aio_path ad s0 s" and "works_inv ad s0"
  shows "works_inv ad s"
  using assms by (induction rule: aio_path.induct) (auto intro: works_inv_step)

lemma works_inv_init: "session_ok (ad_core ad) sync \<Longrightarrow> works_inv ad (aio_init sync)"
  by (simp add: works_inv_def aio_init_def)


subsection \<open>A dead driver is final\<close>

text \<open>What a driver that has died keeps: the session is not closed, and \<^verbatim>\<open>start\<close> does not restart it.\<close>

definition driver_dead :: "task \<Rightarrow> ('c, 'j, 'h, 'k) aio \<Rightarrow> bool" where
  "driver_dead t s = (as_closing s = Opened \<and> (\<exists>e. as_co s t = Dead e))"

lemma finish_append_co:
  "finish_append ad t v slot s = Some (ev, s') \<Longrightarrow> u \<noteq> t \<Longrightarrow> as_co s' u = as_co s u"
  by (auto simp: finish_append_def fail_task_def aio_simps split: option.splits prod.splits sum.splits if_splits)

lemma after_run_co:
  "after_run ad t job b s = Some (ev, s') \<Longrightarrow> u \<noteq> t \<Longrightarrow> as_co s' u = as_co s u"
  by (cases job) (auto simp: fail_task_def aio_simps wait_for_slot_def dest: finish_append_co
      split: option.splits prod.splits sum.splits if_splits bool.splits)

lemma flush_on_co:
  "flush_on ad t job b s = Some (ev, s') \<Longrightarrow> u \<noteq> t \<Longrightarrow> as_co s' u = as_co s u"
  by (auto simp: flush_on_def fail_task_def aio_simps dest: after_run_co
      split: option.splits prod.splits sum.splits list.splits if_splits)

lemma fail_task_co: "fail_task t e s = (ev, s') \<Longrightarrow> u \<noteq> t \<Longrightarrow> as_co s' u = as_co s u"
  by (auto simp: fail_task_def aio_simps)

lemma driver_dead_frame:
  assumes "calm s s'" and "\<And>v. v \<noteq> t \<Longrightarrow> as_co s' v = as_co s v" and "\<forall>e. as_co s t \<noteq> Dead e" and "driver_dead u s"
  shows "driver_dead u s'"
proof -
  have "u \<noteq> t" using assms(3,4) by (auto simp: driver_dead_def)
  then show ?thesis using assms(1,4) assms(2) [of u] by (simp add: driver_dead_def calm_def)
qed

lemma driver_dead_parts:
  "flush_on ad t job b s = Some (ev, s') \<Longrightarrow> \<forall>e. as_co s t \<noteq> Dead e \<Longrightarrow> driver_dead u s \<Longrightarrow> driver_dead u s'"
  "finish_append ad t v slot s = Some (ev, s') \<Longrightarrow> \<forall>e. as_co s t \<noteq> Dead e \<Longrightarrow> driver_dead u s \<Longrightarrow> driver_dead u s'"
  "fail_task t e s = (ev, s') \<Longrightarrow> \<forall>e. as_co s t \<noteq> Dead e \<Longrightarrow> driver_dead u s \<Longrightarrow> driver_dead u s'"
  using driver_dead_frame [where t = t] flush_on_calm flush_on_co finish_append_calm finish_append_co
    fail_task_calm fail_task_co by metis+

lemma driver_dead_act:
  assumes "aio_act ad s net ev s'" and "driver_dead u s" and "is_driver u"
  shows "driver_dead u s'"
proof -
  obtain e where d: "as_co s u = Dead e" "as_closing s = Opened" using assms(2) by (auto simp: driver_dead_def)
  have u: "u = 0 \<or> u = Suc 0" using assms(3) by auto
  show ?thesis
    using assms(1)
  proof (cases rule: aio_act.cases)
    case (sent t job b pf)
    from driver_dead_parts(1) [OF sent(3), of u] sent(2) assms(2) show ?thesis by (simp add: driver_dead_def)
  next
    case (refused t job e n)
    from driver_dead_parts(3) [OF refused(5), of u] refused(2) assms(2) show ?thesis by (simp add: driver_dead_def)
  next
    case (close_raises t e' c)
    have "u = t \<or> u = 1 - t" using assms(3) close_raises(5) by auto
    then show ?thesis using close_raises d assms(3) by (auto simp: driver_dead_def aio_simps)
  qed (use d u in \<open>auto simp: driver_dead_def aio_simps dest!: driver_dead_parts [OF _ _ assms(2)]\<close>)
qed

lemma driver_dead_step:
  assumes "aio_step ad s ev s'" and "driver_dead u s" and "is_driver u"
  shows "driver_dead u s'"
  using assms driver_dead_act unfolding aio_step_def by blast

lemma driver_dead_path:
  "aio_path ad s s' \<Longrightarrow> driver_dead u s \<Longrightarrow> is_driver u \<Longrightarrow> driver_dead u s'"
  by (induction rule: aio_path.induct) (auto intro: driver_dead_step)

text \<open>A transition that has begun refuses the next one until it is finished.\<close>

lemma begun_blocks:
  assumes "node_begin ops t n0 = (Inr b, n)" and "transition_status t' = OK"
  shows "node_begin ops t' n = (Inl (err BatchPending []), n)"
proof -
  obtain h0 where h0: "nd_handle n0 = Some h0"
    using assms(1) by (auto simp: node_begin_def guarded_def split: if_splits option.splits)
  obtain h where h: "\<not> nd_forked n0" "n = n0\<lparr>nd_handle := Some h\<rparr>"
    "begin_transition ops t h0 = (OK, Some (pb_token b, pb_report b), h)"
    using node_begin_cases [OF assms(1) h0] by auto
  have "\<not> hd_replaying h0" using h(3) by (auto simp: begin_transition_def batch_open_def split: if_splits)
  moreover from begin_cases [OF h(3)] obtain g c ef v bt where b: "enter h0 = OK"
    "h = h0\<lparr>hd_generation := g, hd_core := c, hd_effects := ef, hd_violated := v, hd_batch := bt\<rparr>"
    "bt_phase bt = (if ef_writes ef = [] then BP_CONFIRMED else BP_PENDING)" by blast
  moreover have "enter h = enter h0" by (simp add: b(2) enter_def)
  ultimately have "enter h = OK" "\<not> hd_replaying h" "bt_phase (hd_batch h) \<in> {BP_PENDING, BP_CONFIRMED}"
    by auto
  then have "begin_transition ops t' h = (E_BATCH_PENDING, None, h)"
    using assms(2) by (auto simp: begin_transition_def batch_open_def)
  then show ?thesis using h(1,2) by (simp add: node_begin_def guarded_def)
qed

lemma aio_path_trans: "aio_path ad s1 s2 \<Longrightarrow> aio_path ad s0 s1 \<Longrightarrow> aio_path ad s0 s2"
  by (induction rule: aio_path.induct) (auto intro: aio_path.intros)

lemma path_step: "aio_step ad s ev s' \<Longrightarrow> aio_path ad s s'"
  by (rule aio_path.step [OF aio_path.here])


text \<open>C20: One malformed frame stops a session. If what the transport receives does not decode, the exception ends
  the receiver; no later step of any task starts it again, and \<^verbatim>\<open>close\<close> never closes the node, the
  journal, the transport or the history, because it raises the receiver's exception.\<close>

theorem malformed_frame_stops_session:
  assumes "as_closing s = Opened" and "as_co s 0 = Idle" and "decode (ad_fingerprint ad) bytes = Inl e"
  shows "\<exists>s1. aio_step ad s (Raised 0 e) s1
    \<and> (\<forall>s2. aio_path ad s1 s2 \<longrightarrow> as_closing s2 = Opened \<and> (\<exists>e. as_co s2 0 = Dead e))"
proof -
  define s1 where "s1 = snd (fail_task 0 e s)"
  have 1: "aio_step ad s (Raised 0 e) s1"
    by (rule aio_stepI [OF bad_frame [OF assms(2,3)]]) (simp add: s1_def fail_task_def)
  have "driver_dead 0 s1" using assms(1) by (simp add: s1_def driver_dead_def fail_task_def aio_simps)
  with 1 show ?thesis using driver_dead_path [of ad s1 _ 0] by (fastforce simp: driver_dead_def)
qed

subsection \<open>Waiters and receipts\<close>

lemma complete_length [simp]: "length (complete f i fs) = length fs"
  by (simp add: complete_def)

lemma complete_nth:
  "j < length fs \<Longrightarrow> complete f i fs ! j = (if i = j \<and> fs ! j = Pending then f else fs ! j)"
  by (auto simp: complete_def nth_list_update)

lemma complete_all:
  "length (fold (complete f) is fs) = length fs"
  "j < length fs \<Longrightarrow> f \<noteq> Pending \<Longrightarrow>
     fold (complete f) is fs ! j = (if j \<in> set is \<and> fs ! j = Pending then f else fs ! j)"
  by (induction "is" arbitrary: fs) (auto simp: complete_nth)

text \<open>A future in the dict is not resolved and belongs to one slot, the slot of every task that waits on it;
  and a task's future is resolved only if its slot has been seen released.\<close>

definition future_of :: "('c, 'j, 'h, 'k) aio \<Rightarrow> slot \<Rightarrow> nat \<Rightarrow> bool" where
  "future_of s sl i = (i < length (as_futures s) \<and> (\<forall>sl'. (sl', i) \<in> set (as_waiters s) \<longrightarrow> sl' = sl)
     \<and> (as_futures s ! i = Resolved \<longrightarrow> sl \<le> as_seen s))"

definition waiters_inv :: "('c, 'j, 'h, 'k) aio \<Rightarrow> bool" where
  "waiters_inv s =
     ((\<forall>sl i. (sl, i) \<in> set (as_waiters s) \<longrightarrow> future_of s sl i \<and> as_futures s ! i \<noteq> Resolved)
      \<and> (\<forall>t v sl d i. as_co s t = Waiting v sl d i \<longrightarrow> future_of s sl i))"

lemma waiters_inv_frame [simp]:
  "waiters_inv (s\<lparr>as_sync := y\<rparr>) = waiters_inv s" "waiters_inv (s\<lparr>as_serial := l\<rparr>) = waiters_inv s"
  "waiters_inv (s\<lparr>as_works := ws\<rparr>) = waiters_inv s" "waiters_inv (s\<lparr>as_closing := cl\<rparr>) = waiters_inv s"
  "waiters_inv (s\<lparr>as_network := nw\<rparr>) = waiters_inv s"
  by (simp_all add: waiters_inv_def future_of_def)

lemma future_of_co [simp]: "future_of (s\<lparr>as_co := co\<rparr>) = future_of s"
  by (rule ext)+ (simp add: future_of_def)

lemma waiters_inv_co:
  assumes "waiters_inv s" and "\<And>u v sl d i. co u = Waiting v sl d i \<Longrightarrow> as_co s u = Waiting v sl d i"
  shows "waiters_inv (s\<lparr>as_co := co\<rparr>)"
  using assms unfolding waiters_inv_def by simp blast

lemma waiters_inv_set_co:
  "waiters_inv s \<Longrightarrow> \<forall>v sl d i. c \<noteq> Waiting v sl d i \<Longrightarrow> waiters_inv (set_co t c s)"
  unfolding set_co_def by (erule waiters_inv_co) (auto split: if_splits)

lemma waiters_inv_release [simp]: "waiters_inv (release t s) = waiters_inv s"
  by (simp add: release_def)

text \<open>Futures that are withdrawn, or resolved for a slot that is released and no longer in the dict.\<close>

lemma waiters_inv_futures:
  assumes inv: "waiters_inv s" and ws: "set ws \<subseteq> set (as_waiters s)" and len: "length fs = length (as_futures s)"
    and seen: "as_seen s \<le> seen"
    and fs: "\<And>i. i < length fs \<Longrightarrow> fs ! i = Resolved \<Longrightarrow> as_futures s ! i = Resolved
        \<or> (\<exists>sl. (sl, i) \<in> set (as_waiters s) \<and> sl \<le> seen \<and> (sl, i) \<notin> set ws)"
  shows "waiters_inv (s\<lparr>as_futures := fs, as_waiters := ws, as_seen := seen\<rparr>)"
proof -
  let ?s' = "s\<lparr>as_futures := fs, as_waiters := ws, as_seen := seen\<rparr>"
  have entry: "future_of s sl i" "as_futures s ! i \<noteq> Resolved" if "(sl, i) \<in> set (as_waiters s)" for sl i
    using inv that by (auto simp: waiters_inv_def)
  have f: "future_of ?s' sl i" if "future_of s sl i" for sl i
    using that fs [of i] ws seen len by (auto simp: future_of_def)
  moreover have "fs ! i \<noteq> Resolved" if i: "(sl, i) \<in> set ws" for sl i
  proof
    assume "fs ! i = Resolved"
    have m: "(sl, i) \<in> set (as_waiters s)" using i ws by blast
    have "i < length fs" using entry(1) [OF m] len by (simp add: future_of_def)
    from fs [OF this \<open>fs ! i = Resolved\<close>] entry(2) [OF m] obtain sl' where
      "(sl', i) \<in> set (as_waiters s)" "(sl', i) \<notin> set ws" by blast
    moreover from this have "sl' = sl" using entry(1) [OF m] by (auto simp: future_of_def)
    ultimately show False using i by blast
  qed
  ultimately show ?thesis using inv ws unfolding waiters_inv_def by auto
qed

lemma waiters_inv_withdraw:
  assumes "waiters_inv s" and "set ws \<subseteq> set (as_waiters s)"
  shows "waiters_inv (s\<lparr>as_futures := fold (complete Withdrawn) is (as_futures s), as_waiters := ws\<rparr>)"
proof -
  let ?fs = "fold (complete Withdrawn) is (as_futures s)"
  have "as_futures s ! i = Resolved" if "i < length ?fs" "?fs ! i = Resolved" for i
    using that by (simp add: complete_all split: if_splits)
  then show ?thesis using waiters_inv_futures [OF assms, of ?fs "as_seen s"] by (simp add: complete_all(1))
qed

lemma waiters_inv_seen: "waiters_inv s \<Longrightarrow> as_seen s \<le> seen \<Longrightarrow> waiters_inv (s\<lparr>as_seen := seen\<rparr>)"
  using waiters_inv_futures [of s "as_waiters s" "as_futures s" seen] by simp

lemma waiters_inv_settle:
  assumes "waiters_inv s"
  shows "waiters_inv (settle_waiters released s)"
proof -
  let ?is = "map snd (filter (\<lambda>(slot, _). slot \<le> released) (as_waiters s))"
  have m: "i \<in> set ?is \<longleftrightarrow> (\<exists>sl. (sl, i) \<in> set (as_waiters s) \<and> sl \<le> released)" for i by force
  show ?thesis
    unfolding settle_waiters_def using assms
    by (intro waiters_inv_futures) (auto simp: complete_all m le_max_iff_disj split: if_splits)
qed

lemma waiters_inv_wait:
  assumes inv: "waiters_inv s"
  shows "waiters_inv (wait_for_slot t v d slot s)"
proof (cases "map_of (as_waiters s) slot")
  case None
  let ?n = "length (as_futures s)"
  let ?s1 = "s\<lparr>as_waiters := as_waiters s @ [(slot, ?n)], as_futures := as_futures s @ [Pending]\<rparr>"
  have old: "future_of ?s1 sl i" "i < ?n" if "future_of s sl i" for sl i
    using that by (auto simp: future_of_def nth_append)
  have fresh: "(sl, ?n) \<notin> set (as_waiters s)" for sl using inv by (auto simp: waiters_inv_def future_of_def)
  have new: "future_of ?s1 slot ?n" using fresh by (auto simp: future_of_def)
  have s: "wait_for_slot t v d slot s = set_co t (Waiting v slot d ?n) ?s1"
    using None by (simp add: wait_for_slot_def)
  have 1: "future_of ?s1 sl i \<and> (as_futures s @ [Pending]) ! i \<noteq> Resolved"
    if "(sl, i) \<in> set (as_waiters s) \<or> sl = slot \<and> i = ?n" for sl i
    using that
  proof
    assume "(sl, i) \<in> set (as_waiters s)"
    then have "future_of s sl i" "as_futures s ! i \<noteq> Resolved" using inv by (auto simp: waiters_inv_def)
    then show ?thesis using old by (simp add: nth_append)
  qed (use new in simp)
  have 2: "future_of ?s1 sl i" if "((as_co s)(t := Waiting v slot d ?n)) u = Waiting v' sl d' i" for u v' sl d' i
    using that new old(1) inv unfolding waiters_inv_def by (auto split: if_splits)
  show ?thesis unfolding s set_co_def waiters_inv_def future_of_co using 1 2 by auto
next
  case (Some i)
  then have "future_of s slot i" using inv map_of_SomeD [OF Some] by (auto simp: waiters_inv_def)
  then show ?thesis using inv Some by (auto simp: waiters_inv_def wait_for_slot_def set_co_def)
qed

lemma waiters_inv_fail: "fail_task t e s = (ev, s') \<Longrightarrow> waiters_inv s \<Longrightarrow> waiters_inv s'"
  by (auto simp: fail_task_def intro!: waiters_inv_set_co)

text \<open>The truth of a receipt.\<close>

lemma aio_receipt_Inr:
  assumes "aio_receipt ad value slot s = Some (Inr r, s')"
  shows "rc_slot r = slot \<and> 1 \<le> slot \<and> le_kind (rc_entry r) = EK_COMMAND \<and> receipt_value r = value
    \<and> (\<exists>s1 s2. entry_at ad slot s1 = Some (Inr (Some (rc_entry r)), s2))"
  using assms unfolding aio_receipt_def session_getitem_def Let_def
  by (auto simp: seq_Some_iff ret_def raise_def receipt_value_def split: if_splits option.splits) blast

definition true_receipt :: "('c, 'j, 'h, 'k) aio_ad \<Rightarrow> task \<Rightarrow> bytes \<Rightarrow> event \<Rightarrow> slot \<Rightarrow> bool" where
  "true_receipt ad t value ev seen = (\<forall>u r. ev = Returned u (Some r) \<longrightarrow> u = t
     \<and> le_kind (rc_entry r) = EK_COMMAND \<and> receipt_value r = value \<and> 1 \<le> rc_slot r \<and> rc_slot r \<le> seen
     \<and> (\<exists>s1 s2. entry_at (queueing ad) (rc_slot r) s1 = Some (Inr (Some (rc_entry r)), s2)))"

lemma waiters_inv_finish:
  assumes "finish_append ad t v slot s = Some (ev, s')" and "waiters_inv s" and "slot \<le> as_seen s"
  shows "waiters_inv s' \<and> true_receipt ad t v ev (as_seen s')"
  using assms aio_receipt_Inr [of "queueing ad" v slot "as_sync s"]
  by (auto simp: finish_append_def fail_task_def true_receipt_def aio_simps intro!: waiters_inv_co
      split: option.splits prod.splits sum.splits if_splits)

fun submitted :: "job \<Rightarrow> bytes" where
  "submitted (Job_Append v d) = v"
| "submitted _ = []"

lemma waiters_inv_after_run:
  assumes "after_run ad t job b s = Some (ev, s')" and "waiters_inv s"
  shows "waiters_inv s' \<and> true_receipt ad t (submitted job) ev (as_seen s')"
proof (cases job)
  case (Job_Append v d)
  obtain r sync where a: "aio_admitted (queueing ad) v b (as_sync s) = Some (r, sync)"
    using assms(1) Job_Append by (auto split: option.splits)
  consider e where "r = Inl e" | "r = Inr False" | "r = Inr True" by (cases r) auto
  then show ?thesis
  proof cases
    case 3
    let ?s1 = "s\<lparr>as_sync := sync, as_seen := max (as_seen s) (pb_assigned_slot b)\<rparr>"
    have "waiters_inv ?s1" using waiters_inv_seen [of "s\<lparr>as_sync := sync\<rparr>"] assms(2) by simp
    moreover have "finish_append ad t v (pb_assigned_slot b) ?s1 = Some (ev, s')"
      using assms(1) Job_Append a 3 by simp
    ultimately show ?thesis using waiters_inv_finish [of ad t v "pb_assigned_slot b" ?s1 ev s'] Job_Append by simp
  qed (use assms Job_Append a in \<open>auto simp: true_receipt_def fail_task_def intro!: waiters_inv_wait waiters_inv_set_co\<close>)
qed (use assms in \<open>auto simp: true_receipt_def intro!: waiters_inv_set_co\<close>)

lemma waiters_inv_flush:
  assumes "flush_on ad t job b s = Some (ev, s')" and "waiters_inv s"
  shows "waiters_inv s' \<and> true_receipt ad t (submitted job) ev (as_seen s')"
proof (cases "sn_transport (as_sync s)")
  case (Cons pf rest)
  then show ?thesis using assms by (auto simp: flush_on_def true_receipt_def intro!: waiters_inv_set_co)
next
  case Nil
  then obtain r sync where l: "last_committed (queueing ad) (as_sync s) = Some (r, sync)"
    using assms(1) by (auto simp: flush_on_def split: option.splits)
  show ?thesis
  proof (cases r)
    case (Inl e)
    then show ?thesis using assms Nil l
      by (auto simp: flush_on_def fail_task_def true_receipt_def intro!: waiters_inv_set_co)
  next
    case (Inr released)
    then have "after_run ad t job b (release t (settle_waiters released (s\<lparr>as_sync := sync\<rparr>))) = Some (ev, s')"
      using assms(1) Nil l by (simp add: flush_on_def)
    from waiters_inv_after_run [OF this] show ?thesis
      using waiters_inv_settle [of "s\<lparr>as_sync := sync\<rparr>" released] assms(2) by simp
  qed
qed

text \<open>The value a task is appending.\<close>

fun value_of :: "coroutine \<Rightarrow> bytes" where
  "value_of (Queued job) = submitted job"
| "value_of (Shielded job b w) = submitted job"
| "value_of (Flushing job b pf) = submitted job"
| "value_of (Waiting v slot d i) = v"
| "value_of _ = []"

lemma waiters_inv_act:
  assumes "aio_act ad s net ev s'" and "waiters_inv s"
  shows "waiters_inv s' \<and> (\<forall>t. (\<exists>r. ev = Returned t (Some r)) \<longrightarrow> true_receipt ad t (value_of (as_co s t)) ev (as_seen s'))"
proof -
  note quiet = waiters_inv_set_co waiters_inv_fail waiters_inv_withdraw
  note flush = waiters_inv_flush [unfolded true_receipt_def]
  show ?thesis
    using assms(1)
  proof (cases rule: aio_act.cases)
    case (discharged t job b w)
    from waiters_inv_flush [OF this(5) assms(2)] discharged(2) show ?thesis by (auto simp: true_receipt_def)
  next
    case (sent t job b pf)
    from waiters_inv_flush [OF this(3)] sent(2) assms(2) show ?thesis by (auto simp: true_receipt_def)
  next
    case (send_failed t job b pf)
    from waiters_inv_flush [OF this(3) assms(2)] send_failed(2) show ?thesis by (auto simp: true_receipt_def)
  next
    case (woken t v slot d i)
    then have "slot \<le> as_seen s" using assms(2) by (auto simp: waiters_inv_def future_of_def)
    from waiters_inv_finish [OF woken(5) assms(2) this] woken(2) show ?thesis by (auto simp: true_receipt_def)
  next
    case (transition t job b n)
    then show ?thesis using assms(2) by (auto intro!: waiters_inv_set_co)
  next
    case (expired t v slot d i)
    have "waiters_inv (s\<lparr>as_futures := fold (complete Withdrawn) [i] (as_futures s),
            as_waiters := filter (\<lambda>(k, _). k \<noteq> slot) (as_waiters s)\<rparr>)"
      by (rule waiters_inv_withdraw [OF assms(2)]) auto
    then show ?thesis using expired by (auto intro!: waiters_inv_set_co)
  next
    case (cancelled_wait t v slot d i)
    have "waiters_inv (s\<lparr>as_futures := fold (complete Withdrawn) [i] (as_futures s), as_waiters := as_waiters s\<rparr>)"
      by (rule waiters_inv_withdraw [OF assms(2)]) simp
    then show ?thesis using cancelled_wait by (auto intro!: waiters_inv_set_co)
  next
    case (close_finish ws r sync)
    let ?s1 = "s\<lparr>as_futures := fold (complete Withdrawn) (map snd (as_waiters s)) (as_futures s), as_waiters := []\<rparr>"
    have "waiters_inv ?s1" by (rule waiters_inv_withdraw [OF assms(2)]) simp
    then show ?thesis using close_finish(2,3) by (simp add: waiters_inv_def future_of_def)
  qed (use assms(2) in \<open>auto simp: fail_task_def intro!: waiters_inv_set_co split: coroutine.split\<close>)
qed

lemma waiters_inv_step:
  assumes "aio_step ad s ev s'" and "waiters_inv s"
  shows "waiters_inv s' \<and> (\<forall>t. (\<exists>r. ev = Returned t (Some r)) \<longrightarrow> true_receipt ad t (value_of (as_co s t)) ev (as_seen s'))"
  using assms waiters_inv_act unfolding aio_step_def by blast

text \<open>What a session reports as released depends on its node alone.\<close>

definition reported :: "('c, 'j, 'h, 'k) aio_ad \<Rightarrow> ('c, 'j, 'h, 'k) aio_sync \<Rightarrow> slot \<Rightarrow> bool" where
  "reported ad sync d = (\<exists>sync'. last_committed (queueing ad) sync = Some (Inr d, sync'))"

lemma reported_node: "sn_node sync = sn_node sync' \<Longrightarrow> reported ad sync d = reported ad sync' d"
  by (auto simp: reported_def last_committed_def seq_Some_iff on_node_Some ret_def)

lemma aio_admitted_True:
  assumes "aio_admitted (queueing ad) v b sync = Some (Inr True, sync')"
  shows "\<exists>d. reported ad sync d \<and> pb_assigned_slot b \<le> d"
proof -
  have same: "s' = s" if "(if c then seq (session_state A) (\<lambda>state. raise (f state)) else ret ()) s = Some (Inr u, s')"
    for c A f s s' and u :: unit
    using that by (auto simp: seq_Some_iff raise_def ret_def split: if_splits)
  from assms obtain d s' where "last_committed (queueing ad) sync = Some (Inr d, s')" "\<not> d < pb_assigned_slot b"
    unfolding aio_admitted_def by (elim seq_InrE) (auto simp: lift_result_def ret_def dest!: same)
  then show ?thesis by (auto simp: reported_def not_less)
qed

lemma finish_append_seen: "finish_append ad t v slot s = Some (ev, s') \<Longrightarrow> as_seen s' = as_seen s"
  by (auto simp: finish_append_def fail_task_def aio_simps split: option.splits prod.splits sum.splits if_splits)

lemma after_run_seen:
  assumes "after_run ad t job b s = Some (ev, s')"
  shows "as_seen s' = as_seen s \<or> (\<exists>d. reported ad (as_sync s) d \<and> as_seen s' \<le> max (as_seen s) d)"
proof (cases job)
  case (Job_Append v to)
  obtain r sync where a: "aio_admitted (queueing ad) v b (as_sync s) = Some (r, sync)"
    using assms Job_Append by (auto split: option.splits)
  consider e where "r = Inl e" | "r = Inr False" | "r = Inr True" by (cases r) auto
  then show ?thesis
  proof cases
    case 3
    then have "as_seen s' = max (as_seen s) (pb_assigned_slot b)"
      using assms Job_Append a finish_append_seen [of ad t v "pb_assigned_slot b" _ ev s'] by fastforce
    then show ?thesis using aio_admitted_True [OF a [unfolded 3]] by auto
  qed (use assms Job_Append a in \<open>auto simp: fail_task_def aio_simps wait_for_slot_def split: option.splits\<close>)
qed (use assms in \<open>auto simp: set_co_def\<close>)

lemma flush_on_seen:
  assumes "flush_on ad t job b s = Some (ev, s')"
  shows "as_seen s' = as_seen s \<or> (\<exists>d. reported ad (as_sync s) d \<and> as_seen s' \<le> max (as_seen s) d)"
proof (cases "sn_transport (as_sync s)")
  case Nil
  then obtain r sync where l: "last_committed (queueing ad) (as_sync s) = Some (r, sync)"
    using assms by (auto simp: flush_on_def split: option.splits)
  show ?thesis
  proof (cases r)
    case (Inr released)
    let ?s1 = "release t (settle_waiters released (s\<lparr>as_sync := sync\<rparr>))"
    have "after_run ad t job b ?s1 = Some (ev, s')" using assms Nil l Inr by (simp add: flush_on_def)
    note a = after_run_seen [OF this]
    have s1: "as_seen ?s1 = max (as_seen s) released" "as_sync ?s1 = sync" by (simp_all add: aio_simps)
    have "reported ad (as_sync s) released" using l Inr by (auto simp: reported_def)
    moreover have "reported ad sync d = reported ad (as_sync s) d" for d
      by (rule reported_node [OF same_node [OF queries_keep_node(1) l]])
    ultimately show ?thesis using a unfolding s1 by (metis max.assoc max.cobounded2 max_def order_refl)
  qed (use assms Nil l in \<open>auto simp: flush_on_def fail_task_def aio_simps\<close>)
qed (use assms in \<open>auto simp: flush_on_def set_co_def\<close>)

lemma aio_act_seen:
  assumes "aio_act ad s net ev s'"
  shows "as_seen s' = as_seen s \<or> (\<exists>d. reported ad (as_sync s) d \<and> as_seen s' \<le> max (as_seen s) d)"
  using assms
  by (cases rule: aio_act.cases)
     (auto simp: fail_task_def aio_simps dest: flush_on_seen finish_append_seen split: if_splits)

lemma aio_step_seen:
  assumes "aio_step ad s ev s'"
  shows "as_seen s' = as_seen s \<or> (\<exists>d. reported ad (as_sync s) d \<and> as_seen s' \<le> max (as_seen s) d)"
  using assms aio_act_seen unfolding aio_step_def by blast

text \<open>On the way to \<open>s\<close>, the session reported a slot as released.\<close>

definition was_reported :: "('c, 'j, 'h, 'k) aio_ad \<Rightarrow> ('c, 'j, 'h, 'k) aio \<Rightarrow> ('c, 'j, 'h, 'k) aio \<Rightarrow> slot \<Rightarrow> bool" where
  "was_reported ad s0 s slot = (\<exists>s1 d. aio_path ad s0 s1 \<and> aio_path ad s1 s \<and> reported ad (as_sync s1) d \<and> slot \<le> d)"

lemma seen_was_reported:
  assumes "aio_path ad (aio_init sync) s" and "1 \<le> as_seen s"
  shows "was_reported ad (aio_init sync) s (as_seen s)"
  using assms
proof (induction rule: aio_path.induct)
  case (step s ev s')
  show ?case
  proof (cases "as_seen s' \<le> as_seen s")
    case True
    then have "was_reported ad (aio_init sync) s (as_seen s)" using step by simp
    then show ?thesis using True aio_path.step [OF _ step(2)] unfolding was_reported_def by (meson order_trans)
  next
    case False
    then obtain d where "reported ad (as_sync s) d" "as_seen s' \<le> d"
      using aio_step_seen [OF step(2)] by (auto simp: le_max_iff_disj)
    then show ?thesis using step(1) path_step [OF step(2)] unfolding was_reported_def by blast
  qed
qed (simp add: aio_init_def)

lemma waiters_inv_path:
  assumes "aio_path ad (aio_init sync) s"
  shows "waiters_inv s"
  using assms by (induction rule: aio_path.induct) (auto simp: waiters_inv_def aio_init_def dest: waiters_inv_step split: if_splits)

text \<open>A receipt of the asyncio session is as true as one of the session. However the tasks interleave and
  whichever are cancelled, when \<^verbatim>\<open>append\<close> returns a receipt the session had at some time before reported its
  slot as released, and the entry it held at that slot is a command with exactly the submitted bytes: no
  waiter is woken for a slot that is not released.\<close>

lemma receipt_after_path:
  assumes "aio_path ad (aio_init sync) s" and "aio_step ad s (Returned t (Some r)) s'"
  shows "le_kind (rc_entry r) = EK_COMMAND \<and> receipt_value r = value_of (as_co s t)
    \<and> (\<exists>s1 s2. entry_at (queueing ad) (rc_slot r) s1 = Some (Inr (Some (rc_entry r)), s2))
    \<and> (\<exists>s1 d s2. aio_path ad (aio_init sync) s1 \<and> aio_path ad s1 s' \<and> last_committed (queueing ad) (as_sync s1) = Some (Inr d, s2)
        \<and> rc_slot r \<le> d)"
proof -
  have "true_receipt ad t (value_of (as_co s t)) (Returned t (Some r)) (as_seen s')"
    using waiters_inv_step [OF assms(2) waiters_inv_path [OF assms(1)]] by blast
  then have r: "le_kind (rc_entry r) = EK_COMMAND" "receipt_value r = value_of (as_co s t)" "1 \<le> rc_slot r"
    "rc_slot r \<le> as_seen s'" "\<exists>s1 s2. entry_at (queueing ad) (rc_slot r) s1 = Some (Inr (Some (rc_entry r)), s2)"
    unfolding true_receipt_def by blast+
  have "was_reported ad (aio_init sync) s' (as_seen s')"
    using seen_was_reported [OF aio_path.step [OF assms]] r(3,4) by simp
  then show ?thesis using r unfolding was_reported_def reported_def by (meson order_trans)
qed

end
