(* ===== verification/Aio_Frames.thy ===== *)
theory Aio_Frames
  imports Aio_Laws Transport_Laws Fabric_Frames
begin

section \<open>What an asyncio session sends\<close>

text \<open>The outbox is a transport; its contract: all it holds was encoded for the peer it is addressed to.\<close>

definition outbox_ok :: "int \<Rightarrow> outbox \<Rightarrow> bool" where
  "outbox_ok fp frames = (\<forall>(peer, frame) \<in> set frames. carries fp peer frame)"

lemma outbox_ok_simps [simp]:
  "outbox_ok fp []" "outbox_ok fp (x # frames) = (carries fp (fst x) (snd x) \<and> outbox_ok fp frames)"
  by (auto simp: outbox_ok_def split_def)

interpretation outbox: transport_contract "queueing ad" "outbox_ok (ad_fingerprint ad)" for ad :: "('c, 'j, 'h, 'k) aio_ad"
  by unfold_locales
     (auto simp: queueing_def outbox_send_def outbox_receive_def outbox_close_def outbox_ok_def carriesI)

lemma discharge_parts_keep_outbox:
  "keeps (\<lambda>s. outbox_ok (ad_fingerprint ad) (sn_transport s)) (discharge_main (queueing ad) b)"
  "keeps (\<lambda>s. outbox_ok (ad_fingerprint ad) (sn_transport s)) (discharge_floor (queueing ad))"
  unfolding discharge_main_def discharge_floor_def discharge_body_def session_release_def
  by (intro outbox.ok_rules outbox.send_keeps_ok outbox.serve_keeps_ok)+

text \<open>The queries of an append do not touch the outbox at all.\<close>

lemma queries_keep_outbox:
  "keeps (\<lambda>s. sn_transport s = x) (last_committed ad)" "keeps (\<lambda>s. sn_transport s = x) (session_state ad)"
  "keeps (\<lambda>s. sn_transport s = x) (aio_admitted ad v b)" "keeps (\<lambda>s. sn_transport s = x) (aio_receipt ad v slot)"
proof -
  let ?P = "\<lambda>s. sn_transport s = x"
  have n: "keeps ?P (on_node f)" "keeps ?P (on_history g)" for f g
    unfolding on_node_def on_history_def by ((rule keeps_call_on keeps_run_on), simp)+
  show r: "keeps ?P (last_committed ad)" "keeps ?P (session_state ad)"
    unfolding last_committed_def session_state_def by (intro keeps_combine n)+
  show "keeps ?P (aio_admitted ad v b)" unfolding aio_admitted_def by (intro keeps_combine r)
  have "keeps ?P (entry_at ad slot)"
    unfolding entry_at_def by (intro keeps_seq n) (auto split: option.splits intro!: keeps_combine n)
  then have "keeps ?P (session_getitem ad slot)"
    unfolding session_getitem_def by (intro keeps_seq keeps_if keeps_pure(1)) (auto split: option.splits intro!: keeps_pure)
  then show "keeps ?P (aio_receipt ad v slot)" unfolding aio_receipt_def Let_def by (intro keeps_combine r)
qed

lemma same_outbox: "keeps (\<lambda>x. sn_transport x = sn_transport s) m \<Longrightarrow> m s = Some (r, s') \<Longrightarrow> sn_transport s' = sn_transport s"
  by (drule (1) keepsD) simp_all

text \<open>What a session is about to send.\<close>

definition sends_ok :: "('c, 'j, 'h, 'k) aio_ad \<Rightarrow> ('c, 'j, 'h, 'k) aio \<Rightarrow> bool" where
  "sends_ok ad s = (outbox_ok (ad_fingerprint ad) (sn_transport (as_sync s))
     \<and> (\<forall>t job b pf. as_co s t = Flushing job b pf \<longrightarrow> carries (ad_fingerprint ad) (fst pf) (snd pf)))"

lemma sends_ok_frame [simp]:
  "sends_ok ad (s\<lparr>as_serial := l\<rparr>) = sends_ok ad s" "sends_ok ad (s\<lparr>as_futures := f\<rparr>) = sends_ok ad s"
  "sends_ok ad (s\<lparr>as_waiters := ws\<rparr>) = sends_ok ad s" "sends_ok ad (s\<lparr>as_closing := cl\<rparr>) = sends_ok ad s"
  "sends_ok ad (s\<lparr>as_network := nw\<rparr>) = sends_ok ad s" "sends_ok ad (s\<lparr>as_works := wk\<rparr>) = sends_ok ad s"
  "sends_ok ad (s\<lparr>as_seen := sl\<rparr>) = sends_ok ad s" "sends_ok ad (release t s) = sends_ok ad s"
  "sends_ok ad (settle_waiters r s) = sends_ok ad s"
  by (simp_all add: sends_ok_def release_def settle_waiters_def)

lemma sends_ok_co:
  "sends_ok ad s \<Longrightarrow> \<forall>job b pf. c \<noteq> Flushing job b pf \<Longrightarrow> sends_ok ad (set_co t c s)"
  by (auto simp: sends_ok_def set_co_def)

lemma sends_ok_sync:
  "sn_transport y = sn_transport (as_sync s) \<Longrightarrow> sends_ok ad (s\<lparr>as_sync := y\<rparr>) = sends_ok ad s"
  by (simp add: sends_ok_def)

lemma sends_ok_fail: "fail_task t e s = (ev, s') \<Longrightarrow> sends_ok ad s \<Longrightarrow> sends_ok ad s'"
  by (auto simp: fail_task_def intro: sends_ok_co)

lemma sends_ok_finish: "finish_append ad t v slot s = Some (ev, s') \<Longrightarrow> sends_ok ad s \<Longrightarrow> sends_ok ad s'"
  using same_outbox [OF queries_keep_outbox(4)]
  by (fastforce simp: finish_append_def sends_ok_sync intro: sends_ok_co sends_ok_fail split: option.splits prod.splits sum.splits)

lemma sends_ok_wait: "sends_ok ad s \<Longrightarrow> sends_ok ad (wait_for_slot t v d slot s)"
  by (auto simp: wait_for_slot_def intro: sends_ok_co split: option.split)

lemma sends_ok_after_run:
  assumes "after_run ad t job b s = Some (ev, s')" and "sends_ok ad s"
  shows "sends_ok ad s'"
proof (cases job)
  case (Job_Append v d)
  obtain r sync where a: "aio_admitted (queueing ad) v b (as_sync s) = Some (r, sync)"
    using assms(1) Job_Append by (auto split: option.splits)
  have y: "sends_ok ad (s\<lparr>as_sync := sync\<rparr>)"
    using assms(2) sends_ok_sync [OF same_outbox [OF queries_keep_outbox(3) a]] by blast
  consider e where "r = Inl e" | "r = Inr False" | "r = Inr True" by (cases r) auto
  then show ?thesis
  proof cases
    case 1
    then show ?thesis using assms(1) Job_Append a sends_ok_fail [OF _ y] by simp
  next
    case 2
    then show ?thesis using assms(1) Job_Append a by (auto intro: sends_ok_wait [OF y])
  next
    case 3
    let ?s1 = "s\<lparr>as_sync := sync, as_seen := max (as_seen s) (pb_assigned_slot b)\<rparr>"
    have "sends_ok ad ?s1" using y by (simp only: sends_ok_frame(7))
    moreover have "finish_append ad t v (pb_assigned_slot b) ?s1 = Some (ev, s')"
      using assms(1) Job_Append a 3 by simp
    ultimately show ?thesis using sends_ok_finish by blast
  qed
qed (use assms in \<open>auto intro: sends_ok_co\<close>)

lemma sends_ok_flush:
  assumes "flush_on ad t job b s = Some (ev, s')" and "sends_ok ad s"
  shows "sends_ok ad s'"
proof (cases "sn_transport (as_sync s)")
  case (Cons pf rest)
  then show ?thesis using assms by (auto simp: flush_on_def sends_ok_def set_co_def split: if_splits)
next
  case Nil
  then obtain r sync where l: "last_committed (queueing ad) (as_sync s) = Some (r, sync)"
    using assms(1) by (auto simp: flush_on_def split: option.splits)
  have "sends_ok ad (s\<lparr>as_sync := sync\<rparr>)"
    using assms(2) sends_ok_sync [OF same_outbox [OF queries_keep_outbox(1) l]] by blast
  then show ?thesis using assms(1) Nil l
    by (cases r) (auto simp: flush_on_def intro: sends_ok_fail sends_ok_after_run)
qed

text \<open>Every frame a session hands to its transport was encoded for the peer it is sent to.\<close>

lemma sends_ok_act:
  assumes "aio_act ad s net ev s'" and "sends_ok ad s"
  shows "sends_ok ad s' \<and> (net = Put peer frame \<longrightarrow> carries (ad_fingerprint ad) peer frame)"
  using assms(1)
proof (cases rule: aio_act.cases)
  case (transition t job b n)
  have "sends_ok ad (s\<lparr>as_serial := Some t, as_sync := (as_sync s)\<lparr>sn_node := n\<rparr>, as_works := as_works s @ [Discharging b]\<rparr>)"
    using assms(2) by (simp add: sends_ok_def)
  then show ?thesis using transition(1,3) by (auto intro: sends_ok_co)
next
  case (refused t job e n)
  have "sends_ok ad (s\<lparr>as_sync := (as_sync s)\<lparr>sn_node := n\<rparr>\<rparr>)" using assms(2) by (simp add: sends_ok_def)
  then show ?thesis using refused(1,5) by (auto intro: sends_ok_fail)
next
  case (worker w b r sync)
  then have "outbox_ok (ad_fingerprint ad) (sn_transport sync)"
    using keepsD [OF discharge_parts_keep_outbox(1) worker(6)] assms(2) by (simp add: sends_ok_def)
  then show ?thesis using assms(2) worker(1,3) by (simp add: sends_ok_def)
next
  case (worker_floor w r sync)
  then have "outbox_ok (ad_fingerprint ad) (sn_transport sync)"
    using keepsD [OF discharge_parts_keep_outbox(2) worker_floor(6)] assms(2) by (simp add: sends_ok_def)
  then show ?thesis using assms(2) worker_floor(1,3) by (simp add: sends_ok_def)
next
  case (close_finish ws r sync)
  then have "outbox_ok (ad_fingerprint ad) (sn_transport sync)"
    using keepsD [OF outbox.close_keeps_ok close_finish(6)] assms(2) by (simp add: sends_ok_def)
  then show ?thesis using assms(2) close_finish(1,3) by (simp add: sends_ok_def)
next
  case (sent t job b pf)
  then have "carries (ad_fingerprint ad) (fst pf) (snd pf)" using assms(2) by (simp add: sends_ok_def)
  then show ?thesis using sent(1) sends_ok_flush [OF sent(3)] assms(2) by auto
qed (use assms(2) in \<open>auto intro: sends_ok_fail sends_ok_flush sends_ok_finish intro!: sends_ok_co split: coroutine.split\<close>)

lemma sends_ok_path: "aio_path ad s s' \<Longrightarrow> sends_ok ad s \<Longrightarrow> sends_ok ad s'"
  by (induction rule: aio_path.induct) (auto simp: aio_step_def dest: sends_ok_act)

lemma sends_ok_init: "sn_transport sync = [] \<Longrightarrow> sends_ok ad (aio_init sync)"
  by (simp add: sends_ok_def aio_init_def)

end
