(* ===== verification/Async_Cluster_Laws.thy ===== *)
theory Async_Cluster_Laws
  imports Async_Cluster Aio_Frames
begin

section \<open>What an asyncio cluster guarantees\<close>

subsection \<open>A run of the cluster is a run of each member\<close>

text \<open>From one state of the cluster to another every member has only taken steps of its own.\<close>

definition members_step :: "('c, 'k) async_adapters \<Rightarrow> ('c, 'k) async_cluster \<Rightarrow> ('c, 'k) async_cluster \<Rightarrow> bool" where
  "members_step ad c c' = (\<forall>m. rel_option (aio_path ad) (map_of (am_sessions c) m) (map_of (am_sessions c') m))"

lemma members_step_same: "am_sessions c' = am_sessions c \<Longrightarrow> members_step ad c c'"
  by (simp add: members_step_def option.rel_refl aio_path.here)

lemma members_step_set:
  "map_of (am_sessions c) m = Some s \<Longrightarrow> aio_path ad s s' \<Longrightarrow> am_sessions c' = AList.update m s' (am_sessions c)
   \<Longrightarrow> members_step ad c c'"
  by (simp add: members_step_def update_conv' option.rel_refl aio_path.here)

lemma members_step_trans: "members_step ad c c1 \<Longrightarrow> members_step ad c1 c2 \<Longrightarrow> members_step ad c c2"
proof -
  have "rel_option (aio_path ad) x z" if "rel_option (aio_path ad) x y" "rel_option (aio_path ad) y z" for x y z
    using that by (cases x; cases y; cases z) (auto intro: aio_path_trans)
  then show "members_step ad c c1 \<Longrightarrow> members_step ad c1 c2 \<Longrightarrow> members_step ad c c2"
    unfolding members_step_def by blast
qed

lemma members_stepD:
  "members_step ad c c' \<Longrightarrow> map_of (am_sessions c') m = Some s' \<Longrightarrow>
   \<exists>s. map_of (am_sessions c) m = Some s \<and> aio_path ad s s'"
  unfolding members_step_def by (metis option_rel_Some2)

text \<open>The parts of a step that call a member start a coroutine of a task that was idle there.\<close>

definition idle_at :: "task \<Rightarrow> node_id \<Rightarrow> ('c, 'k) async_cluster \<Rightarrow> bool" where
  "idle_at t m c = (\<forall>s. map_of (am_sessions c) m = Some s \<longrightarrow> as_co s t = Idle)"

lemma lead_on_members:
  assumes "lead_on t m goal c = (out, c')" and "idle_at t m c" and "\<not> is_driver t"
  shows "members_step ad c c' \<and> am_fabric c' = am_fabric c"
proof -
  have "members_step ad c (set_call t x (set_member m (set_co t (Queued (Job_Append v d)) s) c))"
    if "map_of (am_sessions c) m = Some s" "check_timeout timeout = Inr d" for x s v d timeout
  proof (rule members_step_set [OF that(1)])
    have "as_co s t = Idle" using assms(2) that(1) by (simp add: idle_at_def)
    from path_step [OF aio_stepI [OF append [OF assms(3) this that(2)]]]
    show "aio_path ad s (set_co t (Queued (Job_Append v d)) s)" .
  qed (simp add: set_call_def set_member_def)
  then show ?thesis using assms(1)
    by (auto simp: lead_on_def set_call_def set_member_def intro: members_step_same split: option.splits sum.splits prod.splits)
qed

lemma settle_members:
  assumes "settle ad t m goal c = (out, c')" and "idle_at t m c" and "\<not> is_driver t"
  shows "members_step ad c c' \<and> am_fabric c' = am_fabric c"
  using assms lead_on_members [of t m goal c out c' ad]
  by (auto simp: settle_def set_call_def intro: members_step_same split: option.splits sum.splits if_splits)

lemma call_elect_members:
  assumes "call_elect ad t node_id goal c = (out, c')" and "\<And>m. idle_at t m c" and "\<not> is_driver t"
  shows "members_step ad c c' \<and> am_fabric c' = am_fabric c"
proof -
  have "members_step ad c (set_call t x (set_member m (set_co t (Queued Job_Campaign) s) c))"
    if "map_of (am_sessions c) m = Some s" for x m s
  proof (rule members_step_set [OF that])
    have "as_co s t = Idle" using assms(2) that by (simp add: idle_at_def)
    from path_step [OF aio_stepI [OF campaign [OF assms(3) this]]]
    show "aio_path ad s (set_co t (Queued Job_Campaign) s)" .
  qed (simp add: set_call_def set_member_def)
  then show ?thesis using assms(1) lead_on_members [OF _ assms(2,3), where ad = ad]
    by (auto simp: call_elect_def Let_def set_call_def set_member_def intro: members_step_same
        split: option.splits sum.splits if_splits)
qed

text \<open>When \<^verbatim>\<open>campaign\<close> returns to a task, the task is idle there.\<close>

lemma returned_idle:
  assumes "aio_act ad s net (Returned t None) s'"
  shows "as_co s' t = Idle"
proof -
  have fin: "finish_append ad u v slot s1 \<noteq> Some (Returned t None, s')" for u v slot s1
    by (auto simp: finish_append_def fail_task_def split: option.splits prod.splits sum.splits)
  have run: "as_co s' t = Idle" if "after_run ad u job b s1 = Some (Returned t None, s')" for u job b s1
    using that fin by (cases job) (auto simp: fail_task_def set_co_def split: option.splits prod.splits sum.splits bool.splits)
  have flush: "as_co s' t = Idle" if "flush_on ad u job b s1 = Some (Returned t None, s')" for u job b s1
    using that run by (auto simp: flush_on_def fail_task_def split: list.splits option.splits prod.splits sum.splits)
  show ?thesis using assms
    by (cases rule: aio_act.cases) (auto simp: fail_task_def fin dest: flush)
qed

lemma after_event_members:
  assumes "after_event ad m ev c = (out, c')" and "\<And>t. ev = Returned t None \<Longrightarrow> idle_at t m c"
    and "\<forall>t. is_driver t \<longrightarrow> am_calls c t = Free"
  shows "members_step ad c c' \<and> am_fabric c' = am_fabric c"
proof (cases ev)
  case (Returned t r)
  show ?thesis
  proof (cases "am_calls c t")
    case (Campaigning m' goal)
    then have "\<not> is_driver t" using assms(3) by fastforce
    then show ?thesis
      using assms(1,2) Returned Campaigning settle_members [of ad t m goal c out c']
      by (auto intro: members_step_same split: option.splits if_splits)
  qed (use assms(1) Returned in \<open>auto simp: set_call_def intro: members_step_same split: option.splits if_splits\<close>)
qed (use assms(1) in \<open>auto simp: set_call_def intro: members_step_same split: call.splits if_splits\<close>)


subsection \<open>What a task is appending\<close>

fun submits :: "bytes \<Rightarrow> job \<Rightarrow> bool" where
  "submits v (Job_Append v' d) = (v' = v)"
| "submits v _ = False"

fun appends :: "bytes \<Rightarrow> coroutine \<Rightarrow> bool" where
  "appends v (Queued job) = submits v job"
| "appends v (Shielded job b w) = submits v job"
| "appends v (Flushing job b pf) = submits v job"
| "appends v (Waiting v' slot d i) = (v' = v)"
| "appends v _ = False"

lemma appends_value: "appends v co \<Longrightarrow> value_of co = v"
proof -
  have "submits v job \<Longrightarrow> submitted job = v" for job by (cases job) auto
  then show "appends v co \<Longrightarrow> value_of co = v" by (cases co) auto
qed

definition ends :: "event \<Rightarrow> task \<Rightarrow> bool" where
  "ends ev t = (case ev of Returned u r \<Rightarrow> u = t \<and> r \<noteq> None | Raised u e \<Rightarrow> u = t | Cancelled u \<Rightarrow> u = t | Quiet \<Rightarrow> False)"

lemma ends_simps [simp]:
  "\<not> ends Quiet t" "ends (Returned u (Some r)) t = (u = t)" "\<not> ends (Returned u None) t"
  "ends (Raised u e) t = (u = t)" "ends (Cancelled u) t = (u = t)"
  by (simp_all add: ends_def)

lemma fail_task_ends: "fail_task t e s = (ev, s') \<Longrightarrow> ends ev t"
  by (auto simp: fail_task_def)

lemma finish_append_ends: "finish_append ad t v slot s = Some (ev, s') \<Longrightarrow> ends ev t"
  by (auto simp: finish_append_def dest: fail_task_ends split: option.splits prod.splits sum.splits)

lemma after_run_appends:
  assumes "after_run ad t job b s = Some (ev, s')" and "submits v job"
  shows "appends v (as_co s' t) \<or> ends ev t"
proof -
  obtain d where j: "job = Job_Append v d" using assms(2) by (cases job) auto
  obtain r sync where a: "aio_admitted (queueing ad) v b (as_sync s) = Some (r, sync)"
    using assms(1) j by (auto split: option.splits)
  consider e where "r = Inl e" | "r = Inr False" | "r = Inr True" by (cases r) auto
  then show ?thesis
    using assms(1) j a
    by cases (auto simp: wait_for_slot_def set_co_def dest: fail_task_ends finish_append_ends split: option.splits)
qed

lemma flush_on_appends:
  "flush_on ad t job b s = Some (ev, s') \<Longrightarrow> submits v job \<Longrightarrow> appends v (as_co s' t) \<or> ends ev t"
  by (auto simp: flush_on_def set_co_def dest: fail_task_ends after_run_appends split: list.splits option.splits prod.splits sum.splits)

text \<open>A task keeps appending its value until the call returns, raises or is cancelled.\<close>

lemma appends_act:
  assumes "aio_act ad s net ev s'" and "appends v (as_co s t)" and "\<not> is_driver t"
  shows "appends v (as_co s' t) \<or> ends ev t"
  using assms(1)
proof (cases rule: aio_act.cases)
  case (sent u job b pf)
  then show ?thesis
    using assms(2) flush_on_appends [OF sent(3), of v] flush_on_co [OF sent(3), of t] by (cases "u = t") auto
next
  case (send_failed u job b pf)
  then show ?thesis
    using assms(2) flush_on_appends [OF send_failed(3), of v] flush_on_co [OF send_failed(3), of t] by (cases "u = t") auto
next
  case (discharged u job b w)
  then show ?thesis
    using assms(2) flush_on_appends [OF discharged(5), of v] flush_on_co [OF discharged(5), of t] by (cases "u = t") auto
next
  case (woken u v' slot d i)
  then show ?thesis
    using assms(2) finish_append_ends [OF woken(5)] finish_append_co [OF woken(5), of t] by (cases "u = t") auto
qed (use assms(2,3) in \<open>auto simp: fail_task_def aio_simps split: if_splits\<close>)

text \<open>Each call of \<^verbatim>\<open>append\<close> that waits on a member is that member appending its value for the task.\<close>

definition calls_ok_but :: "task set \<Rightarrow> ('c, 'k) async_cluster \<Rightarrow> bool" where
  "calls_ok_but ts c = ((\<forall>t. is_driver t \<longrightarrow> am_calls c t = Free)
     \<and> (\<forall>t m v. t \<notin> ts \<and> am_calls c t = Appending m v \<longrightarrow> (\<exists>s. map_of (am_sessions c) m = Some s \<and> appends v (as_co s t))))"

abbreviation calls_ok :: "('c, 'k) async_cluster \<Rightarrow> bool" where "calls_ok \<equiv> calls_ok_but {}"

lemma calls_okD:
  assumes "calls_ok_but ts c" and "am_calls c t = Appending m v" and "t \<notin> ts"
  obtains s where "map_of (am_sessions c) m = Some s" "appends v (as_co s t)" "\<not> is_driver t"
proof -
  have "\<not> is_driver t" using assms(1,2) unfolding calls_ok_but_def by (metis call.distinct(5))
  then show ?thesis using assms that unfolding calls_ok_but_def by blast
qed

lemma calls_ok_weaken: "calls_ok c \<Longrightarrow> calls_ok_but ts c"
  by (simp add: calls_ok_but_def)

lemma calls_ok_set_call:
  "calls_ok_but {t} c \<Longrightarrow> \<not> is_driver t \<or> x = Free \<Longrightarrow> \<forall>m v. x \<noteq> Appending m v \<Longrightarrow> calls_ok (set_call t x c)"
  by (auto simp: calls_ok_but_def set_call_def)

text \<open>A task's coroutine on a member replaced: the other tasks go on.\<close>

lemma calls_ok_set_co:
  assumes "calls_ok_but {t} c" and "map_of (am_sessions c) m = Some s"
  shows "calls_ok_but {t} (set_member m (set_co t x s) c)"
  using assms unfolding calls_ok_but_def set_member_def set_co_def
  by (simp add: update_conv') (metis fun_upd_other option.inject)

lemma lead_on_calls:
  assumes "lead_on t m goal c = (out, c')" and "calls_ok_but {t} c" and "\<not> is_driver t"
  shows "calls_ok c'"
proof -
  have "calls_ok (set_call t (Appending m v) (set_member m (set_co t (Queued (Job_Append v d)) s) c))"
    if "map_of (am_sessions c) m = Some s" for s v d
    using calls_ok_set_co [OF assms(2) that, of "Queued (Job_Append v d)"] assms(3)
    by (auto simp: calls_ok_but_def set_call_def set_member_def set_co_def update_conv')
  then show ?thesis using assms
    by (auto simp: lead_on_def intro: calls_ok_set_call split: option.splits sum.splits prod.splits)
qed

lemma settle_calls:
  assumes "settle ad t m goal c = (out, c')" and "calls_ok_but {t} c" and "\<not> is_driver t"
  shows "calls_ok c'"
proof -
  have "calls_ok (set_call t x c)" if "\<forall>m v. x \<noteq> Appending m v" for x
    using calls_ok_set_call [OF assms(2) _ that] assms(3) by blast
  then show ?thesis using assms(1) lead_on_calls [OF _ assms(2,3), of m goal out c']
    by (auto simp: settle_def split: option.splits sum.splits if_splits)
qed

lemma call_elect_calls:
  assumes "call_elect ad t node_id goal c = (out, c')" and "calls_ok c" and "\<not> is_driver t"
  shows "calls_ok c'"
proof -
  have ok: "calls_ok_but {t} c" by (rule calls_ok_weaken [OF assms(2)])
  have "calls_ok (set_call t (Campaigning m goal) (set_member m (set_co t x s) c))"
    if "map_of (am_sessions c) m = Some s" for m x s
    by (rule calls_ok_set_call [OF calls_ok_set_co [OF ok that]]) (use assms(3) in simp_all)
  note campaign = this
  show ?thesis
  proof (cases "async_leader ad (am_sessions c)")
    case found: (Inr x)
    show ?thesis
    proof (cases x)
      case None
      show ?thesis
      proof (cases "candidate_for node_id (am_members c)")
        case (Inr cand)
        have e: "call_elect ad t node_id goal c = (case map_of (am_sessions c) cand of None \<Rightarrow> (Call_Raised t (KeyErr cand), c)
            | Some s \<Rightarrow> (Nothing, set_call t (Campaigning cand goal) (set_member cand (set_co t (Queued Job_Campaign) s) c)))"
          unfolding call_elect_def found None Inr sum.case option.case ..
        show ?thesis
        proof (cases "map_of (am_sessions c) cand")
          case None
          then show ?thesis using assms(1,2) unfolding e by simp
        next
          case (Some s)
          then have "c' = set_call t (Campaigning cand goal) (set_member cand (set_co t (Queued Job_Campaign) s) c)"
            using assms(1) unfolding e by simp
          then show ?thesis using campaign [OF Some] by blast
        qed
      qed (use assms(1,2) found None in \<open>simp add: call_elect_def\<close>)
    next
      case (Some m)
      then have "lead_on t m goal c = (out, c')" using assms(1) found by (simp add: call_elect_def)
      from lead_on_calls [OF this ok assms(3)] show ?thesis .
    qed
  qed (use assms(1,2) in \<open>auto simp: call_elect_def\<close>)
qed

lemma member_step_calls:
  assumes "calls_ok c" and "map_of (am_sessions c) m = Some s" and "aio_act ad s net ev s'"
    and "am_calls c1 = am_calls c" and "am_sessions c1 = AList.update m s' (am_sessions c)"
  shows "calls_ok_but {t. ends ev t \<and> (\<exists>v. am_calls c t = Appending m v)} c1"
  unfolding calls_ok_but_def assms(4,5)
proof (intro conjI allI impI)
  show "is_driver t \<Longrightarrow> am_calls c t = Free" for t using assms(1) by (simp add: calls_ok_but_def)
  fix t n v assume t: "t \<notin> {t. ends ev t \<and> (\<exists>v. am_calls c t = Appending m v)} \<and> am_calls c t = Appending n v"
  then obtain s1 where s1: "map_of (am_sessions c) n = Some s1" "appends v (as_co s1 t)" "\<not> is_driver t"
    using calls_okD [OF assms(1)] by blast
  show "\<exists>s. map_of (AList.update m s' (am_sessions c)) n = Some s \<and> appends v (as_co s t)"
  proof (cases "n = m")
    case True
    then show ?thesis using appends_act [OF assms(3) _ s1(3), of v] s1 t assms(2) by (auto simp: update_conv')
  qed (use s1 in \<open>simp add: update_conv'\<close>)
qed

lemma after_event_calls:
  assumes "after_event ad m ev c = (out, c')" and "calls_ok_but {t. ends ev t \<and> (\<exists>v. am_calls c t = Appending m v)} c"
  shows "calls_ok c'"
proof -
  have d: "\<not> is_driver t" if "am_calls c t \<noteq> Free" for t using assms(2) that by (auto simp: calls_ok_but_def)
  have one: "calls_ok_but {t} c" if "ends ev = (\<lambda>u. u = t)" for t
    using assms(2) that by (auto simp: calls_ok_but_def)
  have all: "calls_ok c" if "\<And>t v. ends ev t \<Longrightarrow> am_calls c t \<noteq> Appending m v"
    using assms(2) that by (auto simp: calls_ok_but_def)
  show ?thesis
  proof (cases ev)
    case Quiet
    then show ?thesis using assms(1) all by simp
  next
    case (Returned t r)
    show ?thesis
    proof (cases r)
      case None
      then have ok: "calls_ok c" using Returned all by simp
      show ?thesis
        using assms(1) Returned None ok d [of t] settle_calls [OF _ calls_ok_weaken [OF ok], of ad t m _ out c']
        by (auto split: call.splits if_splits)
    next
      case (Some x)
      then have "ends ev = (\<lambda>u. u = t)" using Returned by (auto simp: fun_eq_iff)
      then show ?thesis using assms(1) Returned Some one [of t] all
        by (auto intro: calls_ok_set_call split: call.splits if_splits)
    qed
  next
    case (Raised t e)
    then have "ends ev = (\<lambda>u. u = t)" by (auto simp: fun_eq_iff)
    then show ?thesis using assms(1) Raised one [of t] all
      by (auto intro: calls_ok_set_call split: call.splits if_splits)
  next
    case (Cancelled t)
    then have "ends ev = (\<lambda>u. u = t)" by (auto simp: fun_eq_iff)
    then show ?thesis using assms(1) Cancelled one [of t] all
      by (auto intro: calls_ok_set_call split: call.splits if_splits)
  qed
qed


subsection \<open>What the queues hold\<close>

definition queue_ok :: "int \<Rightarrow> int \<Rightarrow> node_id set \<Rightarrow> node_id \<Rightarrow> mail \<Rightarrow> bool" where
  "queue_ok fp limit ids m q = (1 \<le> m \<and> (0 < limit \<longrightarrow> int (length q) \<le> limit)
     \<and> (\<forall>(sender, frame) \<in> set q. sender \<in> ids \<and> carries fp m frame))"

definition queues_ok :: "int \<Rightarrow> node_id set \<Rightarrow> async_fabric \<Rightarrow> bool" where
  "queues_ok fp ids f = (\<forall>m q. map_of (af_queues f) m = Some q \<longrightarrow> queue_ok fp (af_depth f) ids m q)"

lemma queues_ok_send:
  assumes "async_send m peer frame f = Inr f'" and "queues_ok fp ids f" and "carries fp peer frame" and "m \<in> ids"
  shows "queues_ok fp ids f' \<and> af_depth f' = af_depth f"
proof (cases "map_of (af_queues f) peer")
  case (Some q)
  then have q: "queue_ok fp (af_depth f) ids peer q" using assms(2) by (simp add: queues_ok_def)
  show ?thesis
  proof (cases "m \<in> af_partitioned f")
    case False
    then have room: "\<not> (0 < af_depth f \<and> af_depth f \<le> int (length q))"
      and f': "f' = f\<lparr>af_queues := AList.update peer (q @ [(m, frame)]) (af_queues f)\<rparr>"
      using assms(1) Some by (auto simp: async_send_def put_nowait_def split: if_splits)
    have "queue_ok fp (af_depth f) ids peer (q @ [(m, frame)])"
      using q room assms(3,4) by (auto simp: queue_ok_def)
    then show ?thesis using assms(2) by (simp add: f' queues_ok_def update_conv')
  qed (use assms(1,2) in \<open>simp add: async_send_def\<close>)
qed (use assms in \<open>auto simp: async_send_def split: if_splits\<close>)

lemma queues_ok_receive:
  assumes "async_receive m f = Some (x, f')" and "queues_ok fp ids f"
  shows "queues_ok fp ids f' \<and> af_depth f' = af_depth f"
proof -
  obtain q where q: "map_of (af_queues f) m = Some (x # q)" "f' = f\<lparr>af_queues := AList.update m q (af_queues f)\<rparr>"
    using assms(1) by (auto simp: async_receive_def split: option.splits list.splits)
  have "queue_ok fp (af_depth f) ids m (x # q)" using assms(2) q(1) by (simp add: queues_ok_def)
  then have "queue_ok fp (af_depth f) ids m q" by (auto simp: queue_ok_def)
  then show ?thesis using assms(2) by (auto simp: queues_ok_def q(2) update_conv')
qed

lemma queues_ok_init:
  assumes "\<forall>m \<in> set members. 1 \<le> m"
  shows "queues_ok fp ids (async_fabric_init members limit)"
proof -
  have "map_of (fold (\<lambda>m. AList.update m []) ms al) k = Some q \<Longrightarrow> (q = [] \<and> k \<in> set ms) \<or> map_of al k = Some q"
    for ms k q and al :: "(node_id \<times> mail) list"
    by (induction ms arbitrary: al) (force simp: update_conv' split: if_splits)+
  from this [of members "[]"] have "q = [] \<and> m \<in> set members"
    if "map_of (af_queues (async_fabric_init members limit)) m = Some q" for m q
    using that by (simp add: async_fabric_init_def)
  then show ?thesis using assms by (fastforce simp: queues_ok_def queue_ok_def)
qed

subsection \<open>The invariant\<close>

text \<open>Every member is where a session of its own could be, over whatever transport.\<close>

definition member_ok :: "('c, 'k) async_adapters \<Rightarrow> ('c, 'k) async_member \<Rightarrow> bool" where
  "member_ok ad s = (\<exists>sync. session_ok (ad_core ad) sync \<and> sn_transport sync = [] \<and> aio_path ad (aio_init sync) s)"

definition async_inv :: "('c, 'k) async_adapters \<Rightarrow> ('c, 'k) async_cluster \<Rightarrow> bool" where
  "async_inv ad c = ((\<forall>m s. map_of (am_sessions c) m = Some s \<longrightarrow> member_ok ad s)
     \<and> queues_ok (ad_fingerprint ad) (dom (map_of (am_sessions c))) (am_fabric c) \<and> calls_ok c)"

lemma members_step_dom: "members_step ad c c' \<Longrightarrow> dom (map_of (am_sessions c')) = dom (map_of (am_sessions c))"
  unfolding members_step_def dom_def by (metis (mono_tags, lifting) option.rel_distinct(1,2) option.exhaust)

lemma async_inv_step:
  assumes "async_inv ad c" and "members_step ad c c'" and "calls_ok c'"
    and "queues_ok (ad_fingerprint ad) (dom (map_of (am_sessions c))) (am_fabric c')"
  shows "async_inv ad c'"
proof -
  have "member_ok ad s'" if "map_of (am_sessions c') m = Some s'" for m s'
    using members_stepD [OF assms(2) that] assms(1) aio_path_trans unfolding async_inv_def member_ok_def by blast
  then show ?thesis using assms(3,4) members_step_dom [OF assms(2)] by (simp add: async_inv_def)
qed

lemma member_event:
  assumes inv: "async_inv ad c" and s: "map_of (am_sessions c) m = Some s" and act: "aio_act ad s net ev s'"
    and f: "queues_ok (ad_fingerprint ad) (dom (map_of (am_sessions c))) f"
    and e: "after_event ad m ev (set_member m s' (c\<lparr>am_fabric := f\<rparr>)) = (out, c')"
  shows "async_inv ad c'"
proof -
  let ?c1 = "set_member m s' (c\<lparr>am_fabric := f\<rparr>)"
  have calls: "calls_ok c" using inv by (simp add: async_inv_def)
  have s1: "am_sessions ?c1 = AList.update m s' (am_sessions c)" "am_calls ?c1 = am_calls c" "am_fabric ?c1 = f"
    by (simp_all add: set_member_def)
  have 1: "members_step ad c ?c1" by (rule members_step_set [OF s path_step [OF aio_stepI [OF act]] s1(1)])
  have "idle_at t m ?c1" if "ev = Returned t None" for t
    using returned_idle act that by (auto simp: idle_at_def s1(1) update_conv')
  moreover have "\<forall>t. is_driver t \<longrightarrow> am_calls ?c1 t = Free" using calls by (simp add: s1(2) calls_ok_but_def)
  ultimately have 2: "members_step ad ?c1 c' \<and> am_fabric c' = am_fabric ?c1" using after_event_members [OF e] by blast
  have "calls_ok c'"
    by (rule after_event_calls [OF e]) (use member_step_calls [OF calls s act s1(2,1)] s1(2) in simp)
  then show ?thesis using async_inv_step [OF inv members_step_trans [OF 1]] 2 f s1(3) by simp
qed

lemma member_sends_ok: "member_ok ad s \<Longrightarrow> sends_ok ad s"
  unfolding member_ok_def using sends_ok_path sends_ok_init by blast

lemma no_call_calls: "calls_ok c \<Longrightarrow> \<not> is_driver t \<or> x = Free \<Longrightarrow> \<forall>m v. x \<noteq> Appending m v \<Longrightarrow> calls_ok (set_call t x c)"
  using calls_ok_set_call calls_ok_weaken by blast

lemma set_call_inv:
  assumes "async_inv ad c" and "\<not> is_driver t \<or> x = Free" and "\<forall>m v. x \<noteq> Appending m v"
  shows "async_inv ad (set_call t x c)"
proof (rule async_inv_step [OF assms(1) members_step_same])
  show "calls_ok (set_call t x c)"
    by (rule no_call_calls [OF _ assms(2,3)]) (use assms(1) in \<open>simp add: async_inv_def\<close>)
qed (use assms(1) in \<open>simp_all add: set_call_def async_inv_def\<close>)

lemma async_inv_act:
  assumes "async_step ad c out c'" and inv: "async_inv ad c"
  shows "async_inv ad c'"
  using assms(1)
proof (cases rule: async_step.cases)
  note parts = inv [unfolded async_inv_def]
  case (local m s ev s')
  have "async_inv ad c'"
    by (rule member_event [OF inv local(1,2), of "am_fabric c"]) (use parts local(3) in simp_all)
  then show ?thesis .
next
  note parts = inv [unfolded async_inv_def]
  case (deliver m s sender frame f ev s')
  show ?thesis
    by (rule member_event [OF inv deliver(1,3) _ deliver(4)]) (use parts queues_ok_receive [OF deliver(2)] in blast)
next
  note parts = inv [unfolded async_inv_def]
  case (put m s peer frame ev s' f)
  have "sends_ok ad s" using parts put(1) member_sends_ok by blast
  then have "carries (ad_fingerprint ad) peer frame" using sends_ok_act [OF put(2)] by blast
  then have "queues_ok (ad_fingerprint ad) (dom (map_of (am_sessions c))) f"
    using queues_ok_send [OF put(3)] parts put(1) by blast
  then show ?thesis by (rule member_event [OF inv put(1,2) _ put(4)])
next
  note parts = inv [unfolded async_inv_def]
  case (queue_full m s peer frame ev s')
  have "async_inv ad c'"
    by (rule member_event [OF inv queue_full(1,2), of "am_fabric c"]) (use parts queue_full(4) in simp_all)
  then show ?thesis .
next
  note parts = inv [unfolded async_inv_def]
  case (call_elect t node_id goal)
  have "idle_at t m c" for m using call_elect(3) by (auto simp: idle_at_def dest: map_of_SomeD)
  note e = call_elect_members [OF call_elect(4) this call_elect(2)]
  show ?thesis
    by (rule async_inv_step [OF inv]) (use e call_elect_calls [OF call_elect(4) _ call_elect(2)] parts in auto)
next
  note parts = inv [unfolded async_inv_def]
  case (settle t m goal)
  have i: "idle_at t m c" using settle(2) by (auto simp: idle_at_def dest: map_of_SomeD)
  have d: "\<not> is_driver t" using parts settle(1) unfolding calls_ok_but_def by (metis call.distinct(3))
  note e = settle_members [OF settle(3) i d]
  show ?thesis
    by (rule async_inv_step [OF inv]) (use e settle_calls [OF settle(3) calls_ok_weaken d] parts in auto)
next
  case (exit_raises t m ms s u e s')
  let ?c1 = "set_member m s' c"
  have calls: "calls_ok c" using inv by (simp add: async_inv_def)
  have s1: "am_sessions ?c1 = AList.update m s' (am_sessions c)" "am_calls ?c1 = am_calls c" "am_fabric ?c1 = am_fabric c"
    by (simp_all add: set_member_def)
  have 1: "members_step ad c ?c1"
    by (rule members_step_set [OF exit_raises(4) path_step [OF aio_stepI [OF exit_raises(8)]] s1(1)])
  have "am_calls c u = Free" using calls exit_raises(6) by (simp add: calls_ok_but_def)
  then have e: "{t. ends (Raised u e) t \<and> (\<exists>v. am_calls c t = Appending m v)} = {}" by auto
  have "calls_ok ?c1" by (rule member_step_calls [OF calls exit_raises(4,8) s1(2,1), unfolded e])
  then have "async_inv ad ?c1"
    by (rule async_inv_step [OF inv 1]) (use inv s1(3) in \<open>simp add: async_inv_def\<close>)
  then show ?thesis using set_call_inv [of ad ?c1 t Free] exit_raises(2) by simp
next
  case (exit_next t m ms s)
  have "\<not> is_driver t" using inv exit_next(3) unfolding async_inv_def calls_ok_but_def by (metis call.distinct(7))
  then show ?thesis using set_call_inv [OF inv] exit_next(2) by simp
next
  case (partition ms)
  then show ?thesis using inv by (simp add: async_inv_def queues_ok_def calls_ok_but_def)
qed (use inv in \<open>auto intro: set_call_inv\<close>)

lemma async_inv_path: "async_path ad c0 c \<Longrightarrow> async_inv ad c0 \<Longrightarrow> async_inv ad c"
  by (induction rule: async_path.induct) (auto intro: async_inv_act)

lemma async_open_ok:
  "async_open ad conf options tick members clock ms epoch = (Inr ss, epoch') \<Longrightarrow>
   map fst ss = ms \<and> (\<forall>(m, s) \<in> set ss. member_ok ad s)"
proof (induction ms arbitrary: ss epoch epoch' clock)
  case (Cons m ms)
  obtain sync j k epoch1 ss' where i: "session_init (queueing ad) m members conf mj_new [] mh_new clock tick options epoch
        = (Inr sync, j, k, epoch1)"
    and o: "async_open ad conf options tick members k ms epoch1 = (Inr ss', epoch')" and ss: "ss = (m, aio_init sync) # ss'"
    using Cons.prems by (auto split: sum.splits prod.splits)
  have "sn_transport sync = []" using i by (auto simp: session_init_def Let_def split: sum.splits prod.splits if_splits)
  moreover have "session_ok (ad_core ad) sync" using session_init_ok [OF i] by simp
  ultimately have "member_ok ad (aio_init sync)" unfolding member_ok_def by (blast intro: aio_path.here)
  then show ?case using Cons.IH [OF o] ss by auto
qed simp

lemma async_inv_init:
  assumes "async_cluster_init ad sz conf tick options clock epoch = (Inr c, epoch')"
  shows "async_inv ad c \<and> af_depth (am_fabric c) = 4096"
proof -
  obtain ss where o: "async_open ad conf options tick [1..sz] clock [1..sz] epoch = (Inr ss, epoch')"
    and c: "c = \<lparr>am_members = [1..sz], am_fabric = async_fabric_init [1..sz] 4096, am_sessions = ss, am_calls = (\<lambda>_. Free)\<rparr>"
    using assms by (auto simp: async_cluster_init_def Let_def split: sum.splits prod.splits)
  have "queues_ok (ad_fingerprint ad) (dom (map_of ss)) (async_fabric_init [1..sz] 4096)"
    by (rule queues_ok_init) simp
  then show ?thesis using async_open_ok [OF o]
    by (auto simp: c async_inv_def calls_ok_but_def async_fabric_init_def dest: map_of_SomeD)
qed


subsection \<open>Properties\<close>

lemma started_inv:
  assumes "async_cluster_init ad sz conf tick options clock epoch = (Inr c0, epoch')" and "async_path ad c0 c"
  shows "async_inv ad c"
  using async_inv_init [OF assms(1)] async_inv_path [OF assms(2)] by blast

lemma async_fabric_depth:
  assumes "async_step ad c out c'" and "async_inv ad c"
  shows "af_depth (am_fabric c') = af_depth (am_fabric c)"
proof -
  have d: "af_depth (am_fabric c1) = af_depth f" if "after_event ad m ev (set_member m s (c\<lparr>am_fabric := f\<rparr>)) = (out, c1)"
    for m ev s f c1
  proof -
    have l: "lead_on t n goal c2 = (out, c1) \<Longrightarrow> am_fabric c1 = am_fabric c2" for t n goal c2
      by (auto simp: lead_on_def set_call_def set_member_def split: option.splits sum.splits prod.splits)
    have "settle ad t n goal c2 = (out, c1) \<Longrightarrow> am_fabric c1 = am_fabric c2" for t n goal c2
      by (auto simp: settle_def set_call_def dest: l split: option.splits sum.splits if_splits)
    then show ?thesis using that
      by (cases ev) (auto simp: set_call_def set_member_def split: call.splits option.splits if_splits)
  qed
  show ?thesis using assms(1)
  proof (cases rule: async_step.cases)
    case (put m s peer frame ev s' f)
    have "af_depth f = af_depth (am_fabric c)"
      using put(3) by (auto simp: async_send_def split: if_splits option.splits sum.splits)
    then show ?thesis using d [OF put(4)] by simp
  next
    case (deliver m s sender frame f ev s')
    have "af_depth f = af_depth (am_fabric c)"
      using deliver(2) by (auto simp: async_receive_def split: option.splits list.splits)
    then show ?thesis using d [OF deliver(4)] by simp
  next
    case (local m s ev s')
    then show ?thesis using d [of m ev s' "am_fabric c" c'] by simp
  next
    case (queue_full m s peer frame ev s')
    then show ?thesis using d [of m ev s' "am_fabric c" c'] by simp
  next
    case (call_elect t node_id goal)
    have "idle_at t m c" for m using call_elect(3) by (auto simp: idle_at_def dest: map_of_SomeD)
    from call_elect_members [OF call_elect(4) this call_elect(2)] show ?thesis by simp
  next
    case (settle t m goal)
    have i: "idle_at t m c" using settle(2) by (auto simp: idle_at_def dest: map_of_SomeD)
    have "\<not> is_driver t" using assms(2) settle(1) unfolding async_inv_def calls_ok_but_def by (metis call.distinct(3))
    from settle_members [OF settle(3) i this] show ?thesis by simp
  qed (simp_all add: set_call_def set_member_def)
qed

lemma async_path_depth:
  "async_path ad c0 c \<Longrightarrow> async_inv ad c0 \<Longrightarrow> async_inv ad c \<and> af_depth (am_fabric c) = af_depth (am_fabric c0)"
  by (induction rule: async_path.induct) (auto intro: async_inv_act dest: async_fabric_depth)

text \<open>Members of an asyncio cluster keep the contract of the engine together. However the event loop
  interleaves the members, their worker threads, the callers of \<^verbatim>\<open>elect\<close> and \<^verbatim>\<open>append\<close> and the frames in the
  queues, with cancellations, timeouts, full queues and partitions anywhere: no member's core has its
  durability gate violated, and no member has two discharges in progress.\<close>

lemma async_cluster_keeps_contract:
  assumes "core_gate (ad_core ad)"
    and "async_cluster_init ad sz conf tick options clock epoch = (Inr c0, epoch')" and "async_path ad c0 c"
    and "map_of (am_sessions c) m = Some s"
  shows "(\<forall>h. nd_handle (sn_node (as_sync s)) = Some h \<longrightarrow> \<not> hd_violated h)
    \<and> (\<forall>w w' b b'. w < length (as_works s) \<and> w' < length (as_works s) \<and> as_works s ! w = Discharging b
        \<and> as_works s ! w' = Discharging b' \<longrightarrow> w = w')"
proof -
  obtain sync where sync: "session_ok (ad_core ad) sync" "aio_path ad (aio_init sync) s"
    using started_inv [OF assms(2,3)] assms(4) by (auto simp: async_inv_def member_ok_def)
  have w: "works_inv ad s" by (rule works_inv_path [OF sync(2) works_inv_init [OF sync(1)]])
  have "\<not> hd_violated h" if "nd_handle (sn_node (as_sync s)) = Some h" for h
  proof -
    have "bridge_reachable (ad_core ad) h" using w that by (simp add: works_inv_def node_ok_def)
    from bridge_inv_reachable [OF this assms(1)] show ?thesis by (simp add: bridge_inv_def)
  qed
  then show ?thesis using w unfolding works_inv_def by blast
qed

text \<open>C18: What travels between the members of an asyncio cluster is well formed. Whatever they do, every frame in
  a queue was sent by a member and is the encoding of an envelope for the member whose queue it is; unless
  that envelope names the sender 0, \<^verbatim>\<open>decode\<close> accepts it with the ids it was given, so no receiver is ended
  by it; and no queue holds more than 4096 frames.\<close>

theorem async_frames_well_formed:
  assumes "async_cluster_init ad sz conf tick options clock epoch = (Inr c0, epoch')" and "async_path ad c0 c"
    and "map_of (af_queues (am_fabric c)) m = Some q" and "(sender, frame) \<in> set q"
  shows "length q \<le> 4096 \<and> map_of (am_sessions c) sender \<noteq> None
    \<and> (\<exists>env. encode (ad_fingerprint ad) env = Inr frame \<and> ev_recipient env = m
        \<and> (ev_sender env \<noteq> 0 \<longrightarrow> (\<exists>env'. decode (ad_fingerprint ad) frame = Inr env' \<and> wire_in_range env'
             \<and> ev_sender env' = ev_sender env \<and> ev_recipient env' = m)))"
proof -
  note i = async_inv_init [OF assms(1)]
  note p = async_path_depth [OF assms(2) conjunct1 [OF i]]
  have q: "queue_ok (ad_fingerprint ad) 4096 (dom (map_of (am_sessions c))) m q"
    using p assms(3) i unfolding async_inv_def queues_ok_def by metis
  then obtain env where "encode (ad_fingerprint ad) env = Inr frame" "ev_recipient env = m" "1 \<le> m"
    using assms(4) by (force simp: queue_ok_def carries_def)
  moreover from this have "\<exists>env'. decode (ad_fingerprint ad) frame = Inr env' \<and> wire_in_range env'
      \<and> ev_sender env' = ev_sender env \<and> ev_recipient env' = m" if "ev_sender env \<noteq> 0"
    using encode_decodes [of "ad_fingerprint ad" env frame] that by auto
  ultimately show ?thesis using q assms(4) by (fastforce simp: queue_ok_def)
qed

lemma appended_by:
  fixes ad :: "('c, 'k) async_adapters"
  assumes "async_step ad c (Appended t r) c'"
  shows "\<exists>m v s s'. am_calls c t = Appending m v \<and> map_of (am_sessions c) m = Some s
    \<and> aio_step ad s (Returned t (Some r)) s' \<and> map_of (am_sessions c') m = Some s'"
proof -
  have l: "lead_on u n goal c2 \<noteq> (Appended t r, c1)" for u n goal and c2 c1 :: "('c, 'k) async_cluster"
    by (auto simp: lead_on_def split: option.splits sum.splits prod.splits)
  have st: "settle ad u n goal c2 \<noteq> (Appended t r, c1)" for u n goal and c2 c1 :: "('c, 'k) async_cluster"
    using l by (auto simp: settle_def split: option.splits sum.splits)
  have el: "call_elect ad u n goal c2 \<noteq> (Appended t r, c1)" for u n goal and c2 c1 :: "('c, 'k) async_cluster"
    using l by (auto simp: call_elect_def Let_def split: option.splits sum.splits)
  have ev: "\<exists>v. ev = Returned t (Some r) \<and> am_calls c2 t = Appending m v \<and> c1 = set_call t Free c2"
    if "after_event ad m ev c2 = (Appended t r, c1)" for m ev c2 c1
    using that by (cases ev) (auto simp: st split: call.splits option.splits if_splits)
  have *: ?thesis if "map_of (am_sessions c) m = Some s" "aio_act ad s net e s'"
    "after_event ad m e (set_member m s' (c\<lparr>am_fabric := f\<rparr>)) = (Appended t r, c')" for m s net e s' f
    using ev [OF that(3)] that(1) aio_stepI [OF that(2)]
    by (auto simp: set_call_def set_member_def update_conv' intro!: exI [of _ m])
  show ?thesis using assms
  proof (cases rule: async_step.cases)
    case (local m s ev s')
    then show ?thesis using * [of m s Silent ev s' "am_fabric c"] by simp
  next
    case (queue_full m s peer frame ev s')
    then show ?thesis using * [of m s _ ev s' "am_fabric c"] by simp
  qed (auto dest: * simp: st el)
qed


end
