(* ===== verification/Aio_Samples.thy ===== *)
theory Aio_Samples
  imports Aio_Laws Session_Samples
begin

section \<open>Runs of an asyncio session to check the theorems on\<close>

abbreviation sample_job :: job where "sample_job \<equiv> Job_Append [104, 105] 1"

definition aio_started :: "(c_entry list, mem_journal, mem_history, rat) aio" where
  "aio_started = set_co 0 Idle (set_co 1 Idle (aio_init log_session))"

definition aio_began :: "(c_entry list, mem_journal, mem_history, rat) aio" where
  "aio_began = set_co 2 (Shielded sample_job (fst log_begin) 0) ((aio_init log_session)\<lparr>as_serial := Some 2,
     as_sync := log_session\<lparr>sn_node := snd log_begin\<rparr>, as_works := [Discharging (fst log_begin)]\<rparr>)"

lemma aio_started_path: "aio_path log_ad (aio_init log_session) aio_started"
  unfolding aio_started_def by (rule path_step, rule aio_stepI [OF start]) (simp_all add: aio_init_def)

lemma log_proposed:
  "node_propose log_core [104, 105] (sn_node log_session) = (Inr (fst log_begin), snd log_begin)"
proof -
  have "is_ok (entry_for [104, 105])" by code_simp
  then have "entry_for [104, 105] = Inr log_proposal" by (auto simp: log_proposal_def is_ok_iff)
  moreover obtain b n where l: "log_begin = (b, n)" "node_begin log_core (T_Propose log_proposal) (sn_node log_session) = (Inr b, n)"
    by (rule log_begun)
  ultimately show ?thesis unfolding l(1) by (simp add: node_propose_def with_arg_def)
qed

lemma aio_began_path: "aio_path log_ad (aio_init log_session) aio_began"
proof -
  have 1: "aio_step log_ad (aio_init log_session) Quiet (set_co 2 (Queued sample_job) (aio_init log_session))"
    by (rule aio_stepI [OF append [where timeout = "Fin 1"]]) (simp_all add: aio_init_def check_timeout_def)
  have "aio_step log_ad (set_co 2 (Queued sample_job) (aio_init log_session)) Quiet aio_began"
    using aio_stepI [OF transition [of "set_co 2 (Queued sample_job) (aio_init log_session)" 2 sample_job log_ad]] log_proposed
    by (simp add: aio_began_def set_co_def aio_init_def log_core_of)
  from aio_path.step [OF path_step [OF 1] this] show ?thesis .
qed

lemma log_ready: "core_gate (ad_core log_ad)" "session_ok (ad_core log_ad) log_session"
  using log_core_gate session_reachable_ok [OF log_reachable] by (simp_all add: log_core_of)



theorem malformed_frame_stops_session_witness:
  "\<exists>e s1. aio_step log_ad aio_started (Raised 0 e) s1
    \<and> (\<forall>s2. aio_path log_ad s1 s2 \<longrightarrow> as_closing s2 = Opened \<and> (\<exists>e. as_co s2 0 = Dead e))"
proof -
  have "\<not> is_ok (decode (ad_fingerprint log_ad) [1, 2, 3])" by code_simp
  then obtain e where e: "decode (ad_fingerprint log_ad) [1, 2, 3] = Inl e"
    by (cases "decode (ad_fingerprint log_ad) [1, 2, 3]") auto
  have "as_closing aio_started = Opened" "as_co aio_started 0 = Idle"
    by (simp_all add: aio_started_def aio_init_def set_co_def)
  from malformed_frame_stops_session [OF this e] show ?thesis by blast
qed

text \<open>A step that ends an append with a receipt for a slot.\<close>

definition receives :: "task \<Rightarrow> slot \<Rightarrow> (event \<times> 's) option \<Rightarrow> bool" where
  "receives t slot y = (case y of Some (Returned u (Some r), _) \<Rightarrow> u = t \<and> rc_slot r = slot | _ \<Rightarrow> False)"

lemma receivesE: "receives t slot y \<Longrightarrow> \<exists>r s. y = Some (Returned t (Some r), s) \<and> rc_slot r = slot"
  by (cases y; cases "fst (the y)") (auto simp: receives_def split: option.splits)

end
