(* ===== verification/Async_Samples.thy ===== *)
theory Async_Samples
  imports Async_Cluster_Laws Cluster_Samples Aio_Samples
begin

section \<open>A run of an asyncio cluster to check the theorems on\<close>

text \<open>Steps of one member chosen by a schedule: a transition, the two steps of a worker, and \<^verbatim>\<open>_flush\<close>.\<close>

definition do_begin :: "('c, 'j, 'h, 'k) aio_ad \<Rightarrow> task \<Rightarrow> ('c, 'j, 'h, 'k) aio \<Rightarrow> ('c, 'j, 'h, 'k) aio option" where
  "do_begin ad t s = (case (as_co s t, as_serial s) of
     (Queued job, None) \<Rightarrow> (case job_begin (ad_core ad) job (sn_node (as_sync s)) of
        (Inr b, n) \<Rightarrow> Some (set_co t (Shielded job b (length (as_works s)))
          (s\<lparr>as_serial := Some t, as_sync := (as_sync s)\<lparr>sn_node := n\<rparr>, as_works := as_works s @ [Discharging b]\<rparr>))
      | (Inl e, n) \<Rightarrow> None)
   | _ \<Rightarrow> None)"

definition do_work :: "('c, 'j, 'h, 'k) aio_ad \<Rightarrow> nat \<Rightarrow> ('c, 'j, 'h, 'k) aio \<Rightarrow> ('c, 'j, 'h, 'k) aio option" where
  "do_work ad w s = (if w < length (as_works s) then (case as_works s ! w of
       Discharging b \<Rightarrow> (case discharge_main (queueing ad) b (as_sync s) of
          Some (r, sync) \<Rightarrow> Some (s\<lparr>as_sync := sync,
            as_works := (as_works s)[w := (case r of Inl e \<Rightarrow> Done (Inl e) | Inr _ \<Rightarrow> Flooring)]\<rparr>)
        | None \<Rightarrow> None)
     | Flooring \<Rightarrow> (case discharge_floor (queueing ad) (as_sync s) of
          Some (r, sync) \<Rightarrow> Some (s\<lparr>as_sync := sync, as_works := (as_works s)[w := Done r]\<rparr>)
        | None \<Rightarrow> None)
     | Done r \<Rightarrow> None) else None)"

definition do_flush :: "('c, 'j, 'h, 'k) aio_ad \<Rightarrow> task \<Rightarrow> ('c, 'j, 'h, 'k) aio \<Rightarrow> ('c, 'j, 'h, 'k) aio option" where
  "do_flush ad t s = (case as_co s t of
     Shielded job b w \<Rightarrow>
       if w < length (as_works s) then (case as_works s ! w of
          Done (Inr u) \<Rightarrow> (case flush_on ad t job b s of Some (Quiet, s') \<Rightarrow> Some s' | _ \<Rightarrow> None)
        | _ \<Rightarrow> None) else None
   | _ \<Rightarrow> None)"

definition quiet_act :: "('c, 'j, 'h, 'k) aio_ad \<Rightarrow> ('c, 'j, 'h, 'k) aio \<Rightarrow> ('c, 'j, 'h, 'k) aio \<Rightarrow> bool" where
  "quiet_act ad s s' = aio_act ad s Silent Quiet s'"

lemma do_work_sound: "do_work ad w s = Some s' \<Longrightarrow> quiet_act ad s s'"
proof -
  assume d: "do_work ad w s = Some s'"
  then have w: "w < length (as_works s)" by (auto simp: do_work_def split: if_splits)
  show ?thesis
  proof (cases "as_works s ! w")
    case (Discharging b)
    then obtain r sync where "discharge_main (queueing ad) b (as_sync s) = Some (r, sync)"
      using d w by (auto simp: do_work_def split: option.splits)
    from worker [OF w Discharging this] this show ?thesis using d w Discharging by (simp add: do_work_def quiet_act_def)
  next
    case Flooring
    then obtain r sync where "discharge_floor (queueing ad) (as_sync s) = Some (r, sync)"
      using d w by (auto simp: do_work_def split: option.splits)
    from worker_floor [OF w Flooring this] this show ?thesis using d w Flooring by (simp add: do_work_def quiet_act_def)
  qed (use d w in \<open>simp add: do_work_def\<close>)
qed

lemma do_sound:
  "do_begin ad t s = Some s' \<Longrightarrow> quiet_act ad s s'" "do_flush ad t s = Some s' \<Longrightarrow> quiet_act ad s s'"
  unfolding quiet_act_def
  by (auto simp: do_begin_def do_flush_def intro: aio_act.intros
      split: coroutine.splits option.splits prod.splits sum.splits work.splits event.splits if_splits)

lemma set_member_twice: "set_member m s' (set_member m s c) = set_member m s' c"
proof -
  have "AList.update k v' (AList.update k v al) = AList.update k v' al" for k :: node_id and v v' and al :: "(node_id \<times> 'a) list"
    by (induction al) auto
  then show ?thesis by (simp add: set_member_def)
qed

lemma member_get_set: "map_of (am_sessions (set_member m s c)) m = Some s"
  by (simp add: set_member_def update_conv')

lemma quiet_path:
  assumes "(quiet_act ad)\<^sup>*\<^sup>* s s'" and "async_path ad c0 (set_member m s c)"
  shows "async_path ad c0 (set_member m s' c)"
  using assms
proof (induction rule: rtranclp_induct)
  case (step s1 s2)
  have "async_step ad (set_member m s1 c) Nothing (set_member m s2 c)"
    by (rule local [OF member_get_set, of ad s1 Quiet s2]) (use step(2) in \<open>simp_all add: quiet_act_def set_member_twice\<close>)
  then show ?case using step async_path.step by blast
qed simp

subsection \<open>The run\<close>

definition async_sample_ad :: "(c_entry list, rat) async_adapters" where
  "async_sample_ad = async_ad lead_core 5 (\<lambda>k. (Inr k, k)) (\<lambda>d k. (Inr (), k + max d 0))"

definition async_start :: "(c_entry list, rat) async_cluster" where
  "async_start = (case fst (async_cluster_init async_sample_ad 2 1 (Fin (1 / 20)) log_options 0 7) of
     Inr c \<Rightarrow> c | Inl _ \<Rightarrow> undefined)"

definition async_called :: "(c_entry list, rat) async_cluster" where
  "async_called = snd (call_elect async_sample_ad 2 None (Some ([104, 105], Fin 1)) async_start)"

definition schedule :: "(c_entry list, rat) async_member \<Rightarrow> (c_entry list, rat) async_member option" where
  "schedule s = Option.bind (do_begin async_sample_ad 2 s) (\<lambda>s. Option.bind (do_work async_sample_ad 0 s) (\<lambda>s.
     Option.bind (do_work async_sample_ad 0 s) (do_flush async_sample_ad 2)))"

text \<open>Sending the frame that is being flushed, which ends the append.\<close>

definition send_ends :: "(c_entry list, rat) async_member \<Rightarrow> bool" where
  "send_ends s = (case as_co s 2 of
     Flushing job b pf \<Rightarrow> fst pf = 2 \<and> receives 2 1 (flush_on async_sample_ad 2 job b (s\<lparr>as_network := as_network s @ [pf]\<rparr>))
       \<and> is_ok (decode 5 (snd pf))
   | _ \<Rightarrow> False)"

definition is_idle :: "coroutine \<Rightarrow> bool" where
  "is_idle c = (case c of Idle \<Rightarrow> True | _ \<Rightarrow> False)"

lemma is_idleD: "is_idle c \<Longrightarrow> c = Idle"
  by (cases c) (simp_all add: is_idle_def)

lemma async_runs:
  "is_ok (fst (async_cluster_init async_sample_ad 2 1 (Fin (1 / 20)) log_options 0 7))"
  "case fst (call_elect async_sample_ad 2 None (Some ([104, 105], Fin 1)) async_start) of Nothing \<Rightarrow> True | _ \<Rightarrow> False"
  "case am_calls async_called 2 of Appending m v \<Rightarrow> m = 1 \<and> v = [104, 105] | _ \<Rightarrow> False"
  "list_all (\<lambda>(m, s). is_idle (as_co s 2)) (am_sessions async_start)"
  "case map_of (am_sessions async_called) 1 of None \<Rightarrow> False
     | Some s \<Rightarrow> (case schedule s of None \<Rightarrow> False | Some s' \<Rightarrow> send_ends s')"
  "case map_of (af_queues (am_fabric async_called)) 2 of Some q \<Rightarrow> q = [] | None \<Rightarrow> False"
  "af_depth (am_fabric async_called) = 4096"
  "case am_calls async_start 2 of Free \<Rightarrow> True | _ \<Rightarrow> False"
  by code_simp+


lemma schedule_quiet: "schedule s = Some s' \<Longrightarrow> (quiet_act async_sample_ad)\<^sup>*\<^sup>* s s'"
  unfolding schedule_def
  by (auto split: Option.bind_splits dest!: do_sound do_work_sound intro: converse_rtranclp_into_rtranclp)

lemma async_opened:
  obtains epoch where "async_cluster_init async_sample_ad 2 1 (Fin (1 / 20)) log_options 0 7 = (Inr async_start, epoch)"
  using async_runs(1) by (cases "async_cluster_init async_sample_ad 2 1 (Fin (1 / 20)) log_options 0 7")
     (auto simp: async_start_def is_ok_iff)

lemma async_called_path: "async_path async_sample_ad async_start async_called"
proof -
  have "call_elect async_sample_ad 2 None (Some ([104, 105], Fin 1)) async_start = (Nothing, async_called)"
    using async_runs(2)
    by (cases "call_elect async_sample_ad 2 None (Some ([104, 105], Fin 1)) async_start")
       (auto simp: async_called_def split: call_event.splits)
  moreover have "am_calls async_start 2 = Free"
    using async_runs(8) by (auto split: call.splits)
  moreover have "\<forall>(m, s) \<in> set (am_sessions async_start). as_co s 2 = Idle"
    using async_runs(4) unfolding list_all_iff by (blast dest: is_idleD)
  ultimately have "async_step async_sample_ad async_start Nothing async_called"
    by (intro async_step.call_elect [where t = 2]) auto
  then show ?thesis using async_path.here async_path.step by blast
qed

text \<open>Member 1 has discharged its batch and sends the frame, which ends the append with its receipt.\<close>

lemma async_sample_run:
  obtains c r c' frame where "async_path async_sample_ad async_start c"
    and "async_step async_sample_ad c (Appended 2 r) c'" and "rc_slot r = 1" and "am_calls c 2 = Appending 1 [104, 105]"
    and "map_of (af_queues (am_fabric c')) 2 = Some [(1, frame)]" and "is_ok (decode 5 frame)"
proof -
  obtain s0 s1 where s: "map_of (am_sessions async_called) 1 = Some s0" "schedule s0 = Some s1" "send_ends s1"
    using async_runs(5) by (auto split: option.splits)
  have calls: "am_calls async_called 2 = Appending 1 [104, 105]" using async_runs(3) by (auto split: call.splits)
  have same: "set_member 1 s0 async_called = async_called"
  proof -
    have "AList.update k v al = al" if "map_of al k = Some v" for k :: node_id and v :: "(c_entry list, rat) async_member" and al
      using that by (induction al) (auto split: if_splits)
    then show ?thesis using s(1) by (simp add: set_member_def)
  qed
  let ?c = "set_member 1 s1 async_called"
  have p: "async_path async_sample_ad async_start ?c"
    by (rule quiet_path [OF schedule_quiet [OF s(2)]]) (simp add: same async_called_path)
  obtain job b pf where f: "as_co s1 2 = Flushing job b pf" "fst pf = 2" "is_ok (decode 5 (snd pf))"
    "receives 2 1 (flush_on async_sample_ad 2 job b (s1\<lparr>as_network := as_network s1 @ [pf]\<rparr>))"
    using s(3) by (auto simp: send_ends_def split: coroutine.splits)
  then obtain r s2 where r: "flush_on async_sample_ad 2 job b (s1\<lparr>as_network := as_network s1 @ [pf]\<rparr>)
      = Some (Returned 2 (Some r), s2)" "rc_slot r = 1" by (blast dest: receivesE)
  let ?f = "(am_fabric async_called)\<lparr>af_queues := AList.update 2 [(1, snd pf)] (af_queues (am_fabric async_called))\<rparr>"
  have q: "map_of (af_queues (am_fabric async_called)) 2 = Some []" using async_runs(6) by (auto split: option.splits)
  have "af_partitioned (am_fabric async_called) = {}" by code_simp
  then have send: "async_send 1 2 (snd pf) (am_fabric ?c) = Inr ?f"
    using q async_runs(7) by (simp add: async_send_def put_nowait_def set_member_def)
  let ?c1 = "set_member 1 s2 (?c\<lparr>am_fabric := ?f\<rparr>)"
  have "async_step async_sample_ad ?c (Appended 2 r) (set_call 2 Free ?c1)"
  proof (rule put [OF member_get_set])
    show "aio_act async_sample_ad s1 (Put 2 (snd pf)) (Returned 2 (Some r)) s2" using sent [OF f(1) r(1)] f(2) by simp
    show "after_event async_sample_ad 1 (Returned 2 (Some r)) ?c1 = (Appended 2 r, set_call 2 Free ?c1)"
      using calls by (simp add: set_member_def)
  qed (rule send)
  then show thesis
    by (rule that [OF p]) (use r(2) calls f(3) in \<open>simp_all add: set_member_def set_call_def update_conv'\<close>)
qed

lemma async_sample_gate: "core_gate (ad_core async_sample_ad)"
  using lead_core_gate by (simp add: async_sample_ad_def async_ad_def)

theorem async_frames_well_formed_witness:
  "\<exists>c frame env. async_path async_sample_ad async_start c \<and> map_of (af_queues (am_fabric c)) 2 = Some [(1, frame)]
    \<and> map_of (am_sessions c) 1 \<noteq> None \<and> encode 5 env = Inr frame \<and> ev_recipient env = 2 \<and> is_ok (decode 5 frame)"
proof -
  obtain epoch where o: "async_cluster_init async_sample_ad 2 1 (Fin (1 / 20)) log_options 0 7 = (Inr async_start, epoch)"
    by (rule async_opened)
  obtain c r c' frame where a: "async_path async_sample_ad async_start c" "async_step async_sample_ad c (Appended 2 r) c'"
    "map_of (af_queues (am_fabric c')) 2 = Some [(1, frame)]" "is_ok (decode 5 frame)" by (rule async_sample_run)
  have p: "async_path async_sample_ad async_start c'" by (rule async_path.step [OF a(1,2)])
  have "(1, frame) \<in> set [(1 :: int, frame)]" by simp
  from async_frames_well_formed [OF o p a(3) this] p a(3,4) show ?thesis
    by (auto simp: async_sample_ad_def async_ad_def)
qed


end
