(* ===== verification/Counter.thy ===== *)
theory Counter
  imports Cluster_Laws
begin

section \<open>The replicated counter of \<^verbatim>\<open>examples/counter.py\<close>\<close>

text \<open>
  A client of a cluster: every command is a signed delta, eight bytes in big-endian two's complement, and
  the counter of a member is the sum of the deltas among its released entries.
\<close>

subsection \<open>Commands\<close>

text \<open>\<^verbatim>\<open>_DELTA.pack\<close> and \<^verbatim>\<open>_DELTA.unpack\<close>, with the format \<^verbatim>\<open>>q\<close>.\<close>

definition encode_delta :: "int \<Rightarrow> exn + bytes" where
  "encode_delta delta =
     (if -9223372036854775808 \<le> delta \<and> delta < 9223372036854775808 then Inr (be_bytes 8 delta) else Inl StructError)"

definition decode_delta :: "bytes \<Rightarrow> exn + int" where
  "decode_delta b =
     (if length b \<noteq> 8 then Inl StructError
      else let v = be_int b in Inr (if v < 9223372036854775808 then v else v - 18446744073709551616))"

lemma decode_encoded: "encode_delta delta = Inr b \<Longrightarrow> decode_delta b = Inr delta"
proof -
  assume e: "encode_delta delta = Inr b"
  then have d: "-9223372036854775808 \<le> delta" "delta < 9223372036854775808" and b: "b = be_bytes 8 delta"
    by (auto simp: encode_delta_def split: if_splits)
  have m: "be_int b = delta mod 18446744073709551616" unfolding b be_int_be_bytes_mod by simp
  show ?thesis
  proof (cases "0 \<le> delta")
    case True
    then have "delta mod 18446744073709551616 = delta" using d by simp
    then show ?thesis using d m by (simp add: decode_delta_def b)
  next
    case False
    have "delta mod 18446744073709551616 = (delta + 18446744073709551616) mod 18446744073709551616" by simp
    also have "\<dots> = delta + 18446744073709551616" by (rule mod_pos_pos_trivial) (use d False in simp_all)
    finally show ?thesis using d m False by (simp add: decode_delta_def b)
  qed
qed

interpretation delta: round_trip encode_delta decode_delta "\<lambda>d. -9223372036854775808 \<le> d \<and> d < 9223372036854775808"
  by unfold_locales (auto simp: encode_delta_def intro!: decode_encoded)

subsection \<open>Folding the log\<close>

fun fold_log :: "committed list \<Rightarrow> int \<Rightarrow> exn + int" where
  "fold_log [] tot = Inr tot"
| "fold_log (entry # es) tot =
     (if le_kind (cm_entry entry) = EK_COMMAND
      then bindE (decode_delta (le_body (cm_entry entry))) (\<lambda>delta. fold_log es (tot + delta))
      else fold_log es tot)"

definition apply_log :: "'c core_ops \<Rightarrow> int \<Rightarrow> node_id \<Rightarrow> ('c, int) cluster_prog" where
  "apply_log core fp node_id = seq (cluster_committed core fp node_id 256) (\<lambda>es. lift_result (fold_log es 0))"

text \<open>\<^verbatim>\<open>main\<close>, with what it prints; its assertion is the last comparison.\<close>

fun append_deltas :: "'c core_ops \<Rightarrow> int \<Rightarrow> int list \<Rightarrow> ('c, (slot \<times> int \<times> int) list) cluster_prog" where
  "append_deltas core fp [] = ret []"
| "append_deltas core fp (delta # ds) =
     seq (lift_result (encode_delta delta)) (\<lambda>value.
     seq (cluster_append core fp value (Fin 5)) (\<lambda>receipt.
     seq (apply_log core fp 1) (\<lambda>counter.
     seq (append_deltas core fp ds) (\<lambda>lines. ret ((rc_slot receipt, delta, counter) # lines)))))"

fun all_totals :: "'c core_ops \<Rightarrow> int \<Rightarrow> node_id list \<Rightarrow> ('c, (node_id \<times> int) list) cluster_prog" where
  "all_totals core fp [] = ret []"
| "all_totals core fp (m # ms) =
     seq (apply_log core fp m) (\<lambda>tot. seq (all_totals core fp ms) (\<lambda>totals. ret ((m, tot) # totals)))"

datatype counter_result = Agreed "(slot \<times> int \<times> int) list" "(node_id \<times> int) list" | Assertion_Error "(node_id \<times> int) list"

definition counter_main :: "'c core_ops \<Rightarrow> int \<Rightarrow> ('c, counter_result) cluster_prog" where
  "counter_main core fp =
     finally_do
       (seq (cluster_elect core fp None 64) (\<lambda>leader.
        seq (on_member leader (session_state (cluster_ad core fp))) (\<lambda>_.
        seq (append_deltas core fp [10, 25, -5]) (\<lambda>lines.
        seq (get cl_members) (\<lambda>members.
        seq (all_totals core fp members) (\<lambda>totals.
          ret (if card (set (map snd totals)) = 1 then Agreed lines totals else Assertion_Error totals)))))))
       (cluster_close core fp)"

subsection \<open>What the counter counts\<close>

abbreviation commands :: "committed list \<Rightarrow> bytes list" where
  "commands es \<equiv> map (le_body \<circ> cm_entry) (filter (\<lambda>e. le_kind (cm_entry e) = EK_COMMAND) es)"

lemma fold_log_eq:
  "fold_log es tot = bindE (mapE decode_delta (commands es)) (\<lambda>ds. Inr (tot + sum_list ds))"
  by (induction es arbitrary: tot) (auto simp: bindE_def split: sum.splits)

text \<open>However the deltas stand in the log, with whatever holes and other records between them, they are counted.\<close>

lemma fold_encoded:
  assumes "mapE encode_delta ds = Inr (commands es)"
  shows "fold_log es tot = Inr (tot + sum_list ds)"
proof -
  have "mapE encode_delta ds = Inr bs \<Longrightarrow> mapE decode_delta bs = Inr ds" for bs
    by (induction ds arbitrary: bs) (auto simp: bindE_def dest: decode_encoded split: sum.splits)
  from this [OF assms] show ?thesis by (simp add: fold_log_eq bindE_def)
qed

text \<open>The counter of a member is the sum of the deltas among the first 256 slots it has released. When
  \<^verbatim>\<open>apply_log\<close> returns, the member reported some slot \<open>d\<close> as released; the entries counted have the slots from 1 on
  without gaps, at most to 256 whatever \<open>d\<close> is, and each is the one the member held; every command among them
  is an eight-byte delta, no other kind of entry is counted, and the result is the exact sum, which does not
  wrap.\<close>

lemma counter_is_sum:
  assumes "apply_log core fp m c = Some (Inr tot, c')"
  shows "\<exists>s s1 d es ds. last_committed (cluster_ad core fp) s = Some (Inr d, s1)
    \<and> map cm_slot es = take (length es) [1..min d 256]
    \<and> (\<forall>e\<in>set es. \<exists>s1 s2. entry_at (cluster_ad core fp) (cm_slot e) s1 = Some (Inr (Some (cm_entry e)), s2))
    \<and> mapE decode_delta (commands es) = Inr ds \<and> tot = sum_list ds"
proof -
  let ?ad = "cluster_ad core fp"
  obtain es c1 where e: "on_member m (committed_since ?ad 1 256) c = Some (Inr es, c1)" and f: "fold_log es 0 = Inr tot"
    using assms by (auto simp: apply_log_def cluster_committed_def seq_Some_iff lift_result_def)
  obtain s s' where "session_entries ?ad 1 (Some 256) s = Some (Inr es, s')"
    using e by (rule on_member_Some) (auto simp: committed_since_def)
  then obtain d s1 where d: "last_committed ?ad s = Some (Inr d, s1)"
    and es: "entries_from ?ad [1..min d 256] s1 = Some (Inr es, s')"
    by (auto simp: session_entries_def seq_Some_iff)
  obtain ds where "mapE decode_delta (commands es) = Inr ds" "tot = sum_list ds"
    using f by (auto simp: fold_log_eq bindE_eq_Inr)
  then show ?thesis using d entries_from_facts [OF es] by blast
qed

text \<open>So a log longer than 256 slots is not counted to its end, although \<^verbatim>\<open>apply_log\<close> is documented to fold the
  member's released prefix: a member that holds and has released 257 increments counts 256.\<close>

lemma retained_entry:
  assumes "fmlookup (mh_entries (sn_history s)) slot = Some (payload, 1)"
  shows "entry_at (cluster_ad core fp) slot s = Some (Inr (Some (mk_entry EK_COMMAND payload)), s)"
proof -
  have "mh_read slot 1 (sn_history s) = [(slot, payload, 1)]"
    using assms by (simp add: mh_read_def read_retained_def List.map_filter_simps)
  then have "on_history (ad_read (cluster_ad core fp) slot 1) s = Some (Inr [(slot, payload, 1)], s)"
    by (simp add: cluster_ad_def on_history_def call_on_def)
  moreover have "call_enum entry_kind_value all_entry_kinds 1 = Inr EK_COMMAND" by code_simp
  ultimately show ?thesis by (simp add: entry_at_def seq_def lift_result_def ret_def)
qed

lemma long_log_cut:
  assumes "map_of (cl_sessions c) m = Some s"
    and "last_committed (cluster_ad core fp) (load_member m c s) = Some (Inr 257, load_member m c s)"
    and "\<forall>k \<in> {1..257}. fmlookup (mh_entries (sn_history s)) k = Some (be_bytes 8 1, 1)"
  shows "\<exists>c'. apply_log core fp m c = Some (Inr 256, c')"
proof -
  let ?e = "mk_entry EK_COMMAND (be_bytes 8 1)"
  let ?t = "load_member m c s"
  have "entry_at (cluster_ad core fp) slot ?t = Some (Inr (Some ?e), ?t)" if "slot \<in> {1..257}" for slot
    using assms(3) that by (intro retained_entry) (simp add: load_member_def)
  then have all: "set slots \<subseteq> {1..257} \<Longrightarrow> entries_from (cluster_ad core fp) slots ?t
      = Some (Inr (map (\<lambda>slot. \<lparr>cm_slot = slot, cm_entry = ?e\<rparr>) slots), ?t)" for slots
    by (induction slots) (auto simp: seq_def ret_def)
  have "decode_delta (be_bytes 8 1) = Inr 1" by (rule decode_encoded) (simp add: encode_delta_def)
  then have "fold_log (map (\<lambda>slot. \<lparr>cm_slot = slot, cm_entry = ?e\<rparr>) slots) tot = Inr (tot + int (length slots))"
    for slots tot by (induction slots arbitrary: tot) (auto simp: mk_entry_def bindE_def)
  from this [of "[1..256]" 0] all [of "[1..256]"] show ?thesis
    using assms(1,2)
    by (simp add: apply_log_def cluster_committed_def committed_since_def session_entries_def on_member_def seq_def lift_result_def)
qed

end
