(* ===== verification/Exports.thy ===== *)
theory Exports
  imports Abi Decode
begin

section \<open>The names of the package: \<^verbatim>\<open>__init__.py\<close>\<close>

text \<open>
  What \<^verbatim>\<open>import paxodin\<close> binds, by module, under the name it gets in the package; the functions the package
  defines itself; and \<^verbatim>\<open>__all__\<close>.
\<close>

definition IMPORTS :: "(string \<times> string list) list" where
  "IMPORTS =
     [(''paxodin._decode'',
       [''_decode_profile'']),
      (''paxodin._native'',
       [''EXPECTED_ABI_VERSION'', ''PROFILE'', ''capabilities'', ''core_version'', ''explain'']),
      (''paxodin._native'',
       [''status_count'']),
      (''paxodin.aio'',
       [''AsyncSession'', ''AsyncTransport'']),
      (''paxodin.errors'',
       [''AbandonedBatch'', ''BatchError'', ''BatchFinished'', ''BatchPending'', ''CommitTimeout'',
        ''ConfigurationMismatch'', ''ForeignToken'', ''ForkedHandle'', ''HandleClosed'',
        ''InvalidArgument'', ''InvalidTimeout'', ''JournalCorrupt'', ''JournalNotOpen'', ''LogSealed'',
        ''NoBatch'', ''NotLeader'', ''PaxodinError'', ''ProposalLost'', ''ProtocolError'',
        ''ReentrantCall'', ''StaleToken'', ''StorageError'', ''TransportError'', ''Trimmed'',
        ''UnsupportedCapability'', ''UsageError'', ''ValueTooLarge'', ''WindowFull'',
        ''WritesNotCopied'', ''WritesUnconfirmed'']),
      (''paxodin.models'',
       [''Accept'', ''Accepted'', ''BatchPhase'', ''CellState'', ''Commit'', ''Committed'',
        ''EntryKind'', ''Envelope'', ''Heartbeat'', ''Learn'', ''LogEntry'', ''Message'',
        ''MessageKind'', ''Nack'', ''NodeId'', ''NodeOptions'', ''NodeState'', ''Prepare'',
        ''PrepareScope'', ''Profile'', ''Promise'', ''PromiseRange'', ''Receipt'', ''Role'',
        ''ServeRange'', ''SessionOptions'', ''Slot'', ''StopSign'', ''WriteKind'', ''WriteRecord'']),
      (''paxodin.node'',
       [''AbandonedWritesWarning'', ''Node'', ''PendingBatch'']),
      (''paxodin.protocols'',
       [''Clock'', ''History'', ''Journal'', ''Transport'']),
      (''paxodin.session'',
       [''DEFAULT_ELECTION_TIMEOUT'', ''DEFAULT_HEARTBEAT_INTERVAL'', ''DEFAULT_RESEND_INTERVAL'',
        ''DEFAULT_TICK_INTERVAL'', ''Session'']),
      (''paxodin.storage'',
       [''FileHistory'', ''FileJournal'', ''MemoryHistory'', ''MemoryJournal''])]"

definition package_version :: string where "package_version = ''0.2.0''"

definition abi_version :: int where "abi_version = EXPECTED_ABI_VERSION"

text \<open>\<^verbatim>\<open>profile\<close>, of the native profile that importing the library leaves in \<^verbatim>\<open>PROFILE\<close>.\<close>

definition package_profile :: "c_profile \<Rightarrow> profile" where "package_profile PROFILE = decode_profile PROFILE"

definition package_all :: "string list" where
  "package_all =
     [''DEFAULT_ELECTION_TIMEOUT'', ''DEFAULT_HEARTBEAT_INTERVAL'', ''DEFAULT_RESEND_INTERVAL'',
      ''DEFAULT_TICK_INTERVAL'', ''AbandonedBatch'', ''AbandonedWritesWarning'', ''Accept'',
      ''Accepted'', ''AsyncSession'', ''AsyncTransport'', ''BatchError'', ''BatchFinished'',
      ''BatchPending'', ''BatchPhase'', ''CellState'', ''Clock'', ''Commit'', ''CommitTimeout'',
      ''Committed'', ''ConfigurationMismatch'', ''EntryKind'', ''Envelope'', ''FileHistory'',
      ''FileJournal'', ''ForeignToken'', ''ForkedHandle'', ''HandleClosed'', ''Heartbeat'',
      ''History'', ''InvalidArgument'', ''InvalidTimeout'', ''Journal'', ''JournalCorrupt'',
      ''JournalNotOpen'', ''Learn'', ''LogEntry'', ''LogSealed'', ''MemoryHistory'', ''MemoryJournal'',
      ''Message'', ''MessageKind'', ''Nack'', ''NoBatch'', ''Node'', ''NodeId'', ''NodeOptions'',
      ''NodeState'', ''NotLeader'', ''PaxodinError'', ''PendingBatch'', ''Prepare'', ''PrepareScope'',
      ''Profile'', ''Promise'', ''PromiseRange'', ''ProposalLost'', ''ProtocolError'', ''Receipt'',
      ''ReentrantCall'', ''Role'', ''ServeRange'', ''Session'', ''SessionOptions'', ''Slot'',
      ''StaleToken'', ''StopSign'', ''StorageError'', ''Transport'', ''TransportError'', ''Trimmed'',
      ''UnsupportedCapability'', ''UsageError'', ''ValueTooLarge'', ''WindowFull'', ''WriteKind'',
      ''WriteRecord'', ''WritesNotCopied'', ''WritesUnconfirmed'', ''__version__'', ''abi_version'',
      ''capabilities'', ''core_version'', ''explain'', ''profile'', ''status_count'']"

definition bound_names :: "string list" where
  "bound_names = concat (map snd IMPORTS) @ [''__version__'', ''abi_version'', ''profile'']"

text \<open>Every public name is bound, none is listed twice, and no other is bound but three internal ones.\<close>

lemma exports_bound: "list_all (\<lambda>n. n \<in> set bound_names) package_all" "distinct package_all"
  by code_simp+

lemma bound_exported: "filter (\<lambda>n. n \<notin> set package_all) bound_names = [''_decode_profile'', ''EXPECTED_ABI_VERSION'', ''PROFILE'']"
  by code_simp

text \<open>The names taken from \<^verbatim>\<open>errors.py\<close> are those of classes, and eight classes are not among them: a caller that
  wants to catch one of these, such as the \<^verbatim>\<open>UnsupportedKind\<close> that \<^verbatim>\<open>decode\<close> documents, has to import the module.\<close>

definition internal_errors :: "error_class list" where
  "internal_errors = [UnsupportedKind, ReplayActive, ReplayNotActive, LeaderCatchingUp, CampaignDisabled, NativeError, OutOfMemory, Poisoned]"

lemma exported_exceptions: "class_name c \<in> set package_all \<longleftrightarrow> c \<notin> set internal_errors"
  by (cases c; simp only:; code_simp)

text \<open>They are raised all the same: a core error or native failure with one of their codes is turned into them.\<close>

lemma internal_errors_raised:
  "c \<in> set internal_errors \<Longrightarrow> c \<noteq> NativeError \<Longrightarrow> exn_class (exception_for (class_code c) ctx) = Some c"
  by (auto simp: internal_errors_def exception_for_def by_code_registered by_code_classes_def err_def exn_class_def)

text \<open>A library that loads has the version the package reports.\<close>

lemma loaded_abi_version: "load_library lib = Inr raw \<Longrightarrow> lb_abi_version lib = abi_version"
  by (auto simp: load_library_def verify_library_def abi_version_def bindE_eq_Inr Let_def split: if_splits)

end
