(* ===== verification/Build.thy ===== *)
theory Build
  imports Abi Program "HOL-Library.AList" "HOL-Library.List_Lexorder" "HOL-Library.Char_ord"
begin

section \<open>The build hook of \<^verbatim>\<open>hatch_build.py\<close>\<close>

text \<open>
  The hook compiles the shared library into the package, for a wheel, or stages a copy of the core, for a
  source distribution. Its state is the tree of files; a file operation fails when the tree does not allow
  it. The Odin compiler, the search for executables and \<^verbatim>\<open>git\<close> are functions of the record \<open>build_host\<close>. Full
  disks, symbolic links and what the hook prints are left out.
\<close>

subsection \<open>The file tree\<close>

type_synonym path = "string list"

datatype tree_node = Directory | Regular string

type_synonym tree = "(path \<times> tree_node) list"

definition is_dir :: "tree \<Rightarrow> path \<Rightarrow> bool" where
  "is_dir t p \<longleftrightarrow> p = [] \<or> map_of t p = Some Directory"

definition is_file :: "tree \<Rightarrow> path \<Rightarrow> bool" where
  "is_file t p \<longleftrightarrow> (case map_of t p of Some (Regular _) \<Rightarrow> True | _ \<Rightarrow> False)"

definition path_exists :: "tree \<Rightarrow> path \<Rightarrow> bool" where
  "path_exists t p \<longleftrightarrow> p = [] \<or> map_of t p \<noteq> None"

text \<open>\<^verbatim>\<open>sorted(p.glob("*.odin"))\<close>, as the names in the directory \<open>p\<close>.\<close>

definition glob_odin :: "tree \<Rightarrow> path \<Rightarrow> string list" where
  "glob_odin t p = sort (filter (suffix ''.odin'')
     (map last (filter (\<lambda>q. q \<noteq> [] \<and> butlast q = p) (remdups (map fst t)))))"

definition rmtree :: "path \<Rightarrow> (tree, unit) prog" where
  "rmtree p t = (if map_of t p = Some Directory then Some (Inr (), filter (\<lambda>(q, _). \<not> prefix p q) t) else Some (Inl OSErr, t))"

fun make_dirs :: "path \<Rightarrow> path \<Rightarrow> (tree, unit) prog" where
  "make_dirs upto_here [] t = Some (Inr (), t)"
| "make_dirs upto_here (c # cs) t =
     (case map_of t (upto_here @ [c]) of
        None \<Rightarrow> make_dirs (upto_here @ [c]) cs (AList.update (upto_here @ [c]) Directory t)
      | Some Directory \<Rightarrow> make_dirs (upto_here @ [c]) cs t
      | Some (Regular _) \<Rightarrow> Some (Inl OSErr, t))"

definition mkdir :: "path \<Rightarrow> (tree, unit) prog" where
  "mkdir p t = (if path_exists t p then Some (Inl OSErr, t) else make_dirs [] p t)"

definition write_text :: "path \<Rightarrow> string \<Rightarrow> (tree, unit) prog" where
  "write_text p content t =
     (if is_dir t p \<or> \<not> is_dir t (butlast p) then Some (Inl OSErr, t)
      else Some (Inr (), AList.update p (Regular content) t))"

definition copy2 :: "path \<Rightarrow> path \<Rightarrow> (tree, unit) prog" where
  "copy2 src dst t =
     (case map_of t src of
        Some (Regular content) \<Rightarrow> write_text (if is_dir t dst then dst @ [last src] else dst) content t
      | _ \<Rightarrow> Some (Inl OSErr, t))"

subsection \<open>The hook\<close>

text \<open>An argument of a command is a string, or ends with the path that was formatted into it.\<close>

datatype argument = Arg string | Arg_Path string path

type_synonym environ = "(string \<times> string) list"

record build_host =
  ho_platform :: string
  ho_machine :: string
  ho_sysconfig_platform :: string
  ho_environ :: environ
  ho_which :: "string \<Rightarrow> string option"
  ho_run :: "argument list \<Rightarrow> environ \<Rightarrow> (tree, unit) prog"
  ho_git_revision :: "path \<Rightarrow> exn + string"

record build_hook =
  hk_root :: path
  hk_target_name :: string

record build_data =
  bd_pure_python :: "bool option"
  bd_infer_tag :: "bool option"
  bd_tag :: "string option"
  bd_artifacts :: "string list option"

definition STAGED_CORE :: path where "STAGED_CORE = [''native'', ''core'']"
definition LIB_STEM :: string where "LIB_STEM = ''_paxodin''"
definition ENFORCED_STEM :: string where "ENFORCED_STEM = ''_paxodin_enforced''"

definition to_lower :: "char \<Rightarrow> char" where
  "to_lower c = (if 65 \<le> (of_char c :: nat) \<and> (of_char c :: nat) \<le> 90 then char_of ((of_char c :: nat) + 32) else c)"

definition env_get :: "environ \<Rightarrow> string \<Rightarrow> string \<Rightarrow> string" where
  "env_get env key fallback = (case map_of env key of Some v \<Rightarrow> v | None \<Rightarrow> fallback)"

definition CPU_DEFAULT :: "build_host \<Rightarrow> string" where
  "CPU_DEFAULT h = (if map to_lower (ho_machine h) \<in> {''arm64'', ''aarch64''} then ''generic'' else ''x86-64-v2'')"

definition MICROARCH :: "build_host \<Rightarrow> string" where
  "MICROARCH h = env_get (ho_environ h) ''PAXODIN_MICROARCH'' (CPU_DEFAULT h)"

definition library_suffix :: "build_host \<Rightarrow> string" where
  "library_suffix h = (if ho_platform h = ''darwin'' then ''.dylib'' else if ho_platform h = ''win32'' then ''.dll'' else ''.so'')"

definition platform_tag :: "build_host \<Rightarrow> string" where
  "platform_tag h =
     (if ho_platform h = ''darwin'' then
        (if ho_machine h = ''arm64'' then ''macosx_12_0_arm64'' else ''macosx_12_0_x86_64'')
      else map (\<lambda>c. if c = CHR ''-'' \<or> c = CHR ''.'' then CHR ''_'' else c) (ho_sysconfig_platform h))"

text \<open>\<^verbatim>\<open>root.parents[1]\<close>, which raises \<^verbatim>\<open>IndexError\<close> close to the root of the file system.\<close>

definition repo_of :: "path \<Rightarrow> exn + path" where
  "repo_of dir = (if length dir < 2 then Inl IndexErr else Inr (butlast (butlast dir)))"

definition core_collection :: "build_hook \<Rightarrow> tree \<Rightarrow> exn + path" where
  "core_collection hook t =
     (let staged = hk_root hook @ [''native'', ''core'']
      in if is_dir t (staged @ [''src'']) then Inr staged
         else bindE (repo_of (hk_root hook)) (\<lambda>repo.
           if is_file t (repo @ [''src'', ''paxos.odin'']) then Inr repo else Inl RuntimeErr))"

definition find_odin :: "build_host \<Rightarrow> exn + string" where
  "find_odin h = (case ho_which h (env_get (ho_environ h) ''ODIN'' ''odin'') of None \<Rightarrow> Inl RuntimeErr | Some p \<Rightarrow> Inr p)"

definition compile_command :: "build_host \<Rightarrow> build_hook \<Rightarrow> path \<Rightarrow> bool \<Rightarrow> tree \<Rightarrow> exn + argument list" where
  "compile_command h hook out enforced t =
     bindE (find_odin h) (\<lambda>odin.
     bindE (core_collection hook t) (\<lambda>core. Inr (
       [Arg odin, Arg ''build'', Arg_Path '''' (hk_root hook @ [''native'']), Arg ''-build-mode:shared'', Arg ''-reloc-mode:pic'',
        Arg_Path ''-collection:paxos='' core, Arg ''-o:speed'', Arg (''-microarch:'' @ MICROARCH h), Arg_Path ''-out:'' out]
       @ (if ho_platform h = ''darwin'' then [Arg ''-minimum-os-version:12.0''] else [])
       @ (if enforced then [Arg ''-define:PAXODIN_GATE_ENFORCED=true''] else []))))"

text \<open>The environment of the compiler: elsewhere than on Windows the linker it starts is \<^verbatim>\<open>clang_compat.py\<close>. The
  value \<^verbatim>\<open>str(root / "clang_compat.py")\<close> is given by the function \<open>str_path\<close>.\<close>

definition compile_env :: "(path \<Rightarrow> string) \<Rightarrow> build_host \<Rightarrow> build_hook \<Rightarrow> exn + environ" where
  "compile_env str_path h hook =
     (if ho_platform h = ''win32'' then Inr (ho_environ h)
      else case ho_which h (env_get (ho_environ h) ''ODIN_CLANG_PATH'' ''clang'') of
             None \<Rightarrow> Inl RuntimeErr
           | Some clang \<Rightarrow> Inr (AList.update ''ODIN_CLANG_PATH'' (str_path (hk_root hook @ [''clang_compat.py'']))
               (AList.update ''PAXODIN_REAL_CLANG'' clang (ho_environ h))))"

definition compile :: "(path \<Rightarrow> string) \<Rightarrow> build_host \<Rightarrow> build_hook \<Rightarrow> path \<Rightarrow> bool \<Rightarrow> (tree, unit) prog" where
  "compile str_path h hook out enforced t =
     seq (lift_result (compile_command h hook out enforced t)) (\<lambda>command.
     seq (lift_result (compile_env str_path h hook)) (\<lambda>env. ho_run h command env)) t"

fun decimal :: "nat \<Rightarrow> string" where
  "decimal n = (if n < 10 then [char_of (48 + n)] else decimal (n div 10) @ [char_of (48 + n mod 10)])"

declare decimal.simps [simp del]

definition manifest_text :: "string \<Rightarrow> string list \<Rightarrow> string" where
  "manifest_text revision names = join_with [CHR 0x0A]
     ([''# paxos-odin core staged into this source distribution.'',
       ''revision: '' @ (if revision = [] then ''unknown'' else revision),
       ''files: '' @ decimal (length names)] @ map (\<lambda>n. ''  src/'' @ n) names) @ [CHR 0x0A]"

definition stage_core :: "build_host \<Rightarrow> build_hook \<Rightarrow> (tree, unit) prog" where
  "stage_core h hook =
     (let dir = hk_root hook; destination = dir @ STAGED_CORE @ [''src'']
      in seq (lift_result (repo_of dir)) (\<lambda>repo.
         seq (get (\<lambda>t. is_file t (repo @ [''src'', ''paxos.odin'']))) (\<lambda>there.
         if \<not> there then ret ()
         else
           seq (get (\<lambda>t. path_exists t destination)) (\<lambda>old.
           seq (if old then rmtree destination else ret ()) (\<lambda>_.
           seq (mkdir destination) (\<lambda>_.
           seq (get (\<lambda>t. glob_odin t (repo @ [''src'']))) (\<lambda>names.
           seq (for_each names (\<lambda>n. copy2 (repo @ [''src'', n]) (destination @ [n]))) (\<lambda>_.
           seq (get (\<lambda>t. is_file t (repo @ [''LICENSE'']))) (\<lambda>licence.
           seq (if licence then copy2 (repo @ [''LICENSE'']) (dir @ STAGED_CORE @ [''LICENSE.core'']) else ret ()) (\<lambda>_.
           seq (lift_result (ho_git_revision h repo)) (\<lambda>revision.
           seq (get (\<lambda>t. glob_odin t destination)) (\<lambda>staged.
             write_text (dir @ STAGED_CORE @ [''MANIFEST.txt'']) (manifest_text revision staged)))))))))))))"

definition wheel_data :: "build_host \<Rightarrow> build_data \<Rightarrow> build_data" where
  "wheel_data h data = data\<lparr>bd_pure_python := Some False, bd_infer_tag := Some False,
     bd_tag := Some (''py3-none-'' @ platform_tag h),
     bd_artifacts := Some ((case bd_artifacts data of None \<Rightarrow> [] | Some xs \<Rightarrow> xs)
       @ [''src/paxodin/'' @ LIB_STEM @ library_suffix h, ''src/paxodin/'' @ ENFORCED_STEM @ library_suffix h])\<rparr>"

definition initialize :: "(path \<Rightarrow> string) \<Rightarrow> build_host \<Rightarrow> build_hook \<Rightarrow> string \<Rightarrow> build_data \<Rightarrow> (tree, build_data) prog" where
  "initialize str_path h hook version data =
     (if hk_target_name hook = ''sdist'' then seq (stage_core h hook) (\<lambda>_. ret data)
      else
        let package = hk_root hook @ [''src'', ''paxodin'']; suffix = library_suffix h;
            want_enforced = (version = ''editable'' \<or> map_of (ho_environ h) ''PAXODIN_BUILD_ENFORCED'' = Some ''1'')
        in seq (compile str_path h hook (package @ [LIB_STEM @ suffix]) False) (\<lambda>_.
           seq (if want_enforced then compile str_path h hook (package @ [ENFORCED_STEM @ suffix]) True else ret ()) (\<lambda>_.
           ret (wheel_data h data))))"

text \<open>\<^verbatim>\<open>clang_compat.py\<close>: the command it becomes; \<open>None\<close> is the \<^verbatim>\<open>KeyError\<close> when the variable is not set.\<close>

definition clang_replacements :: "(string \<times> string) list" where
  "clang_replacements = map (\<lambda>(flag, name). (flag @ [CHR 0x27] @ name @ [CHR 0x27], flag @ name))
     [(''-Wl,-init,'', ''__odin_entry_point''), (''-Wl,-init,'', ''_odin_entry_point''), (''-Wl,-fini,'', ''_odin_exit_point'')]"

definition clang_compat :: "environ \<Rightarrow> string list \<Rightarrow> (string \<times> string list) option" where
  "clang_compat env argv =
     (case map_of env ''PAXODIN_REAL_CLANG'' of None \<Rightarrow> None
      | Some clang \<Rightarrow> Some (clang, clang # map (\<lambda>arg. env_get clang_replacements arg arg) (tl argv)))"

subsection \<open>What a wheel contains\<close>

text \<open>The names the hook compiles to are the names \<^verbatim>\<open>_library_filename\<close> loads, on every platform.\<close>

lemma library_names_agree:
  "LIB_STEM @ library_suffix h = library_filename None (ho_platform h)"
  "ENFORCED_STEM @ library_suffix h = library_filename (Some ''enforced'') (ho_platform h)"
  by (simp_all add: LIB_STEM_def ENFORCED_STEM_def library_suffix_def library_filename_def)

lemma library_names_differ: "library_filename None p \<noteq> library_filename (Some ''enforced'') p"
  by (simp add: library_filename_def Let_def)

text \<open>What \<^verbatim>\<open>odin build\<close> does when it succeeds: the file named by \<^verbatim>\<open>-out:\<close> is there, and no other has changed.\<close>

definition writes_output :: "build_host \<Rightarrow> bool" where
  "writes_output h \<longleftrightarrow> (\<forall>cmd env t t' out. ho_run h cmd env t = Some (Inr (), t') \<longrightarrow> Arg_Path ''-out:'' out \<in> set cmd
     \<longrightarrow> is_file t' out \<and> (\<forall>q. q \<noteq> out \<longrightarrow> map_of t' q = map_of t q))"

lemma compile_output:
  assumes "writes_output h" and "compile str_path h hook out enforced t = Some (Inr (), t')"
  shows "is_file t' out" and "q \<noteq> out \<Longrightarrow> map_of t' q = map_of t q"
proof -
  obtain cmd env where c: "compile_command h hook out enforced t = Inr cmd" "ho_run h cmd env t = Some (Inr (), t')"
    using assms(2) by (auto simp: compile_def seq_Some_iff lift_result_def)
  have "Arg_Path ''-out:'' out \<in> set cmd" using c(1) by (auto simp: compile_command_def bindE_eq_Inr)
  then show "is_file t' out" and "q \<noteq> out \<Longrightarrow> map_of t' q = map_of t q"
    using assms(1) c(2) unfolding writes_output_def by blast+
qed

lemma initialize_wheel:
  assumes "hk_target_name hook \<noteq> ''sdist''"
  shows "initialize str_path h hook version data t = Some (Inr data', t') \<longleftrightarrow>
    (\<exists>t1. compile str_path h hook (hk_root hook @ [''src'', ''paxodin'', library_filename None (ho_platform h)]) False t = Some (Inr (), t1)
      \<and> (if version = ''editable'' \<or> map_of (ho_environ h) ''PAXODIN_BUILD_ENFORCED'' = Some ''1''
         then compile str_path h hook (hk_root hook @ [''src'', ''paxodin'', library_filename (Some ''enforced'') (ho_platform h)]) True
         else ret ()) t1 = Some (Inr (), t')
      \<and> data' = wheel_data h data)"
  using assms by (auto simp: initialize_def Let_def seq_Some_iff ret_def library_names_agree)

text \<open>A wheel build that returns leaves the library under the name the package loads, the enforced one too when
  it was asked for, and names both as artifacts.\<close>

lemma wheel_is_loadable:
  assumes "writes_output h" and "initialize str_path h hook version data t = Some (Inr data', t')"
    and "hk_target_name hook \<noteq> ''sdist''"
  shows "is_file t' (hk_root hook @ [''src'', ''paxodin'', library_filename None (ho_platform h)])"
    and "version = ''editable'' \<or> map_of (ho_environ h) ''PAXODIN_BUILD_ENFORCED'' = Some ''1''
      \<Longrightarrow> is_file t' (hk_root hook @ [''src'', ''paxodin'', library_filename (Some ''enforced'') (ho_platform h)])"
    and "\<exists>xs. bd_artifacts data' = Some (xs @ [''src/paxodin/'' @ library_filename None (ho_platform h),
           ''src/paxodin/'' @ library_filename (Some ''enforced'') (ho_platform h)])"
    and "bd_tag data' = Some (''py3-none-'' @ platform_tag h)" and "bd_pure_python data' = Some False"
proof -
  let ?pk = "hk_root hook @ [''src'', ''paxodin'']"
  let ?out = "?pk @ [library_filename None (ho_platform h)]"
  let ?enf = "?pk @ [library_filename (Some ''enforced'') (ho_platform h)]"
  let ?want = "version = ''editable'' \<or> map_of (ho_environ h) ''PAXODIN_BUILD_ENFORCED'' = Some ''1''"
  have ne: "?out \<noteq> ?enf" using library_names_differ by simp
  obtain t1 where 1: "compile str_path h hook ?out False t = Some (Inr (), t1)"
    and 2: "(if ?want then compile str_path h hook ?enf True else ret ()) t1 = Some (Inr (), t')"
    and 3: "data' = wheel_data h data"
    using assms(2) unfolding initialize_wheel [OF assms(3)] append_assoc append_Cons append_Nil by blast
  have e: "is_file t' ?enf \<and> map_of t' ?out = map_of t1 ?out" if ?want
    using 2 that compile_output [OF assms(1), of str_path hook ?enf True t1 t'] ne by auto
  have "t' = t1" if "\<not> ?want" using 2 that by (simp add: ret_def split: if_splits)
  then have "map_of t' ?out = map_of t1 ?out" using e by blast
  then show "is_file t' (hk_root hook @ [''src'', ''paxodin'', library_filename None (ho_platform h)])"
    using compile_output(1) [OF assms(1) 1] by (simp add: is_file_def)
  show "?want \<Longrightarrow> is_file t' (hk_root hook @ [''src'', ''paxodin'', library_filename (Some ''enforced'') (ho_platform h)])"
    using e by simp
qed (use assms(2,3) in \<open>auto simp: initialize_wheel wheel_data_def library_names_agree\<close>)

text \<open>Both names are artifacts of every wheel, so an enforced library that an earlier build left in the tree is
  packed, whatever core it was compiled from, by a build that did not ask for one.\<close>

lemma leftover_enforced_packed:
  assumes "writes_output h" and "initialize str_path h hook version data t = Some (Inr data', t')"
    and "hk_target_name hook \<noteq> ''sdist''"
    and "version \<noteq> ''editable''" "map_of (ho_environ h) ''PAXODIN_BUILD_ENFORCED'' = None"
    and "map_of t (hk_root hook @ [''src'', ''paxodin'', library_filename (Some ''enforced'') (ho_platform h)]) = Some (Regular old)"
  shows "map_of t' (hk_root hook @ [''src'', ''paxodin'', library_filename (Some ''enforced'') (ho_platform h)]) = Some (Regular old)"
proof -
  have "compile str_path h hook (hk_root hook @ [''src'', ''paxodin'', library_filename None (ho_platform h)]) False t
    = Some (Inr (), t')"
    using assms(2-5) by (auto simp: initialize_wheel ret_def)
  from compile_output(2) [OF assms(1) this] assms(6) show ?thesis by (simp add: library_names_differ [symmetric])
qed

subsection \<open>What is staged\<close>

lemma glob_odin_iff: "n \<in> set (glob_odin t p) \<longleftrightarrow> suffix ''.odin'' n \<and> map_of t (p @ [n]) \<noteq> None"
proof -
  have "q \<noteq> [] \<and> butlast q = p \<longleftrightarrow> (\<exists>n. q = p @ [n])" for q :: path
    by (metis append_butlast_last_id butlast_snoc snoc_eq_iff_butlast)
  then have "n \<in> set (glob_odin t p) \<longleftrightarrow> suffix ''.odin'' n \<and> p @ [n] \<in> fst ` set t"
    by (force simp: glob_odin_def image_iff)
  then show ?thesis by (simp add: map_of_eq_None_iff)
qed

lemma make_dirs_facts:
  assumes "make_dirs u cs t = Some (Inr (), t')"
  shows "map_of t' q = map_of t q \<or> prefix q (u @ cs) \<and> map_of t q = None \<and> map_of t' q = Some Directory"
    and "cs \<noteq> [] \<Longrightarrow> map_of t' (u @ cs) = Some Directory"
proof -
  show 1: "map_of t' q = map_of t q \<or> prefix q (u @ cs) \<and> map_of t q = None \<and> map_of t' q = Some Directory" for q
    using assms
  proof (induction u cs t arbitrary: q rule: make_dirs.induct)
    case (2 u c cs t)
    show ?case
    proof (cases "map_of t (u @ [c])")
      case None
      with 2(3) have m: "make_dirs (u @ [c]) cs (AList.update (u @ [c]) Directory t) = Some (Inr (), t')" by simp
      show ?thesis using 2(1) [OF None m, of q] None by (auto simp: update_conv' split: if_splits)
    next
      case (Some y)
      with 2 show ?thesis by (cases y) auto
    qed
  qed simp
  show "map_of t' (u @ cs) = Some Directory" if "cs \<noteq> []"
    using assms that
  proof (induction u cs t rule: make_dirs.induct)
    case (2 u c cs t)
    show ?case
    proof (cases "cs = []")
      case True
      then show ?thesis using 2(3)
        by (auto simp: update_conv' split: option.splits tree_node.splits)
    next
      case False
      then show ?thesis using 2 by (auto split: option.splits tree_node.splits)
    qed
  qed simp
qed

lemma write_text_facts:
  assumes "write_text p content t = Some (Inr (), t')"
  shows "map_of t' = (map_of t)(p \<mapsto> Regular content)"
  using assms by (auto simp: write_text_def update_conv' split: if_splits)

lemma copies_facts:
  assumes "for_each names (\<lambda>n. copy2 (src @ [n]) (dst @ [n])) t = Some (Inr (), t')"
    and "\<And>n. n \<in> set names \<Longrightarrow> map_of t (dst @ [n]) \<noteq> Some Directory" and "src \<noteq> dst"
  shows "n \<in> set names \<Longrightarrow> \<exists>x. map_of t (src @ [n]) = Some (Regular x) \<and> map_of t' (dst @ [n]) = Some (Regular x)"
    and "\<forall>n \<in> set names. q \<noteq> dst @ [n] \<Longrightarrow> map_of t' q = map_of t q"
proof -
  have "(\<forall>n \<in> set names. \<exists>x. map_of t (src @ [n]) = Some (Regular x) \<and> map_of t' (dst @ [n]) = Some (Regular x))
    \<and> (\<forall>q. (\<forall>n \<in> set names. q \<noteq> dst @ [n]) \<longrightarrow> map_of t' q = map_of t q)"
    using assms(1,2)
  proof (induction names arbitrary: t)
    case (Cons n names)
    obtain t1 where c: "copy2 (src @ [n]) (dst @ [n]) t = Some (Inr (), t1)"
      and r: "for_each names (\<lambda>n. copy2 (src @ [n]) (dst @ [n])) t1 = Some (Inr (), t')"
      using Cons.prems(1) by (auto simp: seq_Some_iff)
    obtain x where x: "map_of t (src @ [n]) = Some (Regular x)" "write_text (dst @ [n]) x t = Some (Inr (), t1)"
      using c Cons.prems(2) [of n] by (auto simp: copy2_def is_dir_def split: option.splits tree_node.splits)
    note w = write_text_facts [OF x(2)]
    have "map_of t1 (dst @ [k]) \<noteq> Some Directory" if "k \<in> set names" for k
      using Cons.prems(2) [of k] that w by simp
    note ih = Cons.IH [OF r this]
    have same: "map_of t1 (src @ [k]) = map_of t (src @ [k])" for k using w assms(3) by simp
    show ?case
    proof (intro conjI ballI allI impI)
      fix k assume k: "k \<in> set (n # names)"
      show "\<exists>x. map_of t (src @ [k]) = Some (Regular x) \<and> map_of t' (dst @ [k]) = Some (Regular x)"
      proof (cases "k \<in> set names")
        case True then show ?thesis using ih same by metis
      next
        case False
        then have "k = n" using k by simp
        moreover have "map_of t' (dst @ [n]) = map_of t1 (dst @ [n])" if "n \<notin> set names" using ih that by auto
        ultimately show ?thesis using x(1) w False by simp
      qed
    qed (use ih w in auto)
  qed (simp add: ret_def)
  then show "n \<in> set names \<Longrightarrow> \<exists>x. map_of t (src @ [n]) = Some (Regular x) \<and> map_of t' (dst @ [n]) = Some (Regular x)"
    and "\<forall>n \<in> set names. q \<noteq> dst @ [n] \<Longrightarrow> map_of t' q = map_of t q" by blast+
qed

text \<open>A tree in which whatever exists is in a directory that exists.\<close>

definition closed_tree :: "tree \<Rightarrow> bool" where
  "closed_tree t \<longleftrightarrow> (\<forall>q x. map_of t (q @ [x]) \<noteq> None \<longrightarrow> is_dir t q)"

lemma map_of_filter_keys: "map_of (filter (\<lambda>(q, _). P q) t) q = (if P q then map_of t q else None)"
  by (induction t) auto

text \<open>Staging copies every source of the core, and leaves no other: whatever stood in the staged directory before,
  a name ending in \<^verbatim>\<open>.odin\<close> stands for the same text there as in the repository, or for nothing in both. The
  staged copy is then what the hook compiles against.\<close>

lemma staged_is_source:
  assumes "stage_core h hook t = Some (Inr (), t')" and "hk_root hook = repo @ [a, b]" and "is_file t (repo @ [''src'', ''paxos.odin''])"
    and "closed_tree t"
  shows "suffix ''.odin'' n \<Longrightarrow> map_of t' (hk_root hook @ [''native'', ''core'', ''src'', n]) = map_of t (repo @ [''src'', n])"
    and "core_collection hook t' = Inr (hk_root hook @ [''native'', ''core''])"
proof -
  let ?src = "repo @ [''src'']"
  let ?dst = "repo @ [a, b, ''native'', ''core'', ''src'']"
  have repo: "repo_of (hk_root hook) = Inr repo" by (simp add: repo_of_def assms(2) butlast_append)
  obtain t1 t2 t3 t4 revision where
    1: "(if path_exists t ?dst then rmtree ?dst else ret ()) t = Some (Inr (), t1)"
    and 2: "mkdir ?dst t1 = Some (Inr (), t2)"
    and 3: "for_each (glob_odin t2 ?src) (\<lambda>n. copy2 (?src @ [n]) (?dst @ [n])) t2 = Some (Inr (), t3)"
    and 4: "(if is_file t3 (repo @ [''LICENSE'']) then copy2 (repo @ [''LICENSE'']) (repo @ [a, b, ''native'', ''core'', ''LICENSE.core'']) else ret ()) t3
      = Some (Inr (), t4)"
    and 5: "write_text (repo @ [a, b, ''native'', ''core'', ''MANIFEST.txt'']) (manifest_text revision (glob_odin t4 ?dst)) t4 = Some (Inr (), t')"
    using assms(1,3) unfolding stage_core_def Let_def assms(2) STAGED_CORE_def append_assoc append_Cons append_Nil
    by (auto simp: seq_Some_iff lift_result_def get_def repo [unfolded assms(2)])
  have away: "\<not> prefix ?dst (?src @ [n])" "\<not> prefix ?dst ?src" for n by (auto dest: prefix_length_le)
  have removed: "map_of t1 q = map_of t q" if "\<not> prefix ?dst q" for q
    using 1 that by (auto simp: rmtree_def ret_def map_of_filter_keys split: if_splits)
  have empty: "map_of t1 (?dst @ [n]) = None" for n
  proof (cases "path_exists t ?dst")
    case True
    then show ?thesis using 1 by (auto simp: rmtree_def map_of_filter_keys split: if_splits)
  next
    case False
    then have "\<not> is_dir t ?dst" by (simp add: path_exists_def is_dir_def)
    moreover have "t1 = t" using 1 False by (simp add: ret_def)
    ultimately show ?thesis using assms(4) unfolding closed_tree_def by blast
  qed
  have made: "make_dirs [] ?dst t1 = Some (Inr (), t2)" using 2 by (simp add: mkdir_def split: if_splits)
  have empty2: "map_of t2 (?dst @ [n]) = None" for n
    using make_dirs_facts(1) [OF made, of "?dst @ [n]"] empty by (auto dest: prefix_length_le)
  note c = copies_facts [OF 3]
  have copied: "map_of t3 (?dst @ [n]) = map_of t (?src @ [n])" if n: "suffix ''.odin'' n" for n
  proof (cases "map_of t2 (?src @ [n])")
    case None
    then have "map_of t (?src @ [n]) = None"
      using make_dirs_facts(1) [OF made, of "?src @ [n]"] removed away by auto
    moreover have "map_of t3 (?dst @ [n]) = map_of t2 (?dst @ [n])"
      by (rule c(2)) (use None empty2 in \<open>auto simp: glob_odin_iff\<close>)
    ultimately show ?thesis using empty2 by simp
  next
    case (Some y)
    have "\<exists>x. map_of t2 (?src @ [n]) = Some (Regular x) \<and> map_of t3 (?dst @ [n]) = Some (Regular x)"
      by (rule c(1)) (use Some n empty2 in \<open>auto simp: glob_odin_iff\<close>)
    then show ?thesis using make_dirs_facts(1) [OF made, of "?src @ [n]"] removed away by auto
  qed
  have dir: "map_of t3 ?dst = Some Directory"
    using make_dirs_facts(2) [OF made] c(2) [of ?dst] empty2 by simp
  have later: "map_of t' q = map_of t3 q" if "prefix ?dst q" for q
  proof -
    have "map_of t4 q = map_of t3 q"
      using 4 that by (auto simp: copy2_def ret_def dest!: write_text_facts split: if_splits option.splits tree_node.splits)
    then show ?thesis using write_text_facts [OF 5] that by auto
  qed
  show "suffix ''.odin'' n \<Longrightarrow> map_of t' (hk_root hook @ [''native'', ''core'', ''src'', n]) = map_of t (repo @ [''src'', n])"
    using copied [of n] later [of "?dst @ [n]"] by (simp add: assms(2))
  show "core_collection hook t' = Inr (hk_root hook @ [''native'', ''core''])"
    using dir later [of ?dst] by (simp add: core_collection_def is_dir_def assms(2))
qed

text \<open>The staged copy stays when the distribution is built, and the hook looks for it first: in a checkout where a
  source distribution was built once, a later build compiles the core as it was then. Here the repository's
  source is edited afterwards, and the compiler is still given the old text.\<close>

lemma stale_core_compiled:
  assumes "stage_core h hook t = Some (Inr (), t')" and "hk_root hook = repo @ [a, b]" and "is_file t (repo @ [''src'', ''paxos.odin''])"
    and "closed_tree t" and "map_of t (repo @ [''src'', n]) = Some (Regular old)" and "suffix ''.odin'' n"
    and "compile_command h hook out enforced (AList.update (repo @ [''src'', n]) (Regular new) t') = Inr cmd"
  shows "Arg_Path ''-collection:paxos='' (hk_root hook @ [''native'', ''core'']) \<in> set cmd
    \<and> map_of (AList.update (repo @ [''src'', n]) (Regular new) t') (hk_root hook @ [''native'', ''core'', ''src'', n]) = Some (Regular old)"
proof -
  let ?t = "AList.update (repo @ [''src'', n]) (Regular new) t'"
  have "is_dir t' (hk_root hook @ [''native'', ''core'', ''src''])"
    using staged_is_source(2) [OF assms(1-4)]
    by (auto simp: core_collection_def bindE_eq_Inr repo_of_def assms(2) butlast_append split: if_splits)
  then have "is_dir ?t (hk_root hook @ [''native'', ''core'', ''src''])" by (simp add: is_dir_def update_conv' assms(2))
  then have "core_collection hook ?t = Inr (hk_root hook @ [''native'', ''core''])" by (simp add: core_collection_def)
  then have "Arg_Path ''-collection:paxos='' (hk_root hook @ [''native'', ''core'']) \<in> set cmd"
    using assms(7) by (auto simp: compile_command_def bindE_eq_Inr)
  then show ?thesis using staged_is_source(1) [OF assms(1-4,6)] assms(5) by (simp add: update_conv' assms(2))
qed

text \<open>The manifest provides for an unknown revision, but where \<^verbatim>\<open>git\<close> cannot be started staging raises.\<close>

lemma staging_needs_git:
  assumes "hk_root hook = repo @ [a, b]" and "is_file t (repo @ [''src'', ''paxos.odin''])" and "ho_git_revision h repo = Inl e"
  shows "stage_core h hook t \<noteq> Some (Inr (), t')"
proof -
  have repo: "repo_of (repo @ [a, b]) = Inr repo" by (simp add: repo_of_def butlast_append)
  show ?thesis using assms(2,3) unfolding stage_core_def Let_def assms(1)
    by (auto simp: seq_Some_iff lift_result_def get_def repo)
qed

subsection \<open>The linker wrapper\<close>

text \<open>\<^verbatim>\<open>clang_compat.py\<close> passes every argument, in order, and changes only the three known ones.\<close>

lemma clang_compat_passes:
  assumes "clang_compat env (name # args) = Some (clang, argv)"
  shows "\<exists>args'. argv = clang # args' \<and> length args' = length args
    \<and> (\<forall>i < length args. args' ! i \<noteq> args ! i \<longrightarrow> (args ! i, args' ! i) \<in> set clang_replacements)"
  using assms
  by (auto simp: clang_compat_def env_get_def dest: map_of_SomeD split: option.splits)

lemma clang_compat_idempotent:
  "clang_compat env (name # args) = Some (clang, c # args') \<Longrightarrow> clang_compat env (name # args') = Some (clang, c # args')"
proof -
  assume c: "clang_compat env (name # args) = Some (clang, c # args')"
  have "\<forall>v \<in> snd ` set clang_replacements. map_of clang_replacements v = None" by code_simp
  then have "env_get clang_replacements (env_get clang_replacements x x) (env_get clang_replacements x x) = env_get clang_replacements x x"
    for x by (force simp: env_get_def dest: map_of_SomeD split: option.splits)
  then show ?thesis using c by (auto simp: clang_compat_def split: option.splits)
qed

end
