(* ===== verification/Paths.thy ===== *)
theory Paths
  imports Abi Node_Reach Session
begin

section \<open>The measured paths of \<^verbatim>\<open>tools/paxodin_paths.py\<close>\<close>

text \<open>
  The driver runs one workload, a cluster of one member, through the C functions (\<open>run_abi\<close>), through \<^verbatim>\<open>Node\<close>
  (\<open>run_node\<close>) and through \<^verbatim>\<open>Session\<close> (\<open>run_session\<close>), and counts the crossings of the boundary and the bytes
  copied. The clock readings around the loops are left out.
\<close>

subsection \<open>The C functions\<close>

text \<open>\<^verbatim>\<open>_check\<close> ends the process with the status. A native copy of more records than the eight of its buffer
  writes past it, which no exception reports: \<open>Overrun\<close>.\<close>

datatype stop = System_Exit int | Overrun

record 'c raw_path =
  rw_handle :: "'c handle"
  rw_calls :: nat
  rw_copied :: int

type_synonym ('c, 'a) raw_op = "'c raw_path \<Rightarrow> (stop + 'a) \<times> 'c raw_path"

definition raw_seq :: "('c, 'a) raw_op \<Rightarrow> ('a \<Rightarrow> ('c, 'b) raw_op) \<Rightarrow> ('c, 'b) raw_op" where
  "raw_seq m f w = (case m w of (Inl e, w') \<Rightarrow> (Inl e, w') | (Inr x, w') \<Rightarrow> f x w')"

definition raw_call :: "('c handle \<Rightarrow> int \<times> 'a \<times> 'c handle) \<Rightarrow> ('c, 'a) raw_op" where
  "raw_call call w = (case call (rw_handle w) of (st, x, h) \<Rightarrow>
     if st \<noteq> OK then (Inl (System_Exit st), w\<lparr>rw_handle := h\<rparr>)
     else (Inr x, w\<lparr>rw_handle := h, rw_calls := rw_calls w + 1\<rparr>))"

definition raw_copy :: "(nat \<Rightarrow> nat \<Rightarrow> 'c handle \<Rightarrow> int \<times> 'r list \<times> 'c handle) \<Rightarrow> nat \<Rightarrow> ctype \<Rightarrow> ('c, 'r list) raw_op" where
  "raw_copy copy count t =
     (if count = 0 then (\<lambda>w. (Inr [], w))
      else raw_seq (raw_call (copy 0 count)) (\<lambda>xs w.
        if 8 < length xs then (Inl Overrun, w)
        else (Inr xs, w\<lparr>rw_copied := rw_copied w + int (length xs) * size_of t\<rparr>)))"

definition raw_discharge :: "c_token \<Rightarrow> c_report \<Rightarrow> ('c, c_envelope list) raw_op" where
  "raw_discharge token report =
     raw_seq (raw_copy (copy_writes token) (cp_write_count report) CWrite_layout) (\<lambda>_.
     raw_seq (raw_call (no_value (confirm token))) (\<lambda>_.
     raw_seq (raw_copy (copy_messages token) (cp_message_count report) CEnvelope_layout) (\<lambda>outbound.
     raw_seq (raw_copy (\<lambda>off want. read_only (copy_committed token off want)) (cp_committed_count report) CCommitted_layout) (\<lambda>_.
     raw_seq (raw_call (no_value (finish token))) (\<lambda>_ w. (Inr outbound, w))))))"

text \<open>A transition; the token and the report are filled in whenever the status is \<open>OK\<close>.\<close>

definition raw_begin :: "'c core_ops \<Rightarrow> transition \<Rightarrow> ('c, c_envelope list) raw_op" where
  "raw_begin core t =
     raw_seq (raw_call (begin_transition core t)) (\<lambda>r. case r of
       None \<Rightarrow> (\<lambda>w. (Inr [], w)) | Some (token, report) \<Rightarrow> raw_discharge token report)"

text \<open>The queue of self-addressed envelopes: first in, first out.\<close>

partial_function (option) raw_settle :: "'c core_ops \<Rightarrow> c_envelope list \<Rightarrow> 'c raw_path \<Rightarrow> ((stop + unit) \<times> 'c raw_path) option" where
  "raw_settle core queue w =
     (case queue of
        [] \<Rightarrow> Some (Inr (), w)
      | envelope # rest \<Rightarrow>
          if cv_recipient envelope \<noteq> 1 then raw_settle core rest w
          else (case raw_begin core (T_Step envelope) w of
              (Inl e, w') \<Rightarrow> Some (Inl e, w')
            | (Inr outbound, w') \<Rightarrow> raw_settle core (rest @ outbound) w'))"

declare raw_settle.simps [code]

definition raw_drive :: "'c core_ops \<Rightarrow> transition \<Rightarrow> 'c raw_path \<Rightarrow> ((stop + unit) \<times> 'c raw_path) option" where
  "raw_drive core t w = (case raw_begin core t w of (Inl e, w') \<Rightarrow> Some (Inl e, w') | (Inr outbound, w') \<Rightarrow> raw_settle core outbound w')"

definition raw_floor :: "'c core_ops \<Rightarrow> ('c, unit) raw_op" where
  "raw_floor core = raw_seq (raw_call (read_only (node_state_of core))) (\<lambda>r.
     raw_call (no_value (bridge_advance_floor core (case r of None \<Rightarrow> 0 | Some st \<Rightarrow> cst_decided_through st))))"

fun raw_rounds :: "'c core_ops \<Rightarrow> c_entry \<Rightarrow> nat \<Rightarrow> 'c raw_path \<Rightarrow> ((stop + unit) \<times> 'c raw_path) option" where
  "raw_rounds core value 0 w = Some (Inr (), w)"
| "raw_rounds core value (Suc iterations) w =
     (case raw_drive core (T_Propose value) w of
        None \<Rightarrow> None
      | Some (Inl e, w') \<Rightarrow> Some (Inl e, w')
      | Some (Inr _, w') \<Rightarrow> (case raw_floor core w' of
          (Inl e, w'') \<Rightarrow> Some (Inl e, w'') | (Inr _, w'') \<Rightarrow> raw_rounds core value iterations w''))"

text \<open>\<^verbatim>\<open>CConfig(configuration_id=1, member_count=1, node_id=1)\<close> with the first member set, and the command: \<open>payload\<close>
  zero bytes moved into a zero body, past its end when they are too many.\<close>

definition abi_config :: c_config where
  "abi_config = \<lparr>cf_configuration_id = 1, cf_members = 1 # replicate (MAX_MEMBERS - 1) 0, cf_member_count = 1,
     cf_read_quorum = 0, cf_write_quorum = 0, cf_election_timeout_ticks = 0, cf_heartbeat_interval_ticks = 0,
     cf_resend_interval_ticks = 0, cf_flags = 0, cf_node_id = 1, cf_priority = 0\<rparr>"

definition abi_value :: "nat \<Rightarrow> stop + c_entry" where
  "abi_value payload = (if MAX_VALUE_BYTES < payload then Inl Overrun
     else Inr (zero_entry\<lparr>ce_kind := 1, ce_length := c_u32 (int payload)\<rparr>))"

text \<open>The counters start again after the election. The result is the crossings, the bytes, the syncs and the last
  slot decided.\<close>

definition run_abi :: "'c core_ops \<Rightarrow> nat \<Rightarrow> nat \<Rightarrow> int \<Rightarrow> (stop + (nat \<times> int \<times> nat \<times> int)) option" where
  "run_abi core iterations payload epoch =
     (case node_open core abi_config epoch of
        (st, None, _) \<Rightarrow> Some (Inl (System_Exit st))
      | (st, Some h, _) \<Rightarrow>
         (case raw_drive core T_Campaign \<lparr>rw_handle = h, rw_calls = 0, rw_copied = 0\<rparr> of
            None \<Rightarrow> None
          | Some (Inl e, w) \<Rightarrow> Some (Inl e)
          | Some (Inr _, w) \<Rightarrow> (case abi_value payload of
              Inl e \<Rightarrow> Some (Inl e)
            | Inr value \<Rightarrow> (case raw_rounds core value iterations (w\<lparr>rw_calls := 0, rw_copied := 0\<rparr>) of
                None \<Rightarrow> None
              | Some (Inl e, w') \<Rightarrow> Some (Inl e)
              | Some (Inr _, w') \<Rightarrow> (case node_state_of core (rw_handle w') of
                  (st, None) \<Rightarrow> Some (Inl (System_Exit st))
                | (st, Some state) \<Rightarrow> Some (Inr (rw_calls w', rw_copied w', 0, cst_decided_through state)))))))"

subsection \<open>\<^verbatim>\<open>Node\<close>\<close>

record 'c node_path =
  np_node :: "'c node"
  np_released :: "committed list"
  np_calls :: nat
  np_copied :: int

type_synonym ('c, 'a) node_prog = "('c node_path, 'a) prog"

definition on_path :: "('c, 'a) node_op \<Rightarrow> ('c, 'a) node_prog" where
  "on_path = call_on np_node (\<lambda>n. np_node_update (\<lambda>_. n))"

definition on_path_batch :: "('c node, 'a) prog \<Rightarrow> ('c, 'a) node_prog" where
  "on_path_batch = run_on np_node (\<lambda>n. np_node_update (\<lambda>_. n))"

definition count_calls :: "nat \<Rightarrow> ('c, unit) node_prog" where
  "count_calls k = modify (\<lambda>s. s\<lparr>np_calls := np_calls s + k\<rparr>)"

definition count_copied :: "nat \<Rightarrow> ctype \<Rightarrow> ('c, unit) node_prog" where
  "count_copied k t = modify (\<lambda>s. s\<lparr>np_copied := np_copied s + int k * size_of t\<rparr>)"

text \<open>\<^verbatim>\<open>_drive_node\<close> up to its loop.\<close>

definition drive_batch :: "pending_batch \<Rightarrow> ('c, envelope list) node_prog" where
  "drive_batch b =
     seq (on_path_batch (pb_writes b)) (\<lambda>_.
     seq (count_copied (cp_write_count (pb_report b)) CWrite_layout) (\<lambda>_.
     seq (on_path (pb_persisted b)) (\<lambda>_.
     seq (on_path_batch (pb_messages b)) (\<lambda>messages.
     seq (count_copied (cp_message_count (pb_report b)) CEnvelope_layout) (\<lambda>_.
     seq (on_path_batch (pb_committed b)) (\<lambda>entries.
     seq (count_copied (cp_committed_count (pb_report b)) CCommitted_layout) (\<lambda>_.
     seq (modify (\<lambda>s. s\<lparr>np_released := np_released s @ entries\<rparr>)) (\<lambda>_.
     seq (on_path (pb_finish b)) (\<lambda>_.
     seq (count_calls 5) (\<lambda>_. ret messages))))))))))"

definition step_one :: "'c core_ops \<Rightarrow> envelope \<Rightarrow> ('c, envelope list) node_prog" where
  "step_one core envelope = seq (count_calls 1) (\<lambda>_. seq (on_path (node_step core envelope)) drive_batch)"

text \<open>Its loop, which follows each self-addressed envelope to its end before the next: the batch that an envelope
  leads to is driven by a recursive call.\<close>

partial_function (option) follow :: "'c core_ops \<Rightarrow> envelope list \<Rightarrow> 'c node_path \<Rightarrow> ((exn + unit) \<times> 'c node_path) option" where
  "follow core messages s =
     (case messages of
        [] \<Rightarrow> Some (Inr (), s)
      | envelope # rest \<Rightarrow>
          if ev_recipient envelope \<noteq> 1 then follow core rest s
          else (case step_one core envelope s of
              None \<Rightarrow> None
            | Some (Inl e, s1) \<Rightarrow> Some (Inl e, s1)
            | Some (Inr inner, s1) \<Rightarrow> Option.bind (follow core inner s1) (\<lambda>(r, s2). case r of
                Inl e \<Rightarrow> Some (Inl e, s2) | Inr _ \<Rightarrow> follow core rest s2)))"

declare follow.simps [code]

definition drive_node :: "'c core_ops \<Rightarrow> pending_batch \<Rightarrow> ('c, unit) node_prog" where
  "drive_node core b = seq (drive_batch b) (follow core)"

definition node_round :: "'c core_ops \<Rightarrow> bytes \<Rightarrow> ('c, unit) node_prog" where
  "node_round core value =
     seq (get np_released) (\<lambda>released.
     seq (modify (np_released_update (\<lambda>_. []))) (\<lambda>_.
     seq (count_calls 1) (\<lambda>_.
     seq (on_path (node_propose core value)) (\<lambda>b.
     seq (drive_node core b) (\<lambda>_.
     seq (get np_released) (\<lambda>out.
     seq (for_each out (\<lambda>entry.
       seq (on_path (node_advance_memory_floor core (cm_slot entry))) (\<lambda>_. count_calls 1))) (\<lambda>_.
     modify (np_released_update (\<lambda>_. released @ out)))))))))"

definition path_config :: node_config where
  "path_config = \<lparr>nc_node_id = 1, nc_members = [1], nc_configuration_id = 1, nc_priority = 0, nc_read_quorum = 0,
     nc_write_quorum = 0, nc_election_timeout_ticks = 0, nc_heartbeat_interval_ticks = 0, nc_resend_interval_ticks = 0,
     nc_campaign_disabled = False, nc_gate_proposals = False\<rparr>"

definition run_node :: "'c core_ops \<Rightarrow> nat \<Rightarrow> nat \<Rightarrow> int \<Rightarrow> (exn + (nat \<times> int \<times> nat \<times> nat)) option" where
  "run_node core iterations payload epoch =
     (case node_init core path_config epoch of
        (Inl e, _) \<Rightarrow> Some (Inl e)
      | (Inr n, _) \<Rightarrow> map_option fst
          (seq (seq (on_path (node_campaign core)) (drive_node core)) (\<lambda>_.
           seq (modify (\<lambda>s. s\<lparr>np_calls := 0, np_copied := 0\<rparr>)) (\<lambda>_.
           seq (for_each [1..<iterations + 1] (\<lambda>_. node_round core (replicate payload 0))) (\<lambda>_.
           seq (get (\<lambda>s. (np_calls s, np_copied s, 0, length (np_released s)))) (\<lambda>result.
           seq (on_path node_close_op) (\<lambda>_. ret result)))))
           \<lparr>np_node = n, np_released = [], np_calls = 0, np_copied = 0\<rparr>))"

subsection \<open>\<^verbatim>\<open>Session\<close>\<close>

text \<open>\<^verbatim>\<open>while fabric.pending(): session.poll(timeout=0.0)\<close>; the fabric is in the transport.\<close>

partial_function (option) drain :: "('c, 'j, 'h, 't, 'k) adapters \<Rightarrow> ('t \<Rightarrow> nat) \<Rightarrow> ('c, 'j, 'h, 't, 'k) session
    \<Rightarrow> ((exn + unit) \<times> ('c, 'j, 'h, 't, 'k) session) option" where
  "drain ad pending s =
     (if pending (sn_transport s) = 0 then Some (Inr (), s)
      else (case session_poll ad (Fin 0) s of
          None \<Rightarrow> None
        | Some (Inl e, s') \<Rightarrow> Some (Inl e, s')
        | Some (Inr _, s') \<Rightarrow> drain ad pending s'))"

declare drain.simps [code]

fun session_rounds :: "('c, 'j, 'h, 't, 'k) adapters \<Rightarrow> ('t \<Rightarrow> nat) \<Rightarrow> bytes \<Rightarrow> nat \<Rightarrow> nat \<Rightarrow> ('c, 'j, 'h, 't, 'k, nat) session_prog" where
  "session_rounds ad pending value 0 syncs = ret syncs"
| "session_rounds ad pending value (Suc iterations) syncs =
     seq (with_batch (node_propose (ad_core ad) value) (\<lambda>b.
            seq (session_discharge ad b) (\<lambda>_. ret (if cp_write_count (pb_report b) \<noteq> 0 then 1 else 0)))) (\<lambda>k.
     seq (drain ad pending) (\<lambda>_. session_rounds ad pending value iterations (syncs + k)))"

definition run_session :: "('c, 'j, 'h, 't, 'k) adapters \<Rightarrow> ('t \<Rightarrow> nat) \<Rightarrow> session_options \<Rightarrow> 'j \<Rightarrow> 't \<Rightarrow> 'h \<Rightarrow> 'k \<Rightarrow> nat \<Rightarrow> nat \<Rightarrow> int
    \<Rightarrow> (exn + (nat \<times> int \<times> nat \<times> int)) option" where
  "run_session ad pending defaults journal transport history clock iterations payload epoch =
     (case session_init ad 1 [1] 1 journal transport history clock (Fin 1000000000) defaults epoch of
        (Inl e, _) \<Rightarrow> Some (Inl e)
      | (Inr s, _) \<Rightarrow> map_option fst
          (seq (session_campaign ad) (\<lambda>_.
           seq (drain ad pending) (\<lambda>_.
           seq (session_rounds ad pending (replicate payload 0) iterations 0) (\<lambda>syncs.
           seq (session_state ad) (\<lambda>st.
           seq (session_close ad) (\<lambda>_.
             ret (iterations * 8,
                  int iterations * (size_of CWrite_layout + size_of CEnvelope_layout + size_of CCommitted_layout),
                  syncs, ns_decided_through st)))))) s))"

subsection \<open>The two transition-only paths\<close>

text \<open>They open the same node and propose the same command, while the payload fits.\<close>

lemma same_configuration: "build_config path_config = Inr abi_config"
  by (simp add: build_config_def path_config_def abi_config_def MAX_MEMBERS_def c_u64_def c_u32_def c_u16_def c_u8_def)

lemma same_command: "payload \<le> MAX_VALUE_BYTES \<Longrightarrow> \<exists>e. entry_for (replicate payload 0) = Inr e \<and> abi_value payload = Inr e"
proof -
  assume "payload \<le> MAX_VALUE_BYTES"
  moreover from this have "replicate payload (0 :: byte) @ replicate (MAX_VALUE_BYTES - payload) 0 = replicate MAX_VALUE_BYTES 0"
    by (simp flip: replicate_add)
  ultimately show ?thesis
    by (simp add: entry_for_def fill_entry_def copy_body_ok abi_value_def zero_entry_def c_u8_def)
qed

text \<open>A batch that a transition has just begun: both ways of discharging it copy the same records, count the same
  bytes and leave the handle in the same state; the node path counts five crossings, the raw path two and one
  more for each kind of record the batch has. The raw path does so only for at most eight of each; with more it
  writes past its buffer.\<close>

definition discharged :: "c_token \<Rightarrow> 'c handle \<Rightarrow> 'c handle" where
  "discharged token h = snd (finish token (snd (confirm token (with_copied (bt_write_count (hd_batch h)) h))))"

definition crossings :: "'a list \<Rightarrow> nat" where
  "crossings xs = (if xs = [] then 0 else 1)"

abbreviation batch_bytes :: "effects \<Rightarrow> int" where
  "batch_bytes ef \<equiv> int (length (ef_writes ef)) * size_of CWrite_layout + int (length (ef_messages ef)) * size_of CEnvelope_layout
     + int (length (ef_committed ef)) * size_of CCommitted_layout"

lemma raw_copy_small:
  "copy 0 (length xs) h = (OK, xs, h') \<Longrightarrow> length xs \<le> 8 \<Longrightarrow> (xs = [] \<Longrightarrow> h' = h) \<Longrightarrow>
   raw_copy copy (length xs) t \<lparr>rw_handle = h, rw_calls = k, rw_copied = c\<rparr>
   = (Inr xs, \<lparr>rw_handle = h', rw_calls = k + crossings xs, rw_copied = c + int (length xs) * size_of t\<rparr>)"
  by (auto simp: raw_copy_def raw_seq_def raw_call_def crossings_def)

lemma raw_copy_overrun:
  "copy 0 (length xs) h = (OK, xs, h') \<Longrightarrow> 8 < length xs \<Longrightarrow>
   raw_copy copy (length xs) t \<lparr>rw_handle = h, rw_calls = k, rw_copied = c\<rparr> = (Inl Overrun, \<lparr>rw_handle = h', rw_calls = k + 1, rw_copied = c\<rparr>)"
  by (auto simp: raw_copy_def raw_seq_def raw_call_def)

lemma raw_call_OK:
  "call h = (OK, x, h') \<Longrightarrow> raw_call call \<lparr>rw_handle = h, rw_calls = k, rw_copied = c\<rparr> = (Inr x, \<lparr>rw_handle = h', rw_calls = k + 1, rw_copied = c\<rparr>)"
  by (simp add: raw_call_def)

text \<open>The native calls of a discharge, one after another.\<close>

lemma discharge_calls:
  assumes "core_gate core" and "bridge_reachable core h0" and "begin_transition core tr h0 = (OK, Some (token, report), h)"
  obtains h2 where "copy_writes token 0 (length (ef_writes (hd_effects h))) h
      = (OK, ef_writes (hd_effects h), with_copied (bt_write_count (hd_batch h)) h)"
    and "no_value (confirm token) (with_copied (bt_write_count (hd_batch h)) h) = (OK, (), h2)"
    and "copy_messages token 0 (length (ef_messages (hd_effects h))) h2 = (OK, ef_messages (hd_effects h), h2)"
    and "read_only (copy_committed token 0 (length (ef_committed (hd_effects h)))) h2 = (OK, ef_committed (hd_effects h), h2)"
    and "no_value (finish token) h2 = (OK, (), discharged token h)"
    and "\<And>n. \<not> nd_forked n \<Longrightarrow> nd_handle n = Some h2 \<Longrightarrow> outputs_stage token h2 n n"
    and "ef_messages (hd_effects h2) = ef_messages (hd_effects h)" and "ef_committed (hd_effects h2) = ef_committed (hd_effects h)"
proof -
  let ?ef = "hd_effects h"
  note f = begun_facts [OF assms]
  let ?h1 = "with_copied (bt_write_count (hd_batch h)) h"
  obtain h2 where c: "confirm token ?h1 = (OK, h2)" and h2: "usable token h2" "bt_phase (hd_batch h2) = BP_CONFIRMED"
    "\<not> ef_pending (hd_effects h2)" "ef_messages (hd_effects h2) = ef_messages ?ef" "ef_committed (hd_effects h2) = ef_committed ?ef"
    "ef_requests (hd_effects h2) = ef_requests ?ef"
    "bt_message_count (hd_batch h2) = bt_message_count (hd_batch h)" "bt_committed_count (hd_batch h2) = bt_committed_count (hd_batch h)"
    "bt_request_count (hd_batch h2) = bt_request_count (hd_batch h)"
  proof -
    have "usable token ?h1" using f(1) by (simp add: usable_def)
    from confirm_copied [OF this] f(2) that show thesis by auto
  qed
  have w: "copy_writes token 0 (length (ef_writes ?ef)) h = (OK, ef_writes ?ef, ?h1)"
    using copy_writes_yields [of token h 0 "length (ef_writes ?ef)"] f(1-3,7) by auto
  have s: "outputs_stage token h2 n n" if "\<not> nd_forked n" "nd_handle n = Some h2" for n
    using h2 f(4-6) that by (simp add: outputs_stage_def)
  note s' = s [of "\<lparr>nd_handle = Some h2, nd_forked = False\<rparr>", simplified]
  have m: "copy_messages token 0 (length (ef_messages ?ef)) h2 = (OK, ef_messages ?ef, h2)"
    using copy_out_yields [OF s', of 0 "length (ef_messages ?ef)" "ef_messages ?ef"] h2 f(4) not_violated_id [of "ef_pending (hd_effects h2)" h2]
    by (simp add: copy_messages_def)
  have k: "read_only (copy_committed token 0 (length (ef_committed ?ef))) h2 = (OK, ef_committed ?ef, h2)"
    using copy_out_yields [OF s', of 0 "length (ef_committed ?ef)" "ef_committed ?ef"] h2 f(5) by (simp add: copy_committed_def read_only_def)
  have "finish token h2 = (OK, discharged token h)" using finish_confirmed [OF h2(1,2)] by (simp add: discharged_def c)
  then show thesis by (intro that [OF w _ m k _ s h2(4,5)]) (simp_all add: no_value_def c)
qed

lemma report_counts:
  assumes "core_gate core" and "bridge_reachable core h0" and "begin_transition core tr h0 = (OK, Some (token, report), h)"
  shows "cp_write_count report = length (ef_writes (hd_effects h))" "cp_message_count report = length (ef_messages (hd_effects h))"
    "cp_committed_count report = length (ef_committed (hd_effects h))"
  using begun_facts(3-6,8) [OF assms] by (simp_all add: report_fill_def Let_def)

lemma raw_discharge_exact:
  assumes "core_gate core" and "bridge_reachable core h0" and "begin_transition core tr h0 = (OK, Some (token, report), h)"
    and "length (ef_writes (hd_effects h)) \<le> 8" "length (ef_messages (hd_effects h)) \<le> 8" "length (ef_committed (hd_effects h)) \<le> 8"
  shows "raw_discharge token report \<lparr>rw_handle = h, rw_calls = k, rw_copied = c\<rparr> = (Inr (ef_messages (hd_effects h)),
    \<lparr>rw_handle = discharged token h,
     rw_calls = k + 2 + crossings (ef_writes (hd_effects h)) + crossings (ef_messages (hd_effects h)) + crossings (ef_committed (hd_effects h)),
     rw_copied = c + batch_bytes (hd_effects h)\<rparr>)"
proof -
  obtain h2 where n: "copy_writes token 0 (length (ef_writes (hd_effects h))) h
      = (OK, ef_writes (hd_effects h), with_copied (bt_write_count (hd_batch h)) h)"
    "no_value (confirm token) (with_copied (bt_write_count (hd_batch h)) h) = (OK, (), h2)"
    "copy_messages token 0 (length (ef_messages (hd_effects h))) h2 = (OK, ef_messages (hd_effects h), h2)"
    "read_only (copy_committed token 0 (length (ef_committed (hd_effects h)))) h2 = (OK, ef_committed (hd_effects h), h2)"
    "no_value (finish token) h2 = (OK, (), discharged token h)"
    by (rule discharge_calls [OF assms(1-3)], rule that)
  have id: "ef_writes (hd_effects h) = [] \<Longrightarrow> with_copied (bt_write_count (hd_batch h)) h = h"
    using begun_facts(3,7) [OF assms(1-3)] with_copied_id [of h] by simp
  show ?thesis
    unfolding raw_discharge_def report_counts [OF assms(1-3)]
    by (simp add: raw_seq_def raw_copy_small [where copy = "copy_writes token", OF n(1) assms(4) id] raw_call_OK [where call = "no_value (confirm token)", OF n(2)]
        raw_copy_small [where copy = "copy_messages token", OF n(3) assms(5) refl]
        raw_copy_small [where copy = "\<lambda>off want. read_only (copy_committed token off want)", OF n(4) assms(6) refl]
        raw_call_OK [where call = "no_value (finish token)", OF n(5)])
qed

lemma raw_discharge_overrun:
  assumes "core_gate core" and "bridge_reachable core h0" and "begin_transition core tr h0 = (OK, Some (token, report), h)"
    and "8 < length (ef_writes (hd_effects h))"
  shows "fst (raw_discharge token report \<lparr>rw_handle = h, rw_calls = k, rw_copied = c\<rparr>) = Inl Overrun"
proof -
  obtain h2 where n: "copy_writes token 0 (length (ef_writes (hd_effects h))) h
      = (OK, ef_writes (hd_effects h), with_copied (bt_write_count (hd_batch h)) h)"
    by (rule discharge_calls [OF assms(1-3)], rule that)
  show ?thesis unfolding raw_discharge_def report_counts [OF assms(1-3)]
    by (simp add: raw_seq_def raw_copy_overrun [where copy = "copy_writes token", OF n assms(4)])
qed

text \<open>The node path.\<close>

lemma drive_batch_exact:
  assumes "core_gate core" and "bridge_reachable core h0" and "begin_transition core tr h0 = (OK, Some (pb_token b, pb_report b), h)"
    and "nd_handle (np_node s) = Some h" "\<not> nd_forked (np_node s)"
    and "mapE decode_write (ef_writes (hd_effects h)) = Inr ws" "mapE decode_envelope (ef_messages (hd_effects h)) = Inr ms"
    "mapE decode_committed (ef_committed (hd_effects h)) = Inr cs"
  shows "drive_batch b s = Some (Inr ms, s\<lparr>np_node := (np_node s)\<lparr>nd_handle := Some (discharged (pb_token b) h)\<rparr>,
    np_released := np_released s @ cs, np_calls := np_calls s + 5, np_copied := np_copied s + batch_bytes (hd_effects h)\<rparr>)"
proof -
  let ?t = "pb_token b"
  obtain h2 where n: "no_value (confirm ?t) (with_copied (bt_write_count (hd_batch h)) h) = (OK, (), h2)"
    "no_value (finish ?t) h2 = (OK, (), discharged ?t h)"
    and o: "\<And>n. \<not> nd_forked n \<Longrightarrow> nd_handle n = Some h2 \<Longrightarrow> outputs_stage ?t h2 n n"
    and e: "ef_messages (hd_effects h2) = ef_messages (hd_effects h)" "ef_committed (hd_effects h2) = ef_committed (hd_effects h)"
    by (rule discharge_calls [OF assms(1-3)], rule that)
  note f = begun_facts [OF assms(1-3)]
  note rep = report_counts [OF assms(1-3)]
  have "writes_stage ?t h 0 (np_node s)"
    using f(1-3,7) assms(4,5) with_copied_id [of h] unfolding writes_stage_def by auto
  then obtain n1 where w: "pb_writes b (np_node s) = Some (Inr ws, n1)" and "writes_stage ?t h (length (ef_writes (hd_effects h))) n1"
    using writes_copy.copy_returns [of ?t h "np_node s" WRITE_CHUNK decode_write ws] rep(1) assms(6)
    by (auto simp: pb_writes_def WRITE_CHUNK_def)
  then have h1: "nd_handle n1 = Some (with_copied (bt_write_count (hd_batch h)) h)" "\<not> nd_forked n1"
    using f(3) unfolding writes_stage_def by auto
  let ?n2 = "n1\<lparr>nd_handle := Some h2\<rparr>"
  have p: "pb_persisted b n1 = (Inr (), ?n2)" unfolding pb_persisted_def by (rule guarded_live [OF h1(2,1)]) (rule n(1))
  have s2: "outputs_stage ?t h2 ?n2 ?n2" using o [of ?n2] h1(2) by simp
  have m: "pb_messages b ?n2 = Some (Inr ms, ?n2)"
    using messages_copy.copy_returns [OF s2, of MESSAGE_CHUNK decode_envelope ms] rep(2) e assms(7)
    by (auto simp: pb_messages_def MESSAGE_CHUNK_def outputs_stage_def)
  have k: "pb_committed b ?n2 = Some (Inr cs, ?n2)"
    using committed_copy.copy_returns [OF s2, of COMMITTED_CHUNK decode_committed cs] rep(3) e assms(8)
    by (auto simp: pb_committed_def COMMITTED_CHUNK_def outputs_stage_def)
  have fin: "pb_finish b ?n2 = (Inr (), ?n2\<lparr>nd_handle := Some (discharged ?t h)\<rparr>)"
    unfolding pb_finish_def by (rule guarded_live [of _ h2]) (use h1(2) n(2) in simp_all)
  have "n1\<lparr>nd_handle := Some (discharged ?t h)\<rparr> = (np_node s)\<lparr>nd_handle := Some (discharged ?t h)\<rparr>"
    using h1(2) assms(5) by (cases n1; cases "np_node s") simp
  then show ?thesis
    using w p m k fin
    by (simp add: drive_batch_def seq_def on_path_batch_def on_path_def run_on_def call_on_def count_copied_def count_calls_def
        modify_def ret_def rep algebra_simps)
qed

text \<open>So only the layer differs: from handles in the same state the two paths begin a transition with the same
  outcome, and their discharges leave the handles in the same state again, having copied the same bytes.\<close>

lemma paths_agree:
  assumes "core_gate core" and "bridge_reachable core h0" and "nd_handle (np_node s) = Some h0" "\<not> nd_forked (np_node s)"
    and "begin_transition core tr h0 = (OK, Some (token, report), h)"
    and "length (ef_writes (hd_effects h)) \<le> 8" "length (ef_messages (hd_effects h)) \<le> 8" "length (ef_committed (hd_effects h)) \<le> 8"
    and "mapE decode_write (ef_writes (hd_effects h)) = Inr ws" "mapE decode_envelope (ef_messages (hd_effects h)) = Inr ms"
      "mapE decode_committed (ef_committed (hd_effects h)) = Inr cs"
  shows "\<exists>w s'. raw_begin core tr \<lparr>rw_handle = h0, rw_calls = k, rw_copied = np_copied s\<rparr> = (Inr (ef_messages (hd_effects h)), w)
    \<and> seq (on_path (node_begin core tr)) drive_batch s = Some (Inr ms, s')
    \<and> nd_handle (np_node s') = Some (rw_handle w) \<and> np_copied s' = rw_copied w \<and> np_released s' = np_released s @ cs"
proof -
  let ?b = "\<lparr>pb_token = token, pb_report = report\<rparr>"
  have n: "node_begin core tr (np_node s) = (Inr ?b, (np_node s)\<lparr>nd_handle := Some h\<rparr>)"
    using assms(3-5) by (simp add: node_begin_def guarded_def)
  have d: "drive_batch ?b (s\<lparr>np_node := (np_node s)\<lparr>nd_handle := Some h\<rparr>\<rparr>) = Some (Inr ms, s\<lparr>np_node := (np_node s)\<lparr>nd_handle := Some (discharged token h)\<rparr>,
    np_released := np_released s @ cs, np_calls := np_calls s + 5, np_copied := np_copied s + batch_bytes (hd_effects h)\<rparr>)"
    using drive_batch_exact [OF assms(1,2), of tr ?b h "s\<lparr>np_node := (np_node s)\<lparr>nd_handle := Some h\<rparr>\<rparr>" ws ms cs] assms(4,5,9-11) by simp
  have r: "raw_begin core tr \<lparr>rw_handle = h0, rw_calls = k, rw_copied = np_copied s\<rparr>
      = raw_discharge token report \<lparr>rw_handle = h, rw_calls = k + 1, rw_copied = np_copied s\<rparr>"
    by (simp add: raw_begin_def raw_seq_def raw_call_OK [where call = "begin_transition core tr", OF assms(5)])
  have s: "seq (on_path (node_begin core tr)) drive_batch s = drive_batch ?b (s\<lparr>np_node := (np_node s)\<lparr>nd_handle := Some h\<rparr>\<rparr>)"
    by (simp add: seq_def on_path_def call_on_def n)
  show ?thesis unfolding r s d raw_discharge_exact [OF assms(1,2,5-8)] by simp
qed

text \<open>The bytes a self-addressed envelope leads to are counted in both, but the raw path works through its queue
  breadth first and the node path depth first, so with two such envelopes in one batch the transitions of
  the two paths come in different orders.\<close>

lemma settle_order:
  "cv_recipient v = 1 \<Longrightarrow> raw_begin core (T_Step v) w = (Inr out, w') \<Longrightarrow> raw_settle core (v # queue) w = raw_settle core (queue @ out) w'"
  "ev_recipient e = 1 \<Longrightarrow> step_one core e s = Some (Inr inner, s') \<Longrightarrow>
   follow core (e # rest) s = Option.bind (follow core inner s') (\<lambda>(r, s2). case r of Inl x \<Rightarrow> Some (Inl x, s2) | Inr _ \<Rightarrow> follow core rest s2)"
  by (subst raw_settle.simps, simp) (subst follow.simps, simp)

end
