(* ===== verification/Style.thy ===== *)
theory Style
  imports Errors
begin

section \<open>The style check of \<^verbatim>\<open>tools/check_style.py\<close>\<close>

text \<open>
  The length limits on files, lines and procedures. The sources are given as paths and texts, in the order the
  script visits them, and Python sources with the functions that \<^verbatim>\<open>ast.parse\<close> finds in them; text is ASCII.
  The report is a list of \<open>problem\<close>, one constructor per message.
\<close>

definition MAX_FILE_LINES :: nat where "MAX_FILE_LINES = 1408"
definition HARD_COLUMNS :: nat where "HARD_COLUMNS = 108"
definition SOFT_COLUMNS :: nat where "SOFT_COLUMNS = 99"
definition MAX_PROC_LOGIC_LINES :: nat where "MAX_PROC_LOGIC_LINES = 70"
definition TAB :: nat where "TAB = 4"

datatype style_problem =
  File_Too_Long string nat | Line_Too_Wide string nat nat | Proc_Too_Long string nat string nat | Does_Not_Parse string nat

subsection \<open>Lines\<close>

definition rstrip :: "string \<Rightarrow> string" where "rstrip s = rev (dropWhile py_space (rev s))"

definition ends_in :: "string \<Rightarrow> string \<Rightarrow> bool" where
  "ends_in chars s \<longleftrightarrow> rstrip s \<noteq> [] \<and> last (rstrip s) \<in> set chars"

definition word_char :: "char \<Rightarrow> bool" where
  "word_char c \<longleftrightarrow> is_upper (to_upper c) \<or> (48 \<le> (of_char c :: nat) \<and> (of_char c :: nat) \<le> 57) \<or> c = CHR ''_''"

text \<open>\<^verbatim>\<open>PROC_START.match\<close>: a name that does not begin with a digit, \<^verbatim>\<open>::\<close>, perhaps \<^verbatim>\<open>#force_inline\<close>, and the word
  \<^verbatim>\<open>proc\<close>.\<close>

definition proc_word :: "string \<Rightarrow> bool" where
  "proc_word r \<longleftrightarrow> starts_with r ''proc'' \<and> (drop 4 r = [] \<or> \<not> word_char (r ! 4))"

definition proc_start :: "string \<Rightarrow> bool" where
  "proc_start line =
     (case line of
        [] \<Rightarrow> False
      | c # cs \<Rightarrow> word_char c \<and> \<not> (48 \<le> (of_char c :: nat) \<and> (of_char c :: nat) \<le> 57)
         \<and> (let r = dropWhile py_space (dropWhile word_char cs)
            in starts_with r ''::''
             \<and> (let r = dropWhile py_space (drop 2 r); t = drop 13 r
                in proc_word (if starts_with r ''#force_inline'' \<and> t \<noteq> [] \<and> py_space (hd t) then dropWhile py_space t else r))))"

text \<open>\<^verbatim>\<open>ORNAMENT.match\<close>: a comment of at least three rule characters.\<close>

definition ornament :: "string \<Rightarrow> bool" where
  "ornament line =
     (let r = dropWhile py_space line
      in starts_with r ''//''
       \<and> (let r = dropWhile py_space (drop 2 r); rule = takeWhile (\<lambda>c. c \<in> set ''-=_*'') r
          in 3 \<le> length rule \<and> list_all py_space (drop (length rule) r)))"

definition logic_lines :: "string list \<Rightarrow> nat" where
  "logic_lines body = length (filter (\<lambda>line. \<not> (strip line = [] \<or> starts_with (strip line) ''//'' \<or> ornament line)) body)"

text \<open>\<^verbatim>\<open>len(line.expandtabs(TAB))\<close>.\<close>

fun width_from :: "nat \<Rightarrow> string \<Rightarrow> nat" where
  "width_from col [] = col"
| "width_from col (c # cs) = width_from (if c = CHR 0x09 then col + (TAB - col mod TAB) else col + 1) cs"

subsection \<open>Odin procedures\<close>

text \<open>\<^verbatim>\<open>lines[i].split('::')[0].strip()\<close>.\<close>

fun before_colons :: "string \<Rightarrow> string" where
  "before_colons [] = []"
| "before_colons (c # cs) = (if starts_with (c # cs) ''::'' then [] else c # before_colons cs)"

definition proc_name :: "string \<Rightarrow> string" where "proc_name line = strip (before_colons line)"

text \<open>\<^verbatim>\<open>check_procs\<close> on the lines from index \<open>i\<close> on: where a procedure starts it looks for the line that ends in the
  opening brace, then for the line that is the closing brace, and goes on after it.\<close>

function check_procs :: "string \<Rightarrow> nat \<Rightarrow> string list \<Rightarrow> style_problem list" where
  "check_procs path i [] = []"
| "check_procs path i (l # ls) =
     (if proc_start l \<and> \<not> ends_in ''}),'' l then
        (let signature = takeWhile (\<lambda>x. \<not> ends_in ''{'' x) (l # ls)
         in case drop (length signature) (l # ls) of
              [] \<Rightarrow> []
            | _ # after \<Rightarrow>
               (let body = takeWhile (\<lambda>x. x \<noteq> ''}'') after; n = logic_lines body
                in (if MAX_PROC_LOGIC_LINES < n then [Proc_Too_Long path (i + 1) (proc_name l) n] else [])
                   @ check_procs path (i + length signature + length body + 2) (drop (length body + 1) after)))
      else check_procs path (i + 1) ls)"
  by pat_completeness auto

termination
  by (relation "measure (\<lambda>(_, _, ls). length ls)") (auto dest!: arg_cong [where f = length and y = "_ # _"])

subsection \<open>Python functions\<close>

record py_statement =
  st_lineno :: nat
  st_end_lineno :: "nat option"
  st_docstring :: bool

record py_function =
  pf_lineno :: nat
  pf_name :: string
  pf_body :: "py_statement list"

definition python_logic_lines :: "string list \<Rightarrow> py_function \<Rightarrow> nat" where
  "python_logic_lines lines f =
     (let body = (if pf_body f \<noteq> [] \<and> st_docstring (hd (pf_body f)) then tl (pf_body f) else pf_body f)
      in if body = [] then 0
         else let first = st_lineno (hd body);
                  final = foldr max (map (\<lambda>s. case st_end_lineno s of Some e \<Rightarrow> e | None \<Rightarrow> st_lineno s) body) 0
              in length (filter (\<lambda>line. \<not> (strip line = [] \<or> starts_with (strip line) ''#'')) (take (final - (first - 1)) (drop (first - 1) lines))))"

text \<open>The tree is the line of a syntax error, or the functions in the order of \<^verbatim>\<open>ast.walk\<close>.\<close>

definition check_python_procs :: "string \<Rightarrow> string list \<Rightarrow> nat + py_function list \<Rightarrow> style_problem list" where
  "check_python_procs path lines tree =
     (case tree of
        Inl line \<Rightarrow> [Does_Not_Parse path line]
      | Inr functions \<Rightarrow> concat (map (\<lambda>f.
          if MAX_PROC_LOGIC_LINES < python_logic_lines lines f
          then [Proc_Too_Long path (pf_lineno f) (pf_name f) (python_logic_lines lines f)] else []) functions))"

subsection \<open>The run\<close>

definition check_length :: "string \<Rightarrow> string list \<Rightarrow> style_problem list" where
  "check_length path lines = (if MAX_FILE_LINES < length lines then [File_Too_Long path (length lines)] else [])"

definition check_widths :: "string \<Rightarrow> string list \<Rightarrow> style_problem list \<times> style_problem list" where
  "check_widths path lines =
     (let rows = map (\<lambda>(number, line). Line_Too_Wide path (number + 1) (width_from 0 line)) (enumerate 0 lines)
      in (filter (\<lambda>p. case p of Line_Too_Wide _ _ w \<Rightarrow> HARD_COLUMNS < w | _ \<Rightarrow> False) rows,
          filter (\<lambda>p. case p of Line_Too_Wide _ _ w \<Rightarrow> w \<le> HARD_COLUMNS \<and> SOFT_COLUMNS < w | _ \<Rightarrow> False) rows))"

text \<open>\<^verbatim>\<open>main\<close>: the exit status, the problems, and what is over the soft limit.\<close>

definition check_style :: "(string \<times> string) list \<Rightarrow> (string \<times> string \<times> (nat + py_function list)) list \<Rightarrow> nat \<times> style_problem list \<times> style_problem list" where
  "check_style odin python =
     (let problems = concat (map (\<lambda>(path, src). let lines = splitlines src in
            check_length path lines @ fst (check_widths path lines) @ check_procs path 0 lines) odin)
          @ concat (map (\<lambda>(path, src, tree). let lines = splitlines src in
            check_length path lines @ check_python_procs path lines tree) python);
          soft = concat (map (\<lambda>(path, src). snd (check_widths path (splitlines src))) odin)
      in (if problems = [] then 0 else 1, problems, soft))"

subsection \<open>What is reported\<close>

text \<open>Every ornament is a comment line anyway.\<close>

lemma ornament_is_comment: "ornament line \<Longrightarrow> starts_with (strip line) ''//''"
proof -
  assume "ornament line"
  then obtain t where t: "dropWhile py_space line = ''//'' @ t"
    by (metis append_take_drop_id ornament_def starts_with_def)
  have "\<not> py_space (CHR ''/'')" by code_simp
  then have "\<exists>u. dropWhile py_space (rev t @ ''//'') = u @ ''//''" by (cases "\<forall>x \<in> set (rev t). py_space x") (auto simp: dropWhile_append)
  then obtain u where "dropWhile py_space (rev (dropWhile py_space line)) = u @ ''//''" using t by auto
  then show ?thesis by (simp add: strip_def strip_with_def starts_with_def)
qed

text \<open>A source laid out as procedures and other lines.\<close>

datatype odin_block = Plain string | Procedure string "string list"

fun block_lines :: "odin_block \<Rightarrow> string list" where
  "block_lines (Plain l) = [l]"
| "block_lines (Procedure signature body) = signature # body @ [''}'']"

fun well_laid :: "odin_block \<Rightarrow> bool" where
  "well_laid (Plain l) \<longleftrightarrow> \<not> proc_start l"
| "well_laid (Procedure signature body) \<longleftrightarrow> proc_start signature \<and> ends_in ''{'' signature \<and> ''}'' \<notin> set body"

fun too_long :: "odin_block \<Rightarrow> (string \<times> nat) list" where
  "too_long (Plain l) = []"
| "too_long (Procedure signature body) = (if MAX_PROC_LOGIC_LINES < logic_lines body then [(proc_name signature, logic_lines body)] else [])"

fun named :: "style_problem \<Rightarrow> string \<times> nat" where
  "named (Proc_Too_Long _ _ name n) = (name, n)"
| "named (File_Too_Long name n) = (name, n)"
| "named (Line_Too_Wide name _ n) = (name, n)"
| "named (Does_Not_Parse name n) = (name, n)"

lemma check_procs_exact:
  "list_all well_laid bs \<Longrightarrow> map named (check_procs path i (concat (map block_lines bs))) = concat (map too_long bs)"
proof (induction bs arbitrary: i)
  case (Cons b bs)
  show ?case
  proof (cases b)
    case (Plain l)
    then show ?thesis using Cons by simp
  next
    case (Procedure signature body)
    then have s: "proc_start signature" "ends_in ''{'' signature" "''}'' \<notin> set body" using Cons.prems by auto
    then have "\<not> ends_in ''}),'' signature" by (auto simp: ends_in_def)
    moreover have "takeWhile (\<lambda>x. x \<noteq> ''}'') (body @ ''}'' # rest) = body" for rest
      using s(3) by (induction body) auto
    ultimately show ?thesis using Cons s Procedure by (simp add: Let_def)
  qed
qed simp

text \<open>A procedure whose first line ends in a comma or a parenthesis, as that of a wrapped signature does, is never
  measured, however long it is.\<close>

lemma wrapped_signature_unchecked:
  "\<forall>l \<in> set ls. proc_start l \<longrightarrow> ends_in ''}),'' l \<Longrightarrow> check_procs path i ls = []"
  by (induction ls arbitrary: i) auto

text \<open>The status is 0 exactly when every limit is kept.\<close>

lemma status_exact: "fst (check_style odin python) = 0 \<longleftrightarrow> fst (snd (check_style odin python)) = []"
  by (simp add: check_style_def Let_def)

lemma wide_line_fails:
  assumes "(path, src) \<in> set odin" and "line \<in> set (splitlines src)" and "HARD_COLUMNS < width_from 0 line"
  shows "fst (check_style odin python) = 1"
proof -
  obtain n where "n < length (splitlines src)" "splitlines src ! n = line" using assms(2) by (auto simp: in_set_conv_nth)
  then have "(n, line) \<in> set (enumerate 0 (splitlines src))" by (simp add: in_set_enumerate_eq)
  then have "Line_Too_Wide path (n + 1) (width_from 0 line) \<in> set (fst (check_widths path (splitlines src)))"
    using assms(3) by (force simp: check_widths_def Let_def)
  then show ?thesis using assms(1) by (fastforce simp: check_style_def Let_def)
qed

end
